(* ===== verification/Kbase.thy ===== *)
theory Kbase
  imports Main "HOL-Library.Word"
begin

section \<open>Shared base of the model\<close>

text \<open>
  What every component of the runtime shares: the machine integer types of the 64-bit build
  (\<open>size_t\<close>, \<open>uintptr_t\<close> and pointers are 64 bits wide), the error numbers, the macros of
  \<^verbatim>\<open>include/bmetal/bmetal.h\<close>, the build configuration as a record, and the generic facts on
  words and lists the component theories use.  C functions that return a negative error number
  return it here as an \<open>int\<close>.
\<close>

unbundle bit_operations_syntax

type_synonym u8 = "8 word"
type_synonym u16 = "16 word"
type_synonym u32 = "32 word"
type_synonym u64 = "64 word"

text \<open>Byte-addressed memory: every address holds a byte, addresses wrap around.\<close>

type_synonym memory = "u64 \<Rightarrow> u8"

subsection \<open>Error numbers\<close>

abbreviation EPERM :: int where "EPERM \<equiv> 1"
abbreviation EIO :: int where "EIO \<equiv> 5"
abbreviation EBADF :: int where "EBADF \<equiv> 9"
abbreviation EAGAIN :: int where "EAGAIN \<equiv> 11"
abbreviation ENOMEM :: int where "ENOMEM \<equiv> 12"
abbreviation EFAULT :: int where "EFAULT \<equiv> 14"
abbreviation EBUSY :: int where "EBUSY \<equiv> 16"
abbreviation ENODEV :: int where "ENODEV \<equiv> 19"
abbreviation EINVAL :: int where "EINVAL \<equiv> 22"
abbreviation ENOTTY :: int where "ENOTTY \<equiv> 25"
abbreviation ERANGE :: int where "ERANGE \<equiv> 34"
abbreviation ENOSYS :: int where "ENOSYS \<equiv> 38"
abbreviation ENOTSUP :: int where "ENOTSUP \<equiv> 95"
abbreviation EWOULDBLOCK :: int where "EWOULDBLOCK \<equiv> EAGAIN"

subsection \<open>Macros of bmetal.h and device.h\<close>

definition NABS :: "int \<Rightarrow> int" where
  "NABS a = (if a > 0 then a else - a)"

definition NMIN :: "'a::linorder \<Rightarrow> 'a \<Rightarrow> 'a" where
  "NMIN a b = (if a < b then a else b)"

definition ALIGN_OF :: "u64 \<Rightarrow> u64 \<Rightarrow> u64" where
  "ALIGN_OF x align = (if x mod align = 0 then x else (x div align + 1) * align)"

definition IS_ERROR :: "int \<Rightarrow> bool" where
  "IS_ERROR r \<longleftrightarrow> r \<noteq> 0 \<and> r \<noteq> - EAGAIN"

lemma NABS_abs [simp]: "NABS a = \<bar>a\<bar>"
  by (simp add: NABS_def)

lemma NMIN_min [simp]: "NMIN a b = min a b"
  by (simp add: NMIN_def min_def not_less) (metis order.strict_implies_order order_antisym)

subsection \<open>Build configuration\<close>

text \<open>
  The \<open>CONFIG_\<close> macros the modelled code reads.  They are a parameter of the definitions that
  use them; \<open>valid_config\<close> collects the checks the sources make with \<open>#error\<close>.
\<close>

record kconfig =
  NUM_CORES :: nat
  MAIN_CORE :: int
  MAIN_PID :: int
  MAX_FD :: nat
  MAX_EVENT_HANDLERS :: nat
  HEAP_SIZE :: nat
  BRK_SIZE :: nat
  BRK_CLEAR_AT_SHRINK :: bool
  INTR_STACK_SIZE :: nat
  IDLE_STACK_SIZE :: nat
  MAIN_STACK_SIZE :: nat
  STACK_ALIGN :: nat
  SYSTEM_TIMER_HZ :: nat
  COMM_MAX_ARGS :: nat
  COMM_MAX_ENVS :: nat

definition riscv_qemu_virt_64 :: kconfig where
  "riscv_qemu_virt_64 =
     \<lparr>NUM_CORES = 4, MAIN_CORE = 0, MAIN_PID = 1, MAX_FD = 64, MAX_EVENT_HANDLERS = 32,
      HEAP_SIZE = 0xf00000, BRK_SIZE = 0x800000, BRK_CLEAR_AT_SHRINK = True,
      INTR_STACK_SIZE = 4096, IDLE_STACK_SIZE = 4096, MAIN_STACK_SIZE = 65536,
      STACK_ALIGN = 16, SYSTEM_TIMER_HZ = 250, COMM_MAX_ARGS = 8, COMM_MAX_ENVS = 16\<rparr>"

abbreviation (input) PAGE_SIZE :: nat where "PAGE_SIZE \<equiv> 4096"

definition MAX_ARGV :: "kconfig \<Rightarrow> nat" where
  "MAX_ARGV cfg = COMM_MAX_ARGS cfg + 1 + COMM_MAX_ENVS cfg + 1 + 10"

definition valid_config :: "kconfig \<Rightarrow> bool" where
  "valid_config cfg \<longleftrightarrow>
     HEAP_SIZE cfg mod PAGE_SIZE = 0 \<and> BRK_SIZE cfg \<le> HEAP_SIZE cfg \<and>
     INTR_STACK_SIZE cfg mod STACK_ALIGN cfg = 0 \<and> IDLE_STACK_SIZE cfg mod STACK_ALIGN cfg = 0 \<and>
     MAIN_STACK_SIZE cfg mod STACK_ALIGN cfg = 0 \<and>
     8 * MAX_ARGV cfg \<le> MAIN_STACK_SIZE cfg"

lemma valid_config_riscv_qemu_virt_64: "valid_config riscv_qemu_virt_64"
  by (simp add: valid_config_def MAX_ARGV_def riscv_qemu_virt_64_def)

subsection \<open>Shared facts\<close>

named_theorems word_offset \<open>distances between addresses that wrap around\<close>

text \<open>The distance from \<open>s + k\<close> to \<open>a\<close> in terms of the distance from \<open>s\<close> to \<open>a\<close>.\<close>

lemma unat_minus_offset [word_offset]:
  fixes a s :: "'w::len word"
  assumes k: "k < 2 ^ LENGTH('w)"
  shows "unat (a - (s + of_nat k)) =
    (if k \<le> unat (a - s) then unat (a - s) - k else unat (a - s) + 2 ^ LENGTH('w) - k)"
proof -
  let ?d = "a - s"
  have eq: "a - (s + of_nat k) = ?d - of_nat k"
    by simp
  have uk: "unat (of_nat k :: 'w word) = k"
    using k by (simp add: unat_of_nat take_bit_nat_eq_self_iff)
  show ?thesis
  proof (cases "k \<le> unat ?d")
    case True
    then have "of_nat k \<le> ?d"
      by (simp add: word_le_nat_alt uk)
    then have "unat (?d - of_nat k) = unat ?d - k"
      by (simp add: unat_sub uk)
    with True show ?thesis by (simp only: eq if_True)
  next
    case False
    then have "unat (?d - of_nat k) = unat ?d + 2 ^ LENGTH('w) - k"
      using unat_sub_if_size [of ?d "of_nat k"] by (simp only: uk word_size if_False)
    with False show ?thesis by (simp only: eq if_False)
  qed
qed

lemma unat_offset [simp]:
  fixes s :: "'w::len word"
  shows "k < 2 ^ LENGTH('w) \<Longrightarrow> unat (s + of_nat k - s) = k"
  by (simp add: unat_of_nat take_bit_nat_eq_self_iff)

lemma offset_eq_iff:
  fixes a s :: "'w::len word"
  assumes k: "k < 2 ^ LENGTH('w)"
  shows "a = s + of_nat k \<longleftrightarrow> unat (a - s) = k"
proof
  assume "unat (a - s) = k"
  then have "a - s = of_nat k"
    by (metis word_of_nat_eq_iff of_nat_unat ucast_id unsigned_of_nat)
  then show "a = s + of_nat k"
    by (simp add: algebra_simps)
qed (use k in \<open>simp add: unat_of_nat take_bit_nat_eq_self_iff\<close>)

lemma unat_u64_le: "unat (n :: u64) \<le> 2 ^ 64"
  using unsigned_less [of n, where 'a = nat] by simp

lemma sint_small:
  assumes "unat (w :: u64) < 2 ^ 63"
  shows "sint w = int (unat w)"
proof -
  have u: "uint w = int (unat w)" by simp
  have "int (unat w) < int (2 ^ 63)" using assms by (simp only: of_nat_less_iff)
  then show ?thesis unfolding sint_uint u by (intro signed_take_bit_int_eq_self) (simp_all add: order_trans [OF _ of_nat_0_le_iff] del: of_nat_unat)
qed

end
