(* ===== verification/Lock.thy ===== *)
theory Lock
  imports Kbase "HOL-Library.Monad_Syntax"
begin

section \<open>Atomics and spinlocks\<close>

text \<open>
  \<^verbatim>\<open>include/bmetal/atomic.h\<close> and \<^verbatim>\<open>sys/lock.c\<close>.  Two views of the same operations.  The
  sequential view is a partial function: a hart that takes a lock already held spins forever,
  which is the value \<open>None\<close>.  The concurrent view interleaves the atomic accesses of any number
  of harts (the exchange, the store of the owner, the two stores of the release) as a step
  relation; mutual exclusion is an invariant of its reachable states.
\<close>

subsection \<open>Atomic accesses\<close>

text \<open>
  Each access returns its value and the new contents.  \<open>k_afetch_add\<close> is the C11 operation of
  the build with \<open>CONFIG_ATOMIC\<close>; \<open>k_afetch_add_noatomic\<close> is the inline function of the build
  without it.
\<close>

definition k_aexchange :: "u32 \<Rightarrow> u32 \<Rightarrow> u32 \<times> u32" where
  "k_aexchange obj arg = (obj, arg)"

definition k_astore :: "u32 \<Rightarrow> u32 \<Rightarrow> u32" where
  "k_astore obj arg = arg"

definition k_afetch_add :: "u32 \<Rightarrow> u32 \<Rightarrow> u32 \<times> u32" where
  "k_afetch_add obj arg = (obj, obj + arg)"

definition k_afetch_add_noatomic :: "u32 \<Rightarrow> u32 \<Rightarrow> u32 \<times> u32" where
  "k_afetch_add_noatomic obj arg = (obj + arg, obj + arg)"

subsection \<open>The spinlock\<close>

record k_spinlock =
  lock_val :: u32
  lock_id :: int

definition k_spinlock_init :: "k_spinlock \<Rightarrow> k_spinlock" where
  "k_spinlock_init s = s\<lparr>lock_val := 0, lock_id := -1\<rparr>"

definition k_spinlock_trylock :: "k_spinlock \<Rightarrow> u32 \<times> k_spinlock" where
  "k_spinlock_trylock s =
     (let (v, new) = k_aexchange (lock_val s) 1 in (v, s\<lparr>lock_val := new\<rparr>))"

partial_function (option) spin :: "k_spinlock \<Rightarrow> k_spinlock option" where
  [code]: "spin s =
     (let (r, s') = k_spinlock_trylock s in if r \<noteq> 0 then spin s' else Some s')"

definition k_spinlock_lock :: "int \<Rightarrow> k_spinlock \<Rightarrow> k_spinlock option" where
  "k_spinlock_lock hart s = do { s \<leftarrow> spin s; Some (s\<lparr>lock_id := hart\<rparr>) }"

definition release_id :: "k_spinlock \<Rightarrow> k_spinlock" where
  "release_id s = s\<lparr>lock_id := -1\<rparr>"

definition release_val :: "k_spinlock \<Rightarrow> k_spinlock" where
  "release_val s = s\<lparr>lock_val := k_astore (lock_val s) 0\<rparr>"

definition k_spinlock_unlock :: "k_spinlock \<Rightarrow> k_spinlock" where
  "k_spinlock_unlock s = release_val (release_id s)"

definition unlocked :: "k_spinlock \<Rightarrow> bool" where
  "unlocked s \<longleftrightarrow> lock_val s = 0"

text \<open>A lock variable in zeroed static storage.\<close>

definition lock_static :: k_spinlock where
  "lock_static = \<lparr>lock_val = 0, lock_id = 0\<rparr>"

subsection \<open>Interleaved harts\<close>

text \<open>
  Where a hart stands in the lock: outside, in the loop of \<open>k_arch_gen_spinlock_lock\<close>, after the
  exchange that returned 0, in the critical section, and between the two stores of the release.
\<close>

datatype lock_pc = Outside | Spinning | Taken | Critical | Releasing

record lock_state =
  the_lock :: k_spinlock
  lock_at :: "int \<Rightarrow> lock_pc"

inductive lock_step :: "lock_state \<Rightarrow> lock_state \<Rightarrow> bool" where
  enter: "lock_at st h = Outside \<Longrightarrow> lock_step st (st\<lparr>lock_at := (lock_at st)(h := Spinning)\<rparr>)"
| exchange_busy: "lock_at st h = Spinning \<Longrightarrow> k_spinlock_trylock (the_lock st) = (r, l) \<Longrightarrow> r \<noteq> 0 \<Longrightarrow>
    lock_step st (st\<lparr>the_lock := l\<rparr>)"
| exchange_free: "lock_at st h = Spinning \<Longrightarrow> k_spinlock_trylock (the_lock st) = (0, l) \<Longrightarrow>
    lock_step st (st\<lparr>the_lock := l, lock_at := (lock_at st)(h := Taken)\<rparr>)"
| set_owner: "lock_at st h = Taken \<Longrightarrow>
    lock_step st (st\<lparr>the_lock := (the_lock st)\<lparr>lock_id := h\<rparr>, lock_at := (lock_at st)(h := Critical)\<rparr>)"
| unlock_id: "lock_at st h = Critical \<Longrightarrow>
    lock_step st (st\<lparr>the_lock := release_id (the_lock st), lock_at := (lock_at st)(h := Releasing)\<rparr>)"
| unlock_val: "lock_at st h = Releasing \<Longrightarrow>
    lock_step st (st\<lparr>the_lock := release_val (the_lock st), lock_at := (lock_at st)(h := Outside)\<rparr>)"

definition holds :: "lock_state \<Rightarrow> int \<Rightarrow> bool" where
  "holds st h \<longleftrightarrow> lock_at st h \<in> {Taken, Critical, Releasing}"

definition lock_start :: "k_spinlock \<Rightarrow> lock_state" where
  "lock_start l = \<lparr>the_lock = l, lock_at = (\<lambda>_. Outside)\<rparr>"

definition lock_inv :: "lock_state \<Rightarrow> bool" where
  "lock_inv st \<longleftrightarrow>
     (if unlocked (the_lock st) then \<forall>h. \<not> holds st h else \<exists>h. \<forall>h'. holds st h' \<longleftrightarrow> h' = h) \<and>
     (\<forall>h. lock_at st h = Critical \<longrightarrow> lock_id (the_lock st) = h)"

lemmas lock_defs = k_spinlock_trylock_def k_aexchange_def k_astore_def release_id_def
  release_val_def k_spinlock_unlock_def k_spinlock_init_def unlocked_def

subsection \<open>Sequential behaviour\<close>

lemma spin_free: "unlocked s \<Longrightarrow> spin s = Some (s\<lparr>lock_val := 1\<rparr>)"
  by (subst spin.simps) (simp add: lock_defs)

lemma spin_Some: "spin s = Some s' \<Longrightarrow> unlocked s"
proof (rule spin.raw_induct [of "\<lambda>s s'. unlocked s" s s'])
  fix f :: "k_spinlock \<Rightarrow> k_spinlock option" and s s'
  assume ih: "\<And>x y. f x = Some y \<Longrightarrow> unlocked x"
    and step: "(let (r, s') = k_spinlock_trylock s in if r \<noteq> 0 then f s' else Some s') = Some s'"
  have "lock_val s \<noteq> 0 \<Longrightarrow> f (s\<lparr>lock_val := 1\<rparr>) = Some s'"
    using step by (simp add: lock_defs)
  with ih [of "s\<lparr>lock_val := 1\<rparr>"] show "unlocked s" by (auto simp: unlocked_def)
qed

lemma spin_busy: "\<not> unlocked s \<Longrightarrow> spin s = None"
  using spin_Some [of s] by (cases "spin s") auto

text \<open>The contract of a lock that its users rely on.\<close>

locale mutex =
  fixes acquire :: "int \<Rightarrow> 'l \<Rightarrow> 'l option" and release :: "'l \<Rightarrow> 'l" and free :: "'l \<Rightarrow> bool"
  assumes acquire_free: "free l \<Longrightarrow> \<exists>l'. acquire h l = Some l' \<and> \<not> free l'"
    and acquire_busy: "\<not> free l \<Longrightarrow> acquire h l = None"
    and release_free: "free (release l)"
begin

lemma acquire_iff: "(\<exists>l'. acquire h l = Some l') \<longleftrightarrow> free l"
  using acquire_free acquire_busy by (metis option.distinct(1))

lemma acquire_held: "acquire h l = Some l' \<Longrightarrow> \<not> free l'"
  using acquire_free acquire_iff by (metis option.inject)

lemma reacquire_stuck: "acquire h l = Some l' \<Longrightarrow> acquire h' l' = None"
  using acquire_held acquire_busy by blast

lemma section_returns:
  "free l \<Longrightarrow> \<exists>l'. acquire h l = Some l' \<and> free (release l') \<and> acquire h' (release l') \<noteq> None"
  using acquire_free release_free by (metis acquire_iff option.distinct(1))

end

interpretation spinlock: mutex k_spinlock_lock k_spinlock_unlock unlocked
proof
  show "unlocked s \<Longrightarrow> \<exists>s'. k_spinlock_lock h s = Some s' \<and> \<not> unlocked s'" for s h
    by (simp add: k_spinlock_lock_def spin_free) (simp add: unlocked_def)
qed (simp_all add: k_spinlock_lock_def spin_busy, simp add: lock_defs)

lemma k_spinlock_lock_Some [simp]:
  "unlocked s \<Longrightarrow> k_spinlock_lock h s = Some (s\<lparr>lock_val := 1, lock_id := h\<rparr>)"
  by (simp add: k_spinlock_lock_def spin_free)

lemma k_spinlock_lock_None [simp]: "\<not> unlocked s \<Longrightarrow> k_spinlock_lock h s = None"
  by (rule spinlock.acquire_busy)

lemma unlocked_unlock [simp]: "unlocked (k_spinlock_unlock s)"
  by (rule spinlock.release_free)

lemma unlocked_static [simp]: "unlocked lock_static"
  by (simp add: unlocked_def lock_static_def)

lemma unlocked_init [simp]: "unlocked (k_spinlock_init s)"
  by (simp add: lock_defs)

subsection \<open>Mutual exclusion\<close>

lemma lock_inv_start: "unlocked l \<Longrightarrow> lock_inv (lock_start l)"
  by (simp add: lock_inv_def lock_start_def holds_def)

lemma holds_upd [simp]:
  "holds (st\<lparr>lock_at := (lock_at st)(h := p)\<rparr>) h' \<longleftrightarrow>
     (if h' = h then p \<in> {Taken, Critical, Releasing} else holds st h')"
  "holds (st\<lparr>the_lock := l\<rparr>) h' \<longleftrightarrow> holds st h'"
  "holds (st\<lparr>the_lock := l, lock_at := (lock_at st)(h := p)\<rparr>) h' \<longleftrightarrow>
     (if h' = h then p \<in> {Taken, Critical, Releasing} else holds st h')"
  by (simp_all add: holds_def)

lemma lock_at_holds:
  "lock_at st h = Outside \<Longrightarrow> \<not> holds st h" "lock_at st h = Spinning \<Longrightarrow> \<not> holds st h"
  "lock_at st h = Taken \<Longrightarrow> holds st h" "lock_at st h = Critical \<Longrightarrow> holds st h"
  "lock_at st h = Releasing \<Longrightarrow> holds st h"
  by (simp_all add: holds_def)

lemma lock_inv_holder:
  "lock_inv st \<Longrightarrow> holds st h \<Longrightarrow> \<not> unlocked (the_lock st) \<and> (\<forall>h'. holds st h' \<longleftrightarrow> h' = h)"
  unfolding lock_inv_def by (metis (full_types))

lemma lock_inv_busy:
  "lock_val (the_lock st) \<noteq> 0 \<Longrightarrow> lock_inv st \<Longrightarrow> lock_inv (st\<lparr>the_lock := (the_lock st)\<lparr>lock_val := 1\<rparr>\<rparr>)"
  by (simp add: lock_inv_def unlocked_def)

lemma lock_inv_take:
  assumes "lock_inv st" "unlocked (the_lock st)"
  shows "lock_inv (st\<lparr>the_lock := (the_lock st)\<lparr>lock_val := 1\<rparr>, lock_at := (lock_at st)(h := Taken)\<rparr>)"
  using assms by (auto simp: lock_inv_def unlocked_def)

lemma lock_inv_held:
  assumes "lock_inv st" "holds st h" "unlocked l = (p = Outside)"
    and "p = Critical \<longrightarrow> lock_id l = h" "p \<noteq> Spinning"
  shows "lock_inv (st\<lparr>the_lock := l, lock_at := (lock_at st)(h := p)\<rparr>)"
proof -
  have all: "holds st h' \<longleftrightarrow> h' = h" for h'
    using lock_inv_holder [OF assms(1,2)] by blast
  moreover have "lock_at st h' \<noteq> Critical" if "h' \<noteq> h" for h'
    using all [of h'] that lock_at_holds(4) by blast
  ultimately show ?thesis
    using assms(3-5) by (cases p) (auto simp: lock_inv_def)
qed

lemma lock_inv_step: "lock_step st st' \<Longrightarrow> lock_inv st \<Longrightarrow> lock_inv st'"
proof (induction rule: lock_step.induct)
  case (enter st h)
  then have "holds (st\<lparr>lock_at := (lock_at st)(h := Spinning)\<rparr>) = holds st"
    using lock_at_holds(1) [of st h] by (auto simp: fun_eq_iff)
  then show ?case using enter by (auto simp: lock_inv_def)
next
  case (exchange_busy st h r l)
  then show ?case using lock_inv_busy [of st] by (auto simp: k_spinlock_trylock_def k_aexchange_def)
next
  case (exchange_free st h l)
  then show ?case
    using lock_inv_take [of st h] by (auto simp: k_spinlock_trylock_def k_aexchange_def unlocked_def)
next
  case (set_owner st h)
  note held = lock_at_holds(3) [OF set_owner.hyps]
  from lock_inv_holder [OF set_owner.prems held] show ?case
    by (intro lock_inv_held [OF set_owner.prems held]) (simp_all add: unlocked_def)
next
  case (unlock_id st h)
  note held = lock_at_holds(4) [OF unlock_id.hyps]
  from lock_inv_holder [OF unlock_id.prems held] show ?case
    by (intro lock_inv_held [OF unlock_id.prems held]) (simp_all add: unlocked_def release_id_def)
next
  case (unlock_val st h)
  then show ?case
    by (intro lock_inv_held lock_at_holds(5)) (simp_all add: lock_defs)
qed

lemma lock_inv_reachable: "lock_step\<^sup>*\<^sup>* st st' \<Longrightarrow> lock_inv st \<Longrightarrow> lock_inv st'"
  by (induction rule: rtranclp_induct) (auto intro: lock_inv_step)

text \<open>A run in which hart 0 is in the critical section and hart 3 waits.\<close>

lemma lock_run_example:
  "\<exists>st. lock_step\<^sup>*\<^sup>* (lock_start lock_static) st \<and> lock_at st 0 = Critical \<and> lock_at st 3 = Spinning"
proof -
  let ?s0 = "lock_start lock_static"
  let ?s1 = "?s0\<lparr>lock_at := (lock_at ?s0)(3 := Spinning)\<rparr>"
  let ?s2 = "?s1\<lparr>lock_at := (lock_at ?s1)(0 := Spinning)\<rparr>"
  let ?s3 = "?s2\<lparr>the_lock := lock_static\<lparr>lock_val := 1\<rparr>, lock_at := (lock_at ?s2)(0 := Taken)\<rparr>"
  let ?s4 = "?s3\<lparr>the_lock := (the_lock ?s3)\<lparr>lock_id := 0\<rparr>, lock_at := (lock_at ?s3)(0 := Critical)\<rparr>"
  have "lock_step ?s0 ?s1" by (rule lock_step.enter) (simp add: lock_start_def)
  moreover have "lock_step ?s1 ?s2" by (rule lock_step.enter) (simp add: lock_start_def)
  moreover have "lock_step ?s2 ?s3"
    by (rule lock_step.exchange_free) (simp_all add: lock_start_def lock_static_def lock_defs)
  moreover have "lock_step ?s3 ?s4" by (rule lock_step.set_owner) simp
  ultimately have "lock_step\<^sup>*\<^sup>* ?s0 ?s4" by (meson converse_rtranclp_into_rtranclp rtranclp.rtrancl_refl)
  moreover have "lock_at ?s4 0 = Critical" "lock_at ?s4 3 = Spinning" by simp_all
  ultimately show ?thesis by blast
qed

text \<open>
  C2. Mutual exclusion of the spinlock for any number of harts: in every state reachable from a
  free lock with all harts outside, at most one hart is between the exchange that took the lock
  and the store that frees it, and inside the critical section the lock names that hart as owner.
\<close>

theorem spinlock_mutual_exclusion:
  assumes "lock_step\<^sup>*\<^sup>* (lock_start l) st" "unlocked l"
  shows "(holds st h \<and> holds st h' \<longrightarrow> h = h') \<and>
    (lock_at st h = Critical \<longrightarrow> lock_id (the_lock st) = h \<and> lock_val (the_lock st) \<noteq> 0)"
proof -
  have inv: "lock_inv st"
    using lock_inv_reachable [OF assms(1) lock_inv_start [OF assms(2)]] .
  then have "lock_at st h = Critical \<Longrightarrow> lock_id (the_lock st) = h \<and> lock_val (the_lock st) \<noteq> 0"
    using lock_inv_holder [OF inv lock_at_holds(4)] by (auto simp: lock_inv_def unlocked_def)
  with lock_inv_holder [OF inv] show ?thesis by blast
qed

theorem spinlock_mutual_exclusion_witness:
  "\<exists>st. lock_step\<^sup>*\<^sup>* (lock_start lock_static) st \<and> lock_at st 0 = Critical \<and>
    lock_at st 3 = Spinning \<and> lock_id (the_lock st) = 0"
proof -
  obtain st where st: "lock_step\<^sup>*\<^sup>* (lock_start lock_static) st"
    "lock_at st 0 = Critical" "lock_at st 3 = Spinning"
    using lock_run_example by blast
  with spinlock_mutual_exclusion [OF st(1), of 0 0] have "lock_id (the_lock st) = 0" by simp
  with st show ?thesis by blast
qed

text \<open>
  The lock does not get stuck: in every reachable state in which no hart holds the lock, the
  next exchange of any spinning hart takes it; and while a hart holds it, that hart has a step of
  its own to take.
\<close>

theorem spinlock_progress:
  assumes "lock_step\<^sup>*\<^sup>* (lock_start l) st" "unlocked l" "lock_at st h = Spinning"
  shows "(\<exists>st'. lock_step st st' \<and> holds st' h) \<or>
    (\<exists>h' st'. h' \<noteq> h \<and> holds st h' \<and> lock_step st st' \<and> lock_at st' h' \<noteq> lock_at st h')"
proof (cases "lock_val (the_lock st) = 0")
  case True
  then have "k_spinlock_trylock (the_lock st) = (0, (the_lock st)\<lparr>lock_val := 1\<rparr>)"
    by (simp add: lock_defs)
  from lock_step.exchange_free [OF assms(3) this] have "\<exists>st'. lock_step st st' \<and> holds st' h"
    by (intro exI conjI) (assumption, simp add: holds_def)
  then show ?thesis ..
next
  case False
  with lock_inv_reachable [OF assms(1) lock_inv_start [OF assms(2)]]
  obtain h' where h': "holds st h'" by (auto simp: lock_inv_def unlocked_def)
  then have "h' \<noteq> h" using assms(3) by (auto simp: holds_def)
  have "\<exists>st'. lock_step st st' \<and> lock_at st' h' \<noteq> lock_at st h'"
  proof (cases "lock_at st h'")
    case Taken
    from lock_step.set_owner [OF this] Taken show ?thesis by (intro exI conjI) (assumption, simp)
  next
    case Critical
    from lock_step.unlock_id [OF this] Critical show ?thesis by (intro exI conjI) (assumption, simp)
  next
    case Releasing
    from lock_step.unlock_val [OF this] Releasing show ?thesis by (intro exI conjI) (assumption, simp)
  qed (use h' in \<open>simp_all add: holds_def\<close>)
  with h' \<open>h' \<noteq> h\<close> show ?thesis by blast
qed

theorem spinlock_progress_witness:
  "\<exists>st. lock_step\<^sup>*\<^sup>* (lock_start lock_static) st \<and> lock_at st 3 = Spinning \<and>
    ((\<exists>st'. lock_step st st' \<and> holds st' 3) \<or>
     (\<exists>h' st'. h' \<noteq> 3 \<and> holds st h' \<and> lock_step st st' \<and> lock_at st' h' \<noteq> lock_at st h'))"
proof -
  obtain st where "lock_step\<^sup>*\<^sup>* (lock_start lock_static) st" "lock_at st 3 = Spinning"
    using lock_run_example by blast
  with spinlock_progress [of lock_static st 3] show ?thesis by auto
qed

end
