(* ===== verification/Kstring.thy ===== *)
theory Kstring
  imports Kbase
begin

section \<open>String and memory routines\<close>

text \<open>
  The routines of \<^verbatim>\<open>sys/sys/string.c\<close>.  \<open>k_memset\<close> and \<open>k_memcpy\<close> run on the byte
  memory with the word-wide stores of the 64-bit build (\<open>OPT_T\<close> is \<open>uint64_t\<close>); addresses are
  64-bit words, the byte counter of a loop is the natural number \<open>size_t\<close> holds.  The string
  comparisons read a C string as the list of its characters before the terminator, and \<open>cread\<close>
  is \<open>*p\<close>: the code of the first character, 0 at the terminator.  A plain \<open>char\<close> is unsigned on
  RISC-V.  The tests for equal pointers at the start of the comparisons return what the loop
  returns on equal strings.
\<close>

subsection \<open>Byte memory\<close>

definition store64 :: "memory \<Rightarrow> u64 \<Rightarrow> u64 \<Rightarrow> memory" where
  "store64 m p v = (\<lambda>a. let i = unat (a - p) in
     if i < 8 then ucast (drop_bit (8 * i) v) else m a)"

definition load64 :: "memory \<Rightarrow> u64 \<Rightarrow> u64" where
  "load64 m p = foldr (\<lambda>i v. push_bit 8 v OR ucast (m (p + of_nat i))) [0..<8] 0"

definition is_aligned :: "u64 \<Rightarrow> nat \<Rightarrow> bool" where
  "is_aligned p n \<longleftrightarrow> unat p mod n = 0"

abbreviation (input) OPT_BYTES :: nat where "OPT_BYTES \<equiv> 8"

subsection \<open>k_memset\<close>

text \<open>The byte loop at the start: it stops at an aligned address or when nothing is left.\<close>

fun memset_head :: "memory \<Rightarrow> u64 \<Rightarrow> u8 \<Rightarrow> nat \<Rightarrow> memory \<times> u64 \<times> nat" where
  "memset_head m s c 0 = (m, s, 0)"
| "memset_head m s c (Suc n) =
     (if is_aligned s OPT_BYTES then (m, s, Suc n) else memset_head (m(s := c)) (s + 1) c n)"

text \<open>The unrolled loop of four stores, the single-store loop and the byte loop at the end.\<close>

fun memset_block :: "memory \<Rightarrow> u64 \<Rightarrow> u64 \<Rightarrow> nat \<Rightarrow> memory \<times> u64 \<times> nat" where
  "memset_block m s c2 n =
     (if OPT_BYTES * 4 \<le> n then
        memset_block (store64 (store64 (store64 (store64 m s c2) (s + 8) c2) (s + 16) c2) (s + 24) c2)
          (s + 32) c2 (n - OPT_BYTES * 4)
      else (m, s, n))"

fun memset_word :: "memory \<Rightarrow> u64 \<Rightarrow> u64 \<Rightarrow> nat \<Rightarrow> memory \<times> u64 \<times> nat" where
  "memset_word m s c2 n =
     (if OPT_BYTES \<le> n then memset_word (store64 m s c2) (s + 8) c2 (n - OPT_BYTES) else (m, s, n))"

fun memset_tail :: "memory \<Rightarrow> u64 \<Rightarrow> u8 \<Rightarrow> nat \<Rightarrow> memory" where
  "memset_tail m s c 0 = m"
| "memset_tail m s c (Suc n) = memset_tail (m(s := c)) (s + 1) c n"

definition memset_pattern :: "u32 \<Rightarrow> u64" where
  "memset_pattern c =
     (let c2 = ucast (ucast c :: u8) :: u64;
          c2 = c2 OR push_bit 8 c2;
          c2 = c2 OR push_bit 16 c2
      in c2 OR push_bit 16 (push_bit 16 c2))"

definition k_memset :: "memory \<Rightarrow> u64 \<Rightarrow> u32 \<Rightarrow> u64 \<Rightarrow> u64 \<times> memory" where
  "k_memset m s c n =
     (let (m1, s1, n1) = memset_head m s (ucast c) (unat n);
          (m2, s2, n2) =
            (if is_aligned s1 OPT_BYTES then
               (let (mb, sb, nb) = memset_block m1 s1 (memset_pattern c) n1
                in memset_word mb sb (memset_pattern c) nb)
             else (m1, s1, n1))
      in (s, memset_tail m2 s2 (ucast c) n2))"

subsection \<open>k_memcpy\<close>

fun memcpy_block :: "memory \<Rightarrow> u64 \<Rightarrow> u64 \<Rightarrow> nat \<Rightarrow> memory \<times> u64 \<times> u64 \<times> nat" where
  "memcpy_block m dest src n =
     (if OPT_BYTES * 4 \<le> n then
        (let m = store64 m dest (load64 m src);
             m = store64 m (dest + 8) (load64 m (src + 8));
             m = store64 m (dest + 16) (load64 m (src + 16));
             m = store64 m (dest + 24) (load64 m (src + 24))
         in memcpy_block m (dest + 32) (src + 32) (n - OPT_BYTES * 4))
      else (m, dest, src, n))"

fun memcpy_word :: "memory \<Rightarrow> u64 \<Rightarrow> u64 \<Rightarrow> nat \<Rightarrow> memory \<times> u64 \<times> u64 \<times> nat" where
  "memcpy_word m dest src n =
     (if OPT_BYTES \<le> n then
        memcpy_word (store64 m dest (load64 m src)) (dest + 8) (src + 8) (n - OPT_BYTES)
      else (m, dest, src, n))"

fun memcpy_tail :: "memory \<Rightarrow> u64 \<Rightarrow> u64 \<Rightarrow> nat \<Rightarrow> memory" where
  "memcpy_tail m dest src 0 = m"
| "memcpy_tail m dest src (Suc n) = memcpy_tail (m(dest := m src)) (dest + 1) (src + 1) n"

definition k_memcpy :: "memory \<Rightarrow> u64 \<Rightarrow> u64 \<Rightarrow> u64 \<Rightarrow> u64 \<times> memory" where
  "k_memcpy m dest src n =
     (let (m1, d1, s1, n1) =
            (if is_aligned dest OPT_BYTES \<and> is_aligned src OPT_BYTES then
               (let (mb, db, sb, nb) = memcpy_block m dest src (unat n)
                in memcpy_word mb db sb nb)
             else (m, dest, src, unat n))
      in (dest, memcpy_tail m1 d1 s1 n1))"

subsection \<open>String length and comparison\<close>

definition cread :: "string \<Rightarrow> int" where
  "cread s = (case s of [] \<Rightarrow> 0 | c # _ \<Rightarrow> of_char c)"

function k_strlen :: "string \<Rightarrow> nat" where
  "k_strlen s = (if cread s \<noteq> 0 then Suc (k_strlen (tl s)) else 0)"
  by pat_completeness auto
termination
  by (relation "measure length") (auto simp: cread_def split: list.splits)

function k_strcmp :: "string \<Rightarrow> string \<Rightarrow> int" where
  "k_strcmp s1 s2 =
     (if cread s1 \<noteq> 0 \<and> cread s1 = cread s2 then k_strcmp (tl s1) (tl s2)
      else cread s1 - cread s2)"
  by pat_completeness auto
termination
  by (relation "measure (\<lambda>(s1, s2). length s1)") (auto simp: cread_def split: list.splits)

fun k_strncmp :: "string \<Rightarrow> string \<Rightarrow> nat \<Rightarrow> int" where
  "k_strncmp s1 s2 0 = cread s1 - cread s2"
| "k_strncmp s1 s2 (Suc n) =
     (if cread s1 = cread s2 then
        (if cread s1 = 0 then cread s1 - cread s2 else k_strncmp (tl s1) (tl s2) n)
      else cread s1 - cread s2)"

definition k_isupper :: "int \<Rightarrow> bool" where
  "k_isupper c \<longleftrightarrow> 65 \<le> c \<and> c \<le> 90"

definition k_tolower :: "int \<Rightarrow> int" where
  "k_tolower c = (if k_isupper c then c - 65 + 97 else c)"

function k_strcasecmp :: "string \<Rightarrow> string \<Rightarrow> int" where
  "k_strcasecmp s1 s2 =
     (let c1 = k_tolower (cread s1); c2 = k_tolower (cread s2); d = c1 - c2
      in if c1 = 0 \<or> d \<noteq> 0 then d else k_strcasecmp (tl s1) (tl s2))"
  by pat_completeness auto
termination
  by (relation "measure (\<lambda>(s1, s2). length s1)")
    (auto simp: cread_def k_tolower_def k_isupper_def split: list.splits)

text \<open>The counted variant keeps the last difference in \<open>d\<close>, which starts at 0.\<close>

fun strncasecmp_loop :: "string \<Rightarrow> string \<Rightarrow> nat \<Rightarrow> int \<Rightarrow> int" where
  "strncasecmp_loop s1 s2 0 d = d"
| "strncasecmp_loop s1 s2 (Suc n) d =
     (let c1 = k_tolower (cread s1); c2 = k_tolower (cread s2); d = c1 - c2
      in if c1 = 0 \<or> d \<noteq> 0 then d else strncasecmp_loop (tl s1) (tl s2) n d)"

definition k_strncasecmp :: "string \<Rightarrow> string \<Rightarrow> nat \<Rightarrow> int" where
  "k_strncasecmp s1 s2 n = strncasecmp_loop s1 s2 n 0"

subsection \<open>Reference definitions\<close>

text \<open>The byte fill and the byte copy; a loop of the code has done \<open>k\<close> of the \<open>n\<close> bytes.\<close>

definition fill :: "memory \<Rightarrow> u64 \<Rightarrow> nat \<Rightarrow> u8 \<Rightarrow> memory" where
  "fill m s n c = (\<lambda>a. if unat (a - s) < n then c else m a)"

definition fills :: "memory \<Rightarrow> u64 \<Rightarrow> u8 \<Rightarrow> nat \<Rightarrow> memory \<times> u64 \<times> nat \<Rightarrow> bool" where
  "fills m s c n r \<longleftrightarrow> (\<exists>k \<le> n. r = (fill m s k c, s + of_nat k, n - k))"

definition copy :: "memory \<Rightarrow> u64 \<Rightarrow> u64 \<Rightarrow> nat \<Rightarrow> memory" where
  "copy m d s n = (\<lambda>a. if unat (a - d) < n then m (s + (a - d)) else m a)"

definition copies :: "memory \<Rightarrow> u64 \<Rightarrow> u64 \<Rightarrow> nat \<Rightarrow> memory \<times> u64 \<times> u64 \<times> nat \<Rightarrow> bool" where
  "copies m d s n r \<longleftrightarrow> (\<exists>k \<le> n. r = (copy m d s k, d + of_nat k, s + of_nat k, n - k))"

text \<open>A C string has no terminator inside; \<open>lower\<close> is the string the comparisons without case see.\<close>

definition cstring :: "string \<Rightarrow> bool" where
  "cstring s \<longleftrightarrow> (\<forall>c \<in> set s. (of_char c :: int) \<noteq> 0)"

definition byte_less :: "(char \<times> char) set" where
  "byte_less = {(x, y). (of_char x :: int) < of_char y}"

abbreviation lower :: "string \<Rightarrow> int list" where
  "lower s \<equiv> map (\<lambda>c. k_tolower (of_char c)) s"

declare memset_block.simps [simp del] memset_word.simps [simp del]
declare memcpy_block.simps [simp del] memcpy_word.simps [simp del]
declare k_strlen.simps [simp del] k_strcmp.simps [simp del] k_strcasecmp.simps [simp del]

subsection \<open>k_memset fills\<close>

lemma fill_0 [simp]: "fill m s 0 c = m"
  by (simp add: fill_def)

lemma fill_1: "m(s := c) = fill m s (Suc 0) c"
  by (auto simp: fill_def fun_eq_iff unat_eq_0)

lemma fill_fill:
  assumes "k + j \<le> 2 ^ 64"
  shows "fill (fill m s k c) (s + of_nat k) j c = fill m s (k + j) c"
proof (cases "k < 2 ^ 64")
  case True
  show ?thesis
  proof
    fix a :: u64
    have "unat (a - s) < 2 ^ 64" using unsigned_less[of "a - s"] by simp
    with True assms show "fill (fill m s k c) (s + of_nat k) j c a = fill m s (k + j) c a"
      by (auto simp: fill_def unat_minus_offset)
  qed
next
  case False
  with assms have "j = 0" by simp
  then show ?thesis by simp
qed

lemma bit_double:
  fixes x :: u64 and c :: u32
  assumes x: "\<And>n. bit x n \<longleftrightarrow> n < w \<and> bit c (n mod 8)" and w: "8 dvd w" "2 * w \<le> 64"
  shows "bit (x OR push_bit w x) n \<longleftrightarrow> n < 2 * w \<and> bit c (n mod 8)"
proof -
  have "w \<le> n \<Longrightarrow> (n - w) mod 8 = n mod 8"
    using w(1) by (auto elim!: dvdE simp: le_iff_add)
  then show ?thesis
    using w(2) by (auto simp: bit_or_iff bit_push_bit_iff x)
qed

lemma bit_memset_pattern: "bit (memset_pattern c) n \<longleftrightarrow> n < 64 \<and> bit c (n mod 8)"
proof -
  let ?x0 = "ucast (ucast c :: u8) :: u64"
  let ?x1 = "?x0 OR push_bit 8 ?x0"
  let ?x2 = "?x1 OR push_bit 16 ?x1"
  have x0: "bit ?x0 n \<longleftrightarrow> n < 8 \<and> bit c (n mod 8)" for n
    by (auto simp: bit_simps)
  have x1: "bit ?x1 n \<longleftrightarrow> n < 16 \<and> bit c (n mod 8)" for n
    using bit_double [of ?x0 8 c n] x0 by simp
  have x2: "bit ?x2 n \<longleftrightarrow> n < 32 \<and> bit c (n mod 8)" for n
    using bit_double [of ?x1 16 c n] x1 by simp
  show ?thesis
    using bit_double [of ?x2 32 c n] x2 by (simp add: memset_pattern_def Let_def push_bit_push_bit)
qed

lemma memset_pattern_byte:
  assumes "i < 8"
  shows "(ucast (drop_bit (8 * i) (memset_pattern c)) :: u8) = ucast c"
  using assms by (auto intro!: bit_eqI simp: bit_simps bit_memset_pattern)
lemma store64_pattern: "store64 m s (memset_pattern c) = fill m s 8 (ucast c)"
  by (auto simp: store64_def fill_def fun_eq_iff Let_def memset_pattern_byte)

lemma fills_refl [intro]: "fills m s c n (m, s, n)"
  by (auto simp: fills_def intro: exI [of _ 0])

lemma fills_step:
  assumes "fills (fill m s j c) (s + of_nat j) c (n - j) r" "j \<le> n" "n \<le> 2 ^ 64"
  shows "fills m s c n r"
proof -
  from assms(1) obtain k where "k \<le> n - j"
    "r = (fill (fill m s j c) (s + of_nat j) k c, s + of_nat j + of_nat k, n - j - k)"
    by (auto simp: fills_def)
  with assms(2,3) fill_fill [of j k m s c] show ?thesis
    by (auto simp: fills_def add.assoc intro!: exI [of _ "j + k"])
qed

lemma fills_trans:
  assumes "fills m s c n (m1, s1, n1)" "fills m1 s1 c n1 r" "n \<le> 2 ^ 64"
  shows "fills m s c n r"
  using assms by (auto simp: fills_def intro: fills_step [unfolded fills_def])

lemma memset_head_fills: "n \<le> 2 ^ 64 \<Longrightarrow> fills m s c n (memset_head m s c n)"
proof (induction n arbitrary: m s)
  case (Suc n)
  from Suc.IH [of "m(s := c)" "s + 1"] Suc.prems
  have "fills (fill m s 1 c) (s + of_nat 1) c (Suc n - 1) (memset_head (m(s := c)) (s + 1) c n)"
    by (simp add: fill_1)
  from fills_step [OF this] Suc.prems show ?case
    by (auto simp del: fun_upd_apply)
qed auto

lemma memset_word_fills:
  "n \<le> 2 ^ 64 \<Longrightarrow> fills m s (ucast c) n (memset_word m s (memset_pattern c) n)"
proof (induction n arbitrary: m s rule: less_induct)
  case (less n)
  then show ?case
    using fills_step [of m s 8 "ucast c" n]
    by (auto simp: memset_word.simps [of m s _ n] store64_pattern)
qed

lemma store64_pattern4:
  "store64 (store64 (store64 (store64 m s (memset_pattern c)) (s + 8) (memset_pattern c))
     (s + 16) (memset_pattern c)) (s + 24) (memset_pattern c) = fill m s 32 (ucast c)"
  using fill_fill [of 8 8 m s "ucast c"] fill_fill [of 16 8 m s "ucast c"]
    fill_fill [of 24 8 m s "ucast c"]
  by (simp add: store64_pattern)

lemma memset_block_fills:
  "n \<le> 2 ^ 64 \<Longrightarrow> fills m s (ucast c) n (memset_block m s (memset_pattern c) n)"
proof (induction n arbitrary: m s rule: less_induct)
  case (less n)
  then show ?case
    using fills_step [of m s 32 "ucast c" n]
    by (auto simp: memset_block.simps [of m s _ n] store64_pattern4)
qed

lemma memset_tail_fill: "n \<le> 2 ^ 64 \<Longrightarrow> memset_tail m s c n = fill m s n c"
proof (induction n arbitrary: m s)
  case (Suc n)
  with fill_fill [of 1 n m s c] show ?case by (simp add: fill_1)
qed simp

lemma fills_tail:
  "fills m s c n (m1, s1, n1) \<Longrightarrow> n \<le> 2 ^ 64 \<Longrightarrow> memset_tail m1 s1 c n1 = fill m s n c"
  by (auto simp: fills_def memset_tail_fill fill_fill)

lemma k_memset_spec:
  "k_memset m s c n = (s, \<lambda>a. if unat (a - s) < unat n then ucast c else m a)"
proof -
  obtain m1 s1 n1 where h: "memset_head m s (ucast c) (unat n) = (m1, s1, n1)"
    by (metis prod_cases3)
  obtain m2 s2 n2 where b: "memset_block m1 s1 (memset_pattern c) n1 = (m2, s2, n2)"
    by (metis prod_cases3)
  obtain m3 s3 n3 where w: "memset_word m2 s2 (memset_pattern c) n2 = (m3, s3, n3)"
    by (metis prod_cases3)
  have f1: "fills m s (ucast c) (unat n) (m1, s1, n1)"
    using memset_head_fills [of "unat n" m s "ucast c"] unat_u64_le h by simp
  then have n1: "n1 \<le> 2 ^ 64"
    using unat_u64_le [of n] by (auto simp: fills_def)
  then have f2: "fills m1 s1 (ucast c) n1 (m2, s2, n2)"
    using memset_block_fills [of n1 m1 s1 c] b by simp
  then have "n2 \<le> 2 ^ 64" using n1 by (auto simp: fills_def)
  then have "fills m2 s2 (ucast c) n2 (m3, s3, n3)"
    using memset_word_fills [of n2 m2 s2 c] w by simp
  with f1 f2 n1 have f3: "fills m s (ucast c) (unat n) (m3, s3, n3)"
    using unat_u64_le by (blast intro: fills_trans)
  have "k_memset m s c n = (s, fill m s (unat n) (ucast c))"
    using fills_tail [OF f1 unat_u64_le] fills_tail [OF f3 unat_u64_le]
    by (simp add: k_memset_def h b w)
  then show ?thesis
    by (simp add: fill_def)
qed

text \<open>
  C3. \<open>k_memset\<close> with its alignment loop, its unrolled word loops and its tail is the plain byte
  fill: it returns \<open>s\<close>, the \<open>n\<close> bytes from \<open>s\<close> on become the low byte of \<open>c\<close>, whatever the
  alignment and the length, and no other byte of memory changes.
\<close>

theorem k_memset_fills:
  "k_memset m s c n = (s, \<lambda>a. if unat (a - s) < unat n then ucast c else m a)"
  by (rule k_memset_spec)

subsection \<open>k_memcpy copies\<close>

lemma copy_0 [simp]: "copy m d s 0 = m"
  by (simp add: copy_def)

lemma copy_1: "m(d := m s) = copy m d s (Suc 0)"
  by (auto simp: copy_def fun_eq_iff unat_eq_0)

lemma copy_copy:
  fixes d s :: u64
  assumes "j + k \<le> unat (d - s)"
  shows "copy (copy m d s j) (d + of_nat j) (s + of_nat j) k = copy m d s (j + k)"
proof
  fix a :: u64
  have lt: "unat (d - s) < 2 ^ 64" "unat (a - d) < 2 ^ 64"
    using unsigned_less [of "d - s", where 'a = nat] unsigned_less [of "a - d", where 'a = nat]
    by simp_all
  with assms have j: "j < 2 ^ LENGTH(64)" by simp
  have src: "s + of_nat j + (a - (d + of_nat j)) = s + (a - d)"
    by simp
  have rev: "s + (a - d) - d = (a - d) - (d - s)"
    by simp
  have "\<not> unat (s + (a - d) - d) < j" if "j \<le> unat (a - d)" "unat (a - d) < j + k"
    using that assms lt unat_sub_if_size [of "a - d" "d - s"] unfolding rev
    by (simp add: word_size)
  with lt assms show "copy (copy m d s j) (d + of_nat j) (s + of_nat j) k a = copy m d s (j + k) a"
    unfolding copy_def src unat_minus_offset [OF j] by auto
qed

lemma copies_refl [intro]: "copies m d s n (m, d, s, n)"
  by (auto simp: copies_def intro: exI [of _ 0])

lemma copies_step:
  assumes "copies (copy m d s j) (d + of_nat j) (s + of_nat j) (n - j) r"
    and "j \<le> n" "n \<le> unat (d - s)"
  shows "copies m d s n r"
proof -
  from assms(1) obtain k where "k \<le> n - j"
    "r = (copy (copy m d s j) (d + of_nat j) (s + of_nat j) k,
          d + of_nat j + of_nat k, s + of_nat j + of_nat k, n - j - k)"
    by (auto simp: copies_def)
  with assms(2,3) copy_copy [of j k d s m] show ?thesis
    by (auto simp: copies_def add.assoc intro!: exI [of _ "j + k"])
qed

lemma copies_trans:
  assumes "copies m d s n (m1, d1, s1, n1)" "copies m1 d1 s1 n1 r" "n \<le> unat (d - s)"
  shows "copies m d s n r"
  using assms by (auto simp: copies_def intro: copies_step [unfolded copies_def])

lemma bit_foldr_bytes:
  fixes f :: "'i \<Rightarrow> u8"
  shows "8 * length xs \<le> 64 \<Longrightarrow>
    bit (foldr (\<lambda>i v. push_bit 8 v OR ucast (f i)) xs 0 :: u64) n \<longleftrightarrow>
      n < 8 * length xs \<and> bit (f (xs ! (n div 8))) (n mod 8)"
proof (induction xs arbitrary: n)
  case (Cons x xs)
  let ?v = "foldr (\<lambda>i v. push_bit 8 v OR ucast (f i)) xs 0 :: u64"
  have or: "bit (push_bit 8 ?v OR ucast (f x)) n \<longleftrightarrow>
      8 \<le> n \<and> n < 64 \<and> bit ?v (n - 8) \<or> bit (f x) n"
    by (auto simp: bit_or_iff bit_push_bit_iff bit_unsigned_iff dest: bit_imp_le_length)
  show ?case
  proof (cases "n < 8")
    case True
    then show ?thesis using or by simp
  next
    case False
    then obtain k where n: "n = 8 + k" by (metis le_Suc_ex not_less)
    have "\<not> bit (f x) n" using False bit_imp_le_length [of "f x" n] by auto
    moreover have "(8 + k) div 8 = Suc (k div 8)" by simp
    ultimately show ?thesis using or n Cons.IH [of k] Cons.prems by auto
  qed
qed simp

lemma bit_load64:
  assumes "i < 8" "n < 8"
  shows "bit (load64 m p) (8 * i + n) \<longleftrightarrow> bit (m (p + of_nat i)) n"
proof -
  have "[0..<8] ! i = i" using nth_upt [of 0 i 8] assms(1) by linarith
  moreover have "(8 * i + n) div 8 = i" "(8 * i + n) mod 8 = n" "8 * i + n < 64"
    using assms by auto
  ultimately show ?thesis
    using bit_foldr_bytes [of "[0..<8]" "\<lambda>i. m (p + of_nat i)" "8 * i + n"]
    unfolding load64_def by (simp only: length_upt) simp
qed

lemma load64_byte:
  "i < 8 \<Longrightarrow> (ucast (drop_bit (8 * i) (load64 m p)) :: u8) = m (p + of_nat i)"
  by (rule bit_word_eqI) (simp add: bit_unsigned_iff bit_drop_bit_eq bit_load64)

lemma store64_load64: "store64 m d (load64 m s) = copy m d s 8"
  by (auto simp: store64_def copy_def Let_def load64_byte)

lemma memcpy_word_copies:
  "n \<le> unat (d - s) \<Longrightarrow> copies m d s n (memcpy_word m d s n)"
proof (induction n arbitrary: m d s rule: less_induct)
  case (less n)
  show ?case
  proof (cases "8 \<le> n")
    case True
    then have "copies (copy m d s 8) (d + of_nat 8) (s + of_nat 8) (n - 8)
      (memcpy_word (copy m d s 8) (d + of_nat 8) (s + of_nat 8) (n - 8))"
      using less by (intro less.IH) auto
    from copies_step [OF this True less.prems] True show ?thesis
      by (simp add: memcpy_word.simps [of m] store64_load64)
  qed (simp add: memcpy_word.simps copies_refl)
qed

lemma store64_load64_4:
  assumes "32 \<le> unat (d - s)"
  shows "(let m = store64 m d (load64 m s);
             m = store64 m (d + 8) (load64 m (s + 8));
             m = store64 m (d + 16) (load64 m (s + 16));
             m = store64 m (d + 24) (load64 m (s + 24))
         in m) = copy m d s 32"
  using copy_copy [of 8 8 d s m] copy_copy [of 16 8 d s m] copy_copy [of 24 8 d s m] assms
  by (simp add: store64_load64)

lemma memcpy_block_copies:
  "n \<le> unat (d - s) \<Longrightarrow> copies m d s n (memcpy_block m d s n)"
proof (induction n arbitrary: m d s rule: less_induct)
  case (less n)
  show ?case
  proof (cases "32 \<le> n")
    case True
    then have "copies (copy m d s 32) (d + of_nat 32) (s + of_nat 32) (n - 32)
      (memcpy_block (copy m d s 32) (d + of_nat 32) (s + of_nat 32) (n - 32))"
      using less by (intro less.IH) auto
    from copies_step [OF this True less.prems] True store64_load64_4 [of d s m] less.prems
    show ?thesis
      by (simp add: memcpy_block.simps [of m] Let_def)
  qed (simp add: memcpy_block.simps copies_refl)
qed

lemma memcpy_tail_copy: "n \<le> unat (d - s) \<Longrightarrow> memcpy_tail m d s n = copy m d s n"
proof (induction n arbitrary: m d s)
  case (Suc n)
  with copy_copy [of 1 n d s m] show ?case by (simp add: copy_1)
qed simp

lemma copies_tail:
  "copies m d s n (m1, d1, s1, n1) \<Longrightarrow> n \<le> unat (d - s) \<Longrightarrow>
   memcpy_tail m1 d1 s1 n1 = copy m d s n"
  by (auto simp: copies_def memcpy_tail_copy copy_copy)

lemma k_memcpy_spec:
  assumes "unat n \<le> unat (dest - src)"
  shows "k_memcpy m dest src n =
    (dest, \<lambda>a. if unat (a - dest) < unat n then m (src + (a - dest)) else m a)"
proof -
  obtain m1 d1 s1 n1 where b: "memcpy_block m dest src (unat n) = (m1, d1, s1, n1)"
    by (metis prod_cases4)
  obtain m2 d2 s2 n2 where w: "memcpy_word m1 d1 s1 n1 = (m2, d2, s2, n2)"
    by (metis prod_cases4)
  have f1: "copies m dest src (unat n) (m1, d1, s1, n1)"
    using memcpy_block_copies [OF assms, of m] b by simp
  then have n1: "n1 \<le> unat (d1 - s1)"
    using assms by (auto simp: copies_def)
  have f2: "copies m dest src (unat n) (m2, d2, s2, n2)"
    using memcpy_word_copies [OF n1, of m1] w copies_trans [OF f1 _ assms] by simp
  have "k_memcpy m dest src n = (dest, copy m dest src (unat n))"
    using copies_tail [OF f2 assms] memcpy_tail_copy [OF assms]
    by (simp add: k_memcpy_def b w)
  then show ?thesis
    by (simp add: copy_def)
qed

text \<open>
  C4. \<open>k_memcpy\<close> with its word loops is the plain byte copy whenever the destination does not
  start inside the source range: destination byte \<open>i\<close> becomes the old source byte \<open>i\<close> and no other
  byte changes.  This covers every call with disjoint ranges, and moves to lower addresses.
\<close>

theorem k_memcpy_copies:
  assumes "unat n \<le> unat (dest - src)"
  shows "k_memcpy m dest src n =
    (dest, \<lambda>a. if unat (a - dest) < unat n then m (src + (a - dest)) else m a)"
  by (rule k_memcpy_spec [OF assms])

theorem k_memcpy_copies_witness:
  "k_memcpy ucast 64 0 40 =
    (64, \<lambda>a. if unat (a - 64) < unat (40 :: u64) then ucast (0 + (a - 64)) else ucast a)"
  by (rule k_memcpy_copies) simp

subsection \<open>Comparisons\<close>

lemma of_char_int_nonneg [simp]: "0 \<le> (of_char c :: int)"
  by (simp add: of_char_def)

lemma cread_simps [simp]: "cread [] = 0" "cread (c # s) = of_char c"
  by (simp_all add: cread_def)

lemma cstring_simps [simp]:
  "cstring []" "cstring (c # s) \<longleftrightarrow> (of_char c :: int) \<noteq> 0 \<and> cstring s"
  by (auto simp: cstring_def)

lemma k_strlen_simps [simp]:
  "k_strlen [] = 0"
  "k_strlen (c # s) = (if (of_char c :: int) = 0 then 0 else Suc (k_strlen s))"
  by (subst k_strlen.simps, simp)+

lemma k_strlen_length: "cstring s \<Longrightarrow> k_strlen s = length s"
  by (induction s) simp_all

lemma cread_pos: "cstring s \<Longrightarrow> s \<noteq> [] \<Longrightarrow> 0 < cread s"
  by (cases s) (auto simp: less_le)

lemma k_strcmp_simps [simp]:
  "k_strcmp [] s = - cread s"
  "cstring (c # s) \<Longrightarrow> k_strcmp (c # s) [] = of_char c"
  "cstring (c # s) \<Longrightarrow> k_strcmp (c # s) (d # t) = (if c = d then k_strcmp s t else of_char c - of_char d)"
  by (subst k_strcmp.simps, simp)+

lemma k_strcmp_zero: "cstring s1 \<Longrightarrow> cstring s2 \<Longrightarrow> k_strcmp s1 s2 = 0 \<longleftrightarrow> s1 = s2"
proof (induction s1 arbitrary: s2)
  case Nil
  then show ?case by (cases s2) auto
next
  case (Cons c s1)
  then show ?case by (cases s2) auto
qed

lemma k_strcmp_less:
  "cstring s1 \<Longrightarrow> cstring s2 \<Longrightarrow> k_strcmp s1 s2 < 0 \<longleftrightarrow> (s1, s2) \<in> lexord byte_less"
proof (induction s1 arbitrary: s2)
  case Nil
  then show ?case by (cases s2) (auto simp: less_le)
next
  case (Cons c s1)
  then show ?case by (cases s2) (auto simp: byte_less_def not_less)
qed

text \<open>
  On C strings \<open>k_strcmp\<close> is the lexicographic order of the unsigned bytes: the result is 0
  exactly for equal strings and negative exactly when the first string comes first.
\<close>

theorem k_strcmp_order:
  assumes "cstring s1" "cstring s2"
  shows "(k_strcmp s1 s2 = 0 \<longleftrightarrow> s1 = s2) \<and> (k_strcmp s1 s2 < 0 \<longleftrightarrow> (s1, s2) \<in> lexord byte_less)"
  using assms k_strcmp_zero k_strcmp_less by blast

theorem k_strcmp_order_witness:
  "(k_strcmp ''ab'' ''b'' = 0 \<longleftrightarrow> ''ab'' = ''b'') \<and>
   (k_strcmp ''ab'' ''b'' < 0 \<longleftrightarrow> (''ab'', ''b'') \<in> lexord byte_less)"
  by (rule k_strcmp_order) simp_all

lemma k_strncmp_simps [simp]:
  "cstring s \<Longrightarrow> k_strncmp [] s n = - cread s"
  "cstring (c # s) \<Longrightarrow> k_strncmp (c # s) [] n = of_char c"
  by (cases n; cases s; simp)+

text \<open>
  \<open>k_strncmp\<close> looks at one character more than \<open>n\<close>: the result is 0 exactly when the first
  \<open>n + 1\<close> characters agree, so strings that agree on their first \<open>n\<close> characters only compare
  as different.
\<close>

theorem k_strncmp_prefix:
  assumes "cstring s1" "cstring s2"
  shows "k_strncmp s1 s2 n = 0 \<longleftrightarrow> take (Suc n) s1 = take (Suc n) s2"
  using assms
proof (induction s1 s2 n rule: k_strncmp.induct)
  case (1 s1 s2)
  then show ?case by (cases s1; cases s2; auto)
next
  case (2 s1 s2 n)
  then show ?case by (cases s1; cases s2; auto)
qed

theorem k_strncmp_prefix_witness:
  "k_strncmp ''ab'' ''ac'' 1 = 0 \<longleftrightarrow> take (Suc 1) ''ab'' = take (Suc 1) ''ac''"
  by (rule k_strncmp_prefix) simp_all

lemma k_tolower_zero [simp]: "k_tolower 0 = 0" "0 \<le> c \<Longrightarrow> k_tolower c = 0 \<longleftrightarrow> c = 0"
  by (auto simp: k_tolower_def k_isupper_def)

lemma cread_nonneg [simp]: "0 \<le> cread s"
  by (cases s) auto

lemma k_strcasecmp_simps [simp]:
  "k_strcasecmp [] s = - k_tolower (cread s)"
  "cstring (c # s) \<Longrightarrow> k_strcasecmp (c # s) [] = k_tolower (of_char c)"
  "cstring (c # s) \<Longrightarrow> k_strcasecmp (c # s) (d # t) =
     (if k_tolower (of_char c) = k_tolower (of_char d) then k_strcasecmp s t
      else k_tolower (of_char c) - k_tolower (of_char d))"
  by (subst k_strcasecmp.simps, simp add: Let_def)+

lemma k_strcasecmp_zero:
  "cstring s1 \<Longrightarrow> cstring s2 \<Longrightarrow> k_strcasecmp s1 s2 = 0 \<longleftrightarrow> lower s1 = lower s2"
proof (induction s1 arbitrary: s2)
  case Nil
  then show ?case by (cases s2) auto
next
  case (Cons c s1)
  then show ?case by (cases s2) auto
qed

lemma strncasecmp_loop_zero:
  "cstring s1 \<Longrightarrow> cstring s2 \<Longrightarrow>
   strncasecmp_loop s1 s2 n 0 = 0 \<longleftrightarrow> take n (lower s1) = take n (lower s2)"
proof (induction n arbitrary: s1 s2)
  case (Suc n)
  then show ?case by (cases s1; cases s2) (auto simp: Let_def)
qed simp

text \<open>
  The comparisons without case are 0 exactly when the lower-case strings agree: as a whole
  for \<open>k_strcasecmp\<close>, on the first \<open>n\<close> characters for \<open>k_strncasecmp\<close>.
\<close>

theorem k_casecmp_lower:
  assumes "cstring s1" "cstring s2"
  shows "(k_strcasecmp s1 s2 = 0 \<longleftrightarrow> lower s1 = lower s2) \<and>
    (k_strncasecmp s1 s2 n = 0 \<longleftrightarrow> take n (lower s1) = take n (lower s2))"
  using assms by (simp add: k_strcasecmp_zero k_strncasecmp_def strncasecmp_loop_zero)

theorem k_casecmp_lower_witness:
  "(k_strcasecmp ''UART'' ''uart'' = 0 \<longleftrightarrow> lower ''UART'' = lower ''uart'') \<and>
   (k_strncasecmp ''UART'' ''uart'' 2 = 0 \<longleftrightarrow> take 2 (lower ''UART'') = take 2 (lower ''uart''))"
  by (rule k_casecmp_lower) simp_all

end
