(* ===== verification/Memory.thy ===== *)
theory Memory
  imports Lock Kstring
begin

section \<open>Page allocator\<close>

text \<open>
  \<^verbatim>\<open>sys/memory.c\<close> and \<^verbatim>\<open>include/bmetal/memory.h\<close>: the page flags of a memory node, their
  allocation, check and release, and the initialisation that reserves the brk area.  A node is
  the record \<open>k_mem_node\<close>; its flags are the list \<open>stat_page\<close>, one byte a page.  An access outside
  the flag array has no defined result in C: it is the value \<open>None\<close>, as is waiting for a lock that
  is never released.  \<open>size_t\<close> page numbers are natural numbers below \<open>page_total\<close>, the byte
  computations that can wrap around are 64-bit words.  The node pointer is never NULL here
  (every caller passes the address of \<open>node_head\<close>), so that test has no counterpart.  Log output
  is left out.
\<close>

record k_mem_node =
  mn_lock :: k_spinlock
  paddr :: u64
  vaddr :: u64
  mn_size :: u64
  page_total :: u64
  page_use :: u64
  stat_page :: "u8 list"

text \<open>The file-scope variables of memory.c.\<close>

record mem_state =
  node_head :: k_mem_node
  dbg_heap_num :: u32
  lock_brk :: k_spinlock
  brk_top :: u64
  brk_cur :: u64

subsection \<open>Operations on a node\<close>

definition k_mem_node_get_pagesize :: "k_mem_node \<Rightarrow> u64" where
  "k_mem_node_get_pagesize m = 4096"

definition k_mem_node_get_page_stat :: "k_mem_node \<Rightarrow> nat \<Rightarrow> u8 option" where
  "k_mem_node_get_page_stat m i = (if i < length (stat_page m) then Some (stat_page m ! i) else None)"

definition set_page_stat :: "k_mem_node \<Rightarrow> nat \<Rightarrow> u8 \<Rightarrow> k_mem_node option" where
  "set_page_stat m i v =
     (if i < length (stat_page m) then Some (m\<lparr>stat_page := (stat_page m)[i := v]\<rparr>) else None)"

text \<open>The loop of \<open>k_mem_node_count_cont_pages\<close> from page \<open>i\<close> with the counter at \<open>r\<close>.\<close>

function count_cont_loop :: "k_mem_node \<Rightarrow> nat \<Rightarrow> nat \<Rightarrow> nat \<Rightarrow> nat option" where
  "count_cont_loop m i r lim_page =
     (if i < unat (page_total m) then do {
        b \<leftarrow> k_mem_node_get_page_stat m i;
        if b \<noteq> 0 \<or> lim_page \<le> r then Some r else count_cont_loop m (i + 1) (r + 1) lim_page
      } else Some r)"
  by pat_completeness auto
termination
  by (relation "measure (\<lambda>(m, i, r, lim). unat (page_total m) - i)") auto

definition k_mem_node_count_cont_pages :: "k_mem_node \<Rightarrow> nat \<Rightarrow> nat \<Rightarrow> nat option" where
  "k_mem_node_count_cont_pages m off_page lim_page = count_cont_loop m off_page 1 lim_page"

fun k_mem_node_set_page_flag :: "k_mem_node \<Rightarrow> nat \<Rightarrow> nat \<Rightarrow> u8 \<Rightarrow> k_mem_node option" where
  "k_mem_node_set_page_flag m off_page 0 val = Some m"
| "k_mem_node_set_page_flag m off_page (Suc n_page) val = do {
     m \<leftarrow> set_page_stat m off_page val;
     k_mem_node_set_page_flag m (Suc off_page) n_page val
   }"

declare count_cont_loop.simps [simp del]

lemma count_cont_loop_ge: "count_cont_loop m i r lim = Some c \<Longrightarrow> r \<le> c"
proof (induction m i r lim rule: count_cont_loop.induct)
  case (1 m i r lim)
  then show ?case
    by (fastforce simp: count_cont_loop.simps [of m i r lim] split: if_splits Option.bind_splits)
qed

text \<open>The search loop of \<open>k_mem_node_alloc_pages_nolock\<close>: the first page of the area, if any.\<close>

function alloc_scan :: "k_mem_node \<Rightarrow> nat \<Rightarrow> nat \<Rightarrow> nat option option" where
  "alloc_scan m req_page i =
     (if i < unat (page_total m) then do {
        b \<leftarrow> k_mem_node_get_page_stat m i;
        if b \<noteq> 0 then alloc_scan m req_page (i + 1)
        else do {
          cnt_page \<leftarrow> k_mem_node_count_cont_pages m i req_page;
          if req_page \<le> cnt_page then Some (Some i) else alloc_scan m req_page (i + cnt_page)
        }
      } else Some None)"
  by pat_completeness auto
termination
  by (relation "measure (\<lambda>(m, req, i). unat (page_total m) - i)")
    (auto simp: k_mem_node_count_cont_pages_def dest!: count_cont_loop_ge)

definition k_mem_node_alloc_pages_nolock ::
    "k_mem_node \<Rightarrow> u32 \<Rightarrow> u64 \<Rightarrow> (int \<times> k_mem_node \<times> u32) option" where
  "k_mem_node_alloc_pages_nolock m dbg len =
     (if len = 0 then Some (- EINVAL, m, dbg)
      else
        let pgsize = k_mem_node_get_pagesize m;
            req_page = (len + pgsize - 1) div pgsize
        in if req_page > page_total m - page_use m then Some (- ENOMEM, m, dbg)
        else do {
          found \<leftarrow> alloc_scan m (unat req_page) 0;
          case found of
            None \<Rightarrow> Some (- 1, m, dbg)
          | Some i \<Rightarrow> do {
              m \<leftarrow> k_mem_node_set_page_flag m i (unat req_page) (ucast dbg);
              let m = m\<lparr>page_use := page_use m + req_page\<rparr>;
                  dbg = dbg + 1;
                  dbg = (if dbg AND 0xff = 0 then dbg + 1 else dbg)
              in Some (int i, m, dbg)
            }
        })"

text \<open>The pages of a range are all allocated; every flag of the range is read.\<close>

fun pages_allocated :: "k_mem_node \<Rightarrow> nat \<Rightarrow> nat \<Rightarrow> bool option" where
  "pages_allocated m i 0 = Some True"
| "pages_allocated m i (Suc n) = do {
     b \<leftarrow> k_mem_node_get_page_stat m i;
     rest \<leftarrow> pages_allocated m (Suc i) n;
     Some (b \<noteq> 0 \<and> rest)
   }"

definition out_of_node :: "k_mem_node \<Rightarrow> u64 \<Rightarrow> bool" where
  "out_of_node m start \<longleftrightarrow> start < vaddr m \<or> vaddr m + mn_size m \<le> start"

definition page_range :: "k_mem_node \<Rightarrow> u64 \<Rightarrow> u64 \<Rightarrow> u64 \<times> u64" where
  "page_range m start len =
     (let pgsize = k_mem_node_get_pagesize m;
          off_addr = start - vaddr m;
          off_page = off_addr div pgsize;
          n_page = len div pgsize;
          n_page = (if off_addr AND (pgsize - 1) \<noteq> 0 then n_page + 1 else n_page)
      in (off_page, n_page))"

definition k_mem_node_check_pages_nolock :: "k_mem_node \<Rightarrow> u64 \<Rightarrow> u64 \<Rightarrow> int option" where
  "k_mem_node_check_pages_nolock m start len =
     (if len = 0 then Some (- EINVAL)
      else if out_of_node m start then Some (- EINVAL)
      else let (off_page, n_page) = page_range m start len
      in do {
        ok \<leftarrow> pages_allocated m (unat off_page) (unat n_page);
        Some (if ok then 0 else - EBADF)
      })"

definition k_mem_node_free_pages_nolock ::
    "k_mem_node \<Rightarrow> u64 \<Rightarrow> u64 \<Rightarrow> (int \<times> k_mem_node) option" where
  "k_mem_node_free_pages_nolock m start len =
     (if len = 0 then Some (- EINVAL, m)
      else if out_of_node m start then Some (- EINVAL, m)
      else let (off_page, n_page) = page_range m start len
      in do {
        need_dump \<leftarrow> pages_allocated m (unat off_page) (unat n_page);
        m \<leftarrow> k_mem_node_set_page_flag m (unat off_page) (unat n_page) 0;
        Some (0, m\<lparr>page_use := page_use m - n_page\<rparr>)
      })"

subsection \<open>Locked operations on the head node\<close>

definition k_mem_node_lock :: "int \<Rightarrow> k_mem_node \<Rightarrow> k_mem_node option" where
  "k_mem_node_lock hart m = do { l \<leftarrow> k_spinlock_lock hart (mn_lock m); Some (m\<lparr>mn_lock := l\<rparr>) }"

definition k_mem_node_unlock :: "k_mem_node \<Rightarrow> k_mem_node" where
  "k_mem_node_unlock m = m\<lparr>mn_lock := k_spinlock_unlock (mn_lock m)\<rparr>"

definition k_mem_alloc_pages :: "int \<Rightarrow> mem_state \<Rightarrow> u64 \<Rightarrow> (int \<times> mem_state) option" where
  "k_mem_alloc_pages hart ms len = do {
     m \<leftarrow> k_mem_node_lock hart (node_head ms);
     (r, m, dbg) \<leftarrow> k_mem_node_alloc_pages_nolock m (dbg_heap_num ms) len;
     Some (r, ms\<lparr>node_head := k_mem_node_unlock m, dbg_heap_num := dbg\<rparr>)
   }"

definition k_mem_check_pages :: "int \<Rightarrow> mem_state \<Rightarrow> u64 \<Rightarrow> u64 \<Rightarrow> (int \<times> mem_state) option" where
  "k_mem_check_pages hart ms start len = do {
     m \<leftarrow> k_mem_node_lock hart (node_head ms);
     r \<leftarrow> k_mem_node_check_pages_nolock m start len;
     Some (r, ms\<lparr>node_head := k_mem_node_unlock m\<rparr>)
   }"

definition k_mem_free_pages :: "int \<Rightarrow> mem_state \<Rightarrow> u64 \<Rightarrow> u64 \<Rightarrow> (int \<times> mem_state) option" where
  "k_mem_free_pages hart ms start len = do {
     m \<leftarrow> k_mem_node_lock hart (node_head ms);
     (r, m) \<leftarrow> k_mem_node_free_pages_nolock m start len;
     Some (r, ms\<lparr>node_head := k_mem_node_unlock m\<rparr>)
   }"

definition k_mem_heap_area_start :: "mem_state \<Rightarrow> u64" where
  "k_mem_heap_area_start ms = vaddr (node_head ms)"

definition k_mem_heap_area_end :: "mem_state \<Rightarrow> u64" where
  "k_mem_heap_area_end ms = vaddr (node_head ms) + mn_size (node_head ms)"

subsection \<open>The brk area and initialisation\<close>

definition k_mem_brk_lock :: "int \<Rightarrow> mem_state \<Rightarrow> mem_state option" where
  "k_mem_brk_lock hart ms = do { l \<leftarrow> k_spinlock_lock hart (lock_brk ms); Some (ms\<lparr>lock_brk := l\<rparr>) }"

definition k_mem_brk_unlock :: "mem_state \<Rightarrow> mem_state" where
  "k_mem_brk_unlock ms = ms\<lparr>lock_brk := k_spinlock_unlock (lock_brk ms)\<rparr>"

definition k_mem_brk_start :: "mem_state \<Rightarrow> u64" where
  "k_mem_brk_start ms = brk_top ms"

definition k_mem_brk_end :: "kconfig \<Rightarrow> mem_state \<Rightarrow> u64" where
  "k_mem_brk_end cfg ms = brk_top ms + of_nat (BRK_SIZE cfg)"

definition k_mem_brk_get_cur :: "mem_state \<Rightarrow> u64" where
  "k_mem_brk_get_cur ms = brk_cur ms"

definition k_mem_brk_set_cur :: "mem_state \<Rightarrow> u64 \<Rightarrow> mem_state" where
  "k_mem_brk_set_cur ms p = ms\<lparr>brk_cur := p\<rparr>"

text \<open>
  The variables in zeroed static storage, with the flag array \<open>heap_head_stat\<close> already in place
  (the source stores its address in the node during initialisation).
\<close>

definition mem_static :: "kconfig \<Rightarrow> mem_state" where
  "mem_static cfg =
     \<lparr>node_head = \<lparr>mn_lock = lock_static, paddr = 0, vaddr = 0, mn_size = 0, page_total = 0,
        page_use = 0, stat_page = replicate (HEAP_SIZE cfg div PAGE_SIZE) 0\<rparr>,
      dbg_heap_num = 1, lock_brk = lock_static, brk_top = 0, brk_cur = 0\<rparr>"

definition k_mem_init :: "kconfig \<Rightarrow> int \<Rightarrow> u64 \<Rightarrow> mem_state \<Rightarrow> (int \<times> mem_state) option" where
  "k_mem_init cfg hart heap_head_area ms =
     (let pgsize = PAGE_SIZE;
          mnode = (node_head ms)
            \<lparr>paddr := heap_head_area, mn_size := of_nat (HEAP_SIZE cfg), vaddr := heap_head_area,
             page_total := of_nat (HEAP_SIZE cfg div pgsize), page_use := 0\<rparr>
      in do {
        (off_page, ms) \<leftarrow> k_mem_alloc_pages hart (ms\<lparr>node_head := mnode\<rparr>) (of_nat (BRK_SIZE cfg));
        if off_page < 0 then Some (- ENOMEM, ms)
        else
          let top = vaddr (node_head ms) + of_int off_page * of_nat pgsize
          in Some (0, ms\<lparr>brk_top := top, brk_cur := top\<rparr>)
      })"

subsection \<open>Reference definitions and invariant\<close>

text \<open>Reference: a run of free flags, the flags after a range is set, the flags in use.\<close>

definition free_run :: "u8 list \<Rightarrow> nat \<Rightarrow> nat \<Rightarrow> bool" where
  "free_run st p n \<longleftrightarrow> p + n \<le> length st \<and> (\<forall>q \<in> {p..<p + n}. st ! q = 0)"

definition mark :: "u8 list \<Rightarrow> nat \<Rightarrow> nat \<Rightarrow> u8 \<Rightarrow> u8 list" where
  "mark st p n v = take p st @ replicate n v @ drop (p + n) st"

definition used :: "u8 list \<Rightarrow> nat" where
  "used st = length (filter (\<lambda>b. b \<noteq> 0) st)"

definition wf_node :: "k_mem_node \<Rightarrow> bool" where
  "wf_node m \<longleftrightarrow>
     length (stat_page m) = unat (page_total m) \<and>
     page_use m = of_nat (used (stat_page m)) \<and>
     unat (vaddr m) + unat (page_total m) * PAGE_SIZE < 2 ^ 64 \<and>
     mn_size m = page_total m * 4096"

text \<open>The number of pages a request of \<open>len\<close> bytes asks for.\<close>

definition req_pages :: "u64 \<Rightarrow> nat" where
  "req_pages len = unat ((len + 4096 - 1) div 4096)"

definition next_dbg :: "u32 \<Rightarrow> u32" where
  "next_dbg dbg = (if (dbg + 1) AND 0xff = 0 then dbg + 2 else dbg + 1)"

abbreviation released :: k_spinlock where
  "released \<equiv> \<lparr>lock_val = 0, lock_id = - 1\<rparr>"

definition mem_inv :: "mem_state \<Rightarrow> bool" where
  "mem_inv ms \<longleftrightarrow> wf_node (node_head ms) \<and> unlocked (mn_lock (node_head ms)) \<and>
     unlocked (lock_brk ms) \<and> (ucast (dbg_heap_num ms) :: u8) \<noteq> 0"

definition mem_alloc_ref :: "mem_state \<Rightarrow> nat \<Rightarrow> nat \<Rightarrow> mem_state" where
  "mem_alloc_ref ms p n =
     (let m = node_head ms in
      ms\<lparr>node_head := m\<lparr>mn_lock := released, stat_page := mark (stat_page m) p n (ucast (dbg_heap_num ms)),
                        page_use := page_use m + of_nat n\<rparr>,
        dbg_heap_num := next_dbg (dbg_heap_num ms)\<rparr>)"

abbreviation mem_released :: "mem_state \<Rightarrow> mem_state" where
  "mem_released ms \<equiv> ms\<lparr>node_head := (node_head ms)\<lparr>mn_lock := released\<rparr>\<rparr>"

subsection \<open>The search is first fit\<close>

declare alloc_scan.simps [simp del]

lemma count_cont_loop_spec:
  assumes "length (stat_page m) = unat (page_total m)" "i \<le> unat (page_total m)"
  shows "\<exists>k. count_cont_loop m i r lim = Some (r + k) \<and> free_run (stat_page m) i k \<and>
    (i + k = unat (page_total m) \<or> stat_page m ! (i + k) \<noteq> 0 \<or> lim \<le> r + k) \<and>
    (k = 0 \<or> r + k \<le> lim)"
  using assms
proof (induction m i r lim rule: count_cont_loop.induct)
  case (1 m i r lim)
  show ?case
  proof (cases "i < unat (page_total m) \<and> stat_page m ! i = 0 \<and> r < lim")
    case False
    then show ?thesis
      using 1(2,3) by (intro exI [of _ 0])
        (auto simp: count_cont_loop.simps [of m i r lim] k_mem_node_get_page_stat_def free_run_def)
  next
    case True
    with 1 obtain k where k: "count_cont_loop m (i + 1) (r + 1) lim = Some (r + 1 + k)"
      "free_run (stat_page m) (i + 1) k"
      "i + 1 + k = unat (page_total m) \<or> stat_page m ! (i + 1 + k) \<noteq> 0 \<or> lim \<le> r + 1 + k"
      "k = 0 \<or> r + 1 + k \<le> lim"
      by (auto simp: k_mem_node_get_page_stat_def)
    moreover have "free_run (stat_page m) i (Suc k)"
    proof -
      have "{i..<i + Suc k} = insert i {i + 1..<i + 1 + k}" by auto
      with k(2) True 1(2) show ?thesis by (auto simp: free_run_def)
    qed
    moreover have "count_cont_loop m i r lim = Some (r + Suc k)"
      using True k(1) 1(2) by (simp add: count_cont_loop.simps [of m i r lim] k_mem_node_get_page_stat_def)
    ultimately show ?thesis
      using True by (intro exI [of _ "Suc k"]) auto
  qed
qed

lemma find_upt_skip:
  assumes "i \<le> j" "\<And>p. i \<le> p \<Longrightarrow> p < j \<Longrightarrow> p < n \<Longrightarrow> \<not> P p"
  shows "find P [i..<n] = find P [j..<n]"
  using assms
proof (induction j rule: dec_induct)
  case (step j)
  then have "find P [j..<n] = find P [Suc j..<n]"
    by (cases "j < n") (auto simp: upt_conv_Cons)
  with step show ?case by simp
qed simp

text \<open>The search is first fit for one page less than requested, one page at least.\<close>

lemma alloc_scan_first_fit:
  assumes "length (stat_page m) = unat (page_total m)"
  shows "alloc_scan m req i =
    Some (find (\<lambda>p. free_run (stat_page m) p (max 1 (req - 1))) [i..<unat (page_total m)])"
  using assms
proof (induction m req i rule: alloc_scan.induct)
  case (1 m req i)
  let ?n = "unat (page_total m)" and ?P = "\<lambda>p. free_run (stat_page m) p (max 1 (req - 1))"
  note unfold = alloc_scan.simps [of m req i] k_mem_node_get_page_stat_def
  consider "?n \<le> i" | "i < ?n" "stat_page m ! i \<noteq> 0" | "i < ?n" "stat_page m ! i = 0" by linarith
  then show ?case
  proof cases
    case 1
    then show ?thesis by (simp add: unfold)
  next
    case 2
    then have "\<not> ?P i" by (auto simp: free_run_def)
    with 2 1 show ?thesis
      by (simp add: unfold upt_conv_Cons k_mem_node_get_page_stat_def)
  next
    case 3
    obtain k where k: "k_mem_node_count_cont_pages m i req = Some (1 + k)"
      "free_run (stat_page m) i k" "i + k = ?n \<or> stat_page m ! (i + k) \<noteq> 0 \<or> req \<le> 1 + k"
      "k = 0 \<or> 1 + k \<le> req"
      using count_cont_loop_spec [OF 1(3), of i 1 req] 3
      by (auto simp: k_mem_node_count_cont_pages_def)
    show ?thesis
    proof (cases "req \<le> 1 + k")
      case True
      have "?P i"
        using True k(2,4) 3 1(3) by (cases "k = 0") (auto simp: free_run_def max_def)
      with True 3 k(1) 1(3) show ?thesis by (simp add: unfold upt_conv_Cons)
    next
      case False
      have skip: "\<not> ?P p" if "i \<le> p" "p < i + (1 + k)" "p < ?n" for p
      proof
        assume "?P p"
        then have *: "p + max 1 (req - 1) \<le> ?n" "\<forall>q \<in> {p..<p + max 1 (req - 1)}. stat_page m ! q = 0"
          using 1(3) by (auto simp: free_run_def)
        have "i + k \<in> {p..<p + max 1 (req - 1)}" using that False by auto
        with * k(3) False show False by auto
      qed
      have "alloc_scan m req (i + (1 + k)) = Some (find ?P [i + (1 + k)..<?n])"
        using 1(2) [OF 3(1), of "stat_page m ! i" "1 + k"] 3 k(1) False 1(3)
        by (simp add: k_mem_node_get_page_stat_def)
      with find_upt_skip [of i "i + (1 + k)" ?n ?P] skip 3 k(1) False 1(3) show ?thesis
        by (simp add: unfold)
    qed
  qed
qed

lemma set_page_flag_mark:
  "k_mem_node_set_page_flag m p n v =
    (if n = 0 \<or> p + n \<le> length (stat_page m) then Some (m\<lparr>stat_page := mark (stat_page m) p n v\<rparr>) else None)"
proof (induction n arbitrary: m p)
  case 0
  then show ?case by (simp add: mark_def)
next
  case (Suc n)
  have "mark (st[p := v]) (Suc p) n v = mark st p (Suc n) v" if "p < length st" for st
    using that by (simp add: mark_def take_Suc_conv_app_nth take_update_cancel drop_update_cancel)
  then show ?case
    by (auto simp: set_page_stat_def Suc.IH)
qed

lemma length_mark [simp]: "p + n \<le> length st \<Longrightarrow> length (mark st p n v) = length st"
  by (simp add: mark_def)

lemma mark_nth:
  "p + n \<le> length st \<Longrightarrow> q < length st \<Longrightarrow>
   mark st p n v ! q = (if p \<le> q \<and> q < p + n then v else st ! q)"
  by (auto simp: mark_def nth_append)

lemma used_append [simp]: "used (xs @ ys) = used xs + used ys"
  by (simp add: used_def)

lemma used_replicate [simp]: "used (replicate n v) = (if v = 0 then 0 else n)"
  by (simp add: used_def)

lemma used_le: "used st \<le> length st"
  by (simp add: used_def)

lemma split3: "p + n \<le> length st \<Longrightarrow> st = take p st @ take n (drop p st) @ drop (p + n) st"
  by (metis append_take_drop_id drop_drop add.commute)

lemma used_split:
  "p + n \<le> length st \<Longrightarrow>
   used st = used (take p st) + used (take n (drop p st)) + used (drop (p + n) st)"
  using split3 [of p n st] by (metis used_append add.assoc)

lemma free_run_segment:
  "free_run st p n \<Longrightarrow> take n (drop p st) = replicate n 0"
  by (rule nth_equalityI) (auto simp: free_run_def)

lemma used_mark_free:
  assumes "free_run st p n" "v \<noteq> 0"
  shows "used (mark st p n v) = used st + n"
  using used_split [of p n st] free_run_segment [OF assms(1)] assms
  by (simp add: mark_def free_run_def)

lemma mark_mark: "p + n \<le> length st \<Longrightarrow> mark (mark st p n v) p n w = mark st p n w"
  by (simp add: mark_def)

lemma mark_zero_free: "free_run st p n \<Longrightarrow> mark st p n 0 = st"
  using split3 [of p n st] free_run_segment [of st p n] by (simp add: mark_def free_run_def)

lemma req_pages_ceil:
  assumes "unat len + 4095 < 2 ^ 64"
  shows "req_pages len = (unat len + 4095) div 4096"
proof -
  have "len + 4096 - 1 = len + 4095" by simp
  moreover have "unat (len + 4095) = unat len + 4095"
    using assms unat_add_lem [of len 4095] by simp
  ultimately show ?thesis by (simp only: req_pages_def unat_div) simp
qed

lemma req_pages_wrap:
  "req_pages len = (if unat len + 4095 < 2 ^ 64 then (unat len + 4095) div 4096 else 0)"
proof (cases "unat len + 4095 < 2 ^ 64")
  case False
  then have "unat (len + 4095) = unat len + 4095 - 2 ^ 64"
    using unsigned_less [of len, where 'a = nat] by (simp add: unat_word_ariths mod_if)
  then have "unat (len + 4095) < 4096" using unsigned_less [of len, where 'a = nat] by simp
  moreover have "len + 4096 - 1 = len + 4095" by simp
  ultimately show ?thesis using False by (simp only: req_pages_def unat_div) simp
qed (simp add: req_pages_ceil)

lemma wf_free_pages:
  assumes "wf_node m"
  shows "unat (page_total m - page_use m) = unat (page_total m) - used (stat_page m)"
    and "used (stat_page m) \<le> unat (page_total m)"
proof -
  show le: "used (stat_page m) \<le> unat (page_total m)"
    using assms used_le [of "stat_page m"] by (simp add: wf_node_def)
  have "unat (page_use m) = used (stat_page m)"
    using assms le unsigned_less [of "page_total m", where 'a = nat]
    by (simp add: wf_node_def unat_of_nat take_bit_nat_eq_self_iff)
  then show "unat (page_total m - page_use m) = unat (page_total m) - used (stat_page m)"
    using le by (simp add: unat_sub word_le_nat_alt)
qed

lemma alloc_pages_spec:
  assumes "wf_node m" "len \<noteq> 0"
  shows "k_mem_node_alloc_pages_nolock m dbg len =
    (if unat (page_total m) - used (stat_page m) < req_pages len then Some (- ENOMEM, m, dbg)
     else case find (\<lambda>p. free_run (stat_page m) p (max 1 (req_pages len - 1))) [0..<unat (page_total m)] of
       None \<Rightarrow> Some (- 1, m, dbg)
     | Some p \<Rightarrow>
         if req_pages len = 0 \<or> p + req_pages len \<le> unat (page_total m) then
           Some (int p, m\<lparr>stat_page := mark (stat_page m) p (req_pages len) (ucast dbg),
                          page_use := page_use m + of_nat (req_pages len)\<rparr>, next_dbg dbg)
         else None)"
proof -
  have len: "length (stat_page m) = unat (page_total m)"
    using assms(1) by (simp add: wf_node_def)
  have gt: "(len + 4096 - 1) div 4096 > page_total m - page_use m \<longleftrightarrow>
      unat (page_total m) - used (stat_page m) < req_pages len"
    using wf_free_pages [OF assms(1)] by (simp add: word_less_nat_alt req_pages_def)
  have "next_dbg dbg = (let dbg = dbg + 1 in if dbg AND 0xff = 0 then dbg + 1 else dbg)"
    by (simp add: next_dbg_def Let_def)
  then show ?thesis
    using assms(2) gt len
    by (auto simp: k_mem_node_alloc_pages_nolock_def k_mem_node_get_pagesize_def Let_def
        alloc_scan_first_fit set_page_flag_mark req_pages_def split: option.split)
qed

lemma wf_node_lock [simp]: "wf_node (m\<lparr>mn_lock := l\<rparr>) \<longleftrightarrow> wf_node m"
  by (simp add: wf_node_def)

lemma mem_alloc_pages_spec:
  assumes "wf_node (node_head ms)" "unlocked (mn_lock (node_head ms))" "len \<noteq> 0"
  shows "k_mem_alloc_pages hart ms len =
    (let st = stat_page (node_head ms); total = unat (page_total (node_head ms)) in
     if total - used st < req_pages len then Some (- ENOMEM, mem_released ms)
     else case find (\<lambda>p. free_run st p (max 1 (req_pages len - 1))) [0..<total] of
       None \<Rightarrow> Some (- 1, mem_released ms)
     | Some p \<Rightarrow>
         if req_pages len = 0 \<or> p + req_pages len \<le> total then
           Some (int p, mem_alloc_ref ms p (req_pages len))
         else None)"
proof -
  let ?l = "(mn_lock (node_head ms))\<lparr>lock_val := 1, lock_id := hart\<rparr>"
  have unl: "k_spinlock_unlock ?l = released"
    by (simp add: lock_defs)
  show ?thesis
    using assms alloc_pages_spec [of "(node_head ms)\<lparr>mn_lock := ?l\<rparr>" len "dbg_heap_num ms"]
    by (auto simp: k_mem_alloc_pages_def k_mem_node_lock_def k_mem_node_unlock_def unl Let_def
        mem_alloc_ref_def split: option.split)
qed

lemma ucast_and_0xff: "(ucast (d :: u32) :: u8) = 0 \<longleftrightarrow> d AND 0xff = 0"
proof -
  have mask8: "(0xff :: u32) = mask 8"
    by (simp add: mask_eq_exp_minus_1)
  have "d AND 0xff = ucast (ucast d :: u8)"
    unfolding mask8 by (rule bit_word_eqI) (auto simp: bit_simps)
  moreover have "(ucast (x :: u8) :: u32) = 0 \<longleftrightarrow> x = 0" for x
    by transfer simp
  ultimately show ?thesis by simp
qed

lemma ucast_u8_add: "(ucast (a + b :: u32) :: u8) = ucast a + ucast b"
  by transfer (subst (2) take_bit_add [symmetric], simp add: take_bit_add)

lemma next_dbg_nonzero: "(ucast (next_dbg d) :: u8) \<noteq> 0"
proof (cases "(d + 1) AND 0xff = 0")
  case True
  then have "(ucast (d + 1) :: u8) = 0" by (simp add: ucast_and_0xff)
  then have "(ucast (d + 1 + 1) :: u8) = 1" by (simp only: ucast_u8_add [of "d + 1" 1]) simp
  with True show ?thesis by (simp add: next_dbg_def add.assoc del: ucast_u8_add)
qed (simp add: next_dbg_def ucast_and_0xff)

lemma mem_inv_alloc:
  assumes "mem_inv ms" "free_run (stat_page (node_head ms)) p n"
  shows "mem_inv (mem_alloc_ref ms p n)"
  using assms next_dbg_nonzero
  by (auto simp: mem_inv_def mem_alloc_ref_def wf_node_def Let_def used_mark_free free_run_def unlocked_def)

text \<open>A small heap of the given flags at address 0x1000.\<close>

definition example_node :: "u8 list \<Rightarrow> k_mem_node" where
  "example_node st =
     \<lparr>mn_lock = lock_static, paddr = 0x1000, vaddr = 0x1000, mn_size = of_nat (length st) * 4096,
      page_total = of_nat (length st), page_use = of_nat (used st), stat_page = st\<rparr>"

definition example_mem :: "u8 list \<Rightarrow> mem_state" where
  "example_mem st =
     \<lparr>node_head = example_node st, dbg_heap_num = 9, lock_brk = lock_static, brk_top = 0, brk_cur = 0\<rparr>"

text \<open>The node \<open>k_mem_init\<close> sets up before it allocates the brk area.\<close>

definition mem_boot :: "kconfig \<Rightarrow> u64 \<Rightarrow> mem_state" where
  "mem_boot cfg area = (mem_static cfg)\<lparr>node_head := (node_head (mem_static cfg))
     \<lparr>paddr := area, mn_size := of_nat (HEAP_SIZE cfg), vaddr := area,
      page_total := of_nat (HEAP_SIZE cfg div PAGE_SIZE), page_use := 0\<rparr>\<rparr>"

subsection \<open>Requests\<close>

lemma find_Some_first:
  "find P [0..<n] = Some p \<longleftrightarrow> p < n \<and> P p \<and> (\<forall>q < p. \<not> P q)"
  by (fastforce simp: find_Some_iff)

lemma find_None_upt: "find P [0..<n] = None \<longleftrightarrow> (\<forall>q < n. \<not> P q)"
  by (auto simp: find_None_iff)

text \<open>
  C1. The allocator is a first-fit search for one page less than it hands out.  For every heap
  that satisfies the invariant: a length of 0 is refused with \<open>-EINVAL\<close>.  Any other length asks for
  \<open>req\<close> pages, the length rounded up to whole pages; for the last 4095 lengths of the address space the
  rounding wraps and \<open>req\<close> is 0.  When \<open>req\<close> exceeds the count of free pages the result is \<open>-ENOMEM\<close>.
  Else the allocator takes the lowest page \<open>p\<close> that starts a run of \<open>max 1 (req - 1)\<close> free pages,
  marks \<open>req\<close> pages from \<open>p\<close> on as used and returns \<open>p\<close>, or \<open>-1\<close> when there is no such run; so a
  wrapped request gets the number of a free page that stays free.  When the \<open>req\<close> pages do not fit
  into the heap it writes behind the flag array (no defined result).  The node's lock is free
  again in every case that returns.
\<close>

theorem k_mem_alloc_pages_first_fit:
  assumes "mem_inv ms"
  shows "k_mem_alloc_pages hart ms len =
    (let st = stat_page (node_head ms); total = unat (page_total (node_head ms));
         req = (if unat len + 4095 < 2 ^ 64 then (unat len + 4095) div 4096 else 0) in
     if len = 0 then Some (- EINVAL, mem_released ms)
     else if total - used st < req then Some (- ENOMEM, mem_released ms)
     else case find (\<lambda>p. free_run st p (max 1 (req - 1))) [0..<total] of
       None \<Rightarrow> Some (- 1, mem_released ms)
     | Some p \<Rightarrow> if req = 0 \<or> p + req \<le> total then Some (int p, mem_alloc_ref ms p req) else None)"
proof (cases "len = 0")
  case True
  then show ?thesis
    using assms by (simp add: mem_inv_def k_mem_alloc_pages_def k_mem_node_lock_def k_mem_node_unlock_def
      k_mem_node_alloc_pages_nolock_def Let_def lock_defs)
next
  case False
  then show ?thesis
    using assms mem_alloc_pages_spec [of ms len hart, unfolded req_pages_wrap] by (simp add: mem_inv_def Let_def)
qed

lemma mem_inv_example: "length st < 100 \<Longrightarrow> mem_inv (example_mem st)"
  by (simp add: mem_inv_def example_mem_def example_node_def wf_node_def unat_of_nat
      take_bit_nat_eq_self_iff)

lemma req_pages_one: "0 < len \<Longrightarrow> len \<le> 4096 \<Longrightarrow> req_pages len = 1"
  by (subst req_pages_ceil) (auto simp: word_le_nat_alt word_less_nat_alt)

lemma free_run_one: "free_run st p (Suc 0) \<longleftrightarrow> p < length st \<and> st ! p = 0"
  by (auto simp: free_run_def)

lemma used_full: "used st = length st \<longleftrightarrow> (\<forall>b \<in> set st. b \<noteq> 0)"
  using length_filter_less [of _ st "\<lambda>b. b \<noteq> 0"] by (force simp: used_def)

lemma mark_one: "p < length st \<Longrightarrow> mark st p (Suc 0) v = st[p := v]"
  by (simp add: mark_def upd_conv_take_nth_drop)

lemma first_free:
  assumes "\<not> (\<forall>b \<in> set st. b \<noteq> 0)"
  obtains p where "p < length st" "st ! p = 0" "\<forall>q < p. st ! q \<noteq> 0"
proof -
  have ex: "\<exists>p. p < length st \<and> st ! p = 0"
    using assms by (auto simp: in_set_conv_nth)
  let ?p = "LEAST p. p < length st \<and> st ! p = 0"
  have "?p < length st \<and> st ! ?p = 0" using ex by (rule LeastI_ex)
  moreover have "\<forall>q < ?p. st ! q \<noteq> 0"
    using not_less_Least [of _ "\<lambda>p. p < length st \<and> st ! p = 0"] calculation
    by (metis order.strict_trans)
  ultimately show thesis by (blast intro: that)
qed

theorem k_mem_alloc_pages_first_fit_witness:
  "k_mem_alloc_pages 0 (example_mem [1, 0, 0]) 8192 = Some (1, mem_alloc_ref (example_mem [1, 0, 0]) 1 2) \<and>
   k_mem_alloc_pages 0 (example_mem [1, 0, 0]) 0 = Some (- EINVAL, mem_released (example_mem [1, 0, 0])) \<and>
   k_mem_alloc_pages 0 (example_mem [1, 0, 0]) 0xFFFFFFFFFFFFF001 = Some (1, mem_alloc_ref (example_mem [1, 0, 0]) 1 0)"
proof -
  have inv: "mem_inv (example_mem [1, 0, 0])" using mem_inv_example [of "[1, 0, 0]"] by simp
  have st: "stat_page (node_head (example_mem [1, 0, 0])) = [1, 0, 0]" "unat (page_total (node_head (example_mem [1, 0, 0]))) = 3"
    by (simp_all add: example_mem_def example_node_def)
  have run: "find (\<lambda>p. free_run [1, 0, 0] p (Suc 0)) [0..<3] = Some 1" "used [1, 0, 0] = 1"
    by (simp_all add: upt_rec free_run_one used_def)
  show ?thesis
    by (simp add: k_mem_alloc_pages_first_fit [OF inv] st run Let_def)
qed

text \<open>
  Requests of up to a page are served correctly: while a page is free the lowest free page is
  returned, exactly that page changes from free to used and the invariant holds again; on a full
  heap the request fails with \<open>-ENOMEM\<close>.
\<close>

theorem k_mem_alloc_one_page:
  assumes "mem_inv ms" "0 < len" "len \<le> 4096"
  shows "if (\<forall>b \<in> set (stat_page (node_head ms)). b \<noteq> 0)
    then k_mem_alloc_pages hart ms len = Some (- ENOMEM, mem_released ms)
    else \<exists>p ms'. k_mem_alloc_pages hart ms len = Some (int p, ms') \<and> mem_inv ms' \<and>
      p < length (stat_page (node_head ms)) \<and> stat_page (node_head ms) ! p = 0 \<and>
      (\<forall>q < p. stat_page (node_head ms) ! q \<noteq> 0) \<and>
      (\<exists>v. v \<noteq> 0 \<and> stat_page (node_head ms') = (stat_page (node_head ms))[p := v])"
proof -
  let ?st = "stat_page (node_head ms)"
  have len: "unat (page_total (node_head ms)) = length ?st" and wf: "wf_node (node_head ms)"
    and lock: "unlocked (mn_lock (node_head ms))" and dbg: "(ucast (dbg_heap_num ms) :: u8) \<noteq> 0"
    using assms(1) by (auto simp: mem_inv_def wf_node_def)
  have spec: "k_mem_alloc_pages hart ms len =
    (if length ?st - used ?st < 1 then Some (- ENOMEM, mem_released ms)
     else case find (\<lambda>p. free_run ?st p 1) [0..<length ?st] of
       None \<Rightarrow> Some (- 1, mem_released ms)
     | Some p \<Rightarrow> if p + 1 \<le> length ?st then Some (int p, mem_alloc_ref ms p 1) else None)"
    using mem_alloc_pages_spec [OF wf lock, of len hart] req_pages_one [OF assms(2,3)] assms(2) len
    by (auto simp: Let_def split: option.split)
  show ?thesis
  proof (cases "\<forall>b \<in> set ?st. b \<noteq> 0")
    case True
    then show ?thesis using spec used_full [of ?st] by simp
  next
    case False
    then obtain p where p: "p < length ?st" "?st ! p = 0" "\<forall>q < p. ?st ! q \<noteq> 0"
      by (rule first_free)
    then have "find (\<lambda>p. free_run ?st p 1) [0..<length ?st] = Some p"
      unfolding find_Some_first One_nat_def free_run_one by auto
    moreover have "used ?st < length ?st"
      using False used_full [of ?st] used_le [of ?st] by (auto simp: le_less)
    ultimately have "k_mem_alloc_pages hart ms len = Some (int p, mem_alloc_ref ms p 1)"
      using spec p(1) by simp
    moreover have "mem_inv (mem_alloc_ref ms p 1)"
      using assms(1) p by (intro mem_inv_alloc) (auto simp: free_run_one)
    moreover have "stat_page (node_head (mem_alloc_ref ms p 1)) = ?st[p := ucast (dbg_heap_num ms)]"
      using p by (simp add: mem_alloc_ref_def Let_def mark_one)
    ultimately show ?thesis using False p dbg by auto
  qed
qed

theorem k_mem_alloc_one_page_witness:
  "\<exists>p ms'. k_mem_alloc_pages 0 (example_mem [1, 0, 2]) 100 = Some (int p, ms') \<and> mem_inv ms' \<and>
    p < 3 \<and> [1, 0, 2 :: u8] ! p = 0 \<and> (\<exists>v. v \<noteq> 0 \<and> stat_page (node_head ms') = [1, 0, 2][p := v])"
  using k_mem_alloc_one_page [of "example_mem [1, 0, 2]" 100 0] mem_inv_example [of "[1, 0, 2]"]
  by (auto simp: example_mem_def example_node_def)

lemma free_run_suffix:
  assumes "\<forall>b \<in> set xs. b \<noteq> 0" "1 \<le> n" "n \<le> f"
  shows "free_run (xs @ replicate f 0) (length xs) n"
    and "q < length xs \<Longrightarrow> \<not> free_run (xs @ replicate f 0) q n"
proof -
  show "free_run (xs @ replicate f 0) (length xs) n"
    using assms by (auto simp: free_run_def nth_append)
  assume "q < length xs"
  moreover from this have "(xs @ replicate f 0) ! q \<noteq> 0"
    using assms(1) by (simp add: nth_append)
  ultimately show "\<not> free_run (xs @ replicate f 0) q n"
    using assms(2) by (auto simp: free_run_def)
qed

lemma alloc_contiguous:
  assumes "mem_inv ms" "stat_page (node_head ms) = xs @ replicate f 0" "\<forall>b \<in> set xs. b \<noteq> 0"
    and "len \<noteq> 0" "1 \<le> req_pages len" "req_pages len \<le> f"
  shows "k_mem_alloc_pages hart ms len = Some (int (length xs), mem_alloc_ref ms (length xs) (req_pages len))"
    and "mem_inv (mem_alloc_ref ms (length xs) (req_pages len))"
proof -
  let ?k = "max 1 (req_pages len - 1)"
  have len: "unat (page_total (node_head ms)) = length xs + f" and wf: "wf_node (node_head ms)"
    and lock: "unlocked (mn_lock (node_head ms))"
    using assms(1,2) by (auto simp: mem_inv_def wf_node_def)
  have "1 \<le> ?k" "?k \<le> f" using assms(5,6) by auto
  note run = free_run_suffix [OF assms(3) this]
  have "find (\<lambda>p. free_run (xs @ replicate f 0) p ?k) [0..<length xs + f] = Some (length xs)"
    unfolding find_Some_first using run assms(5,6) by auto
  moreover have "used (xs @ replicate f 0) = length xs"
    using assms(3) used_full [of xs] by simp
  ultimately show "k_mem_alloc_pages hart ms len =
      Some (int (length xs), mem_alloc_ref ms (length xs) (req_pages len))"
    using mem_alloc_pages_spec [OF wf lock, of len hart] assms len by (simp add: Let_def)
  show "mem_inv (mem_alloc_ref ms (length xs) (req_pages len))"
    using assms free_run_suffix(1) [OF assms(3,5,6)] by (intro mem_inv_alloc) simp_all
qed

text \<open>
  As long as no page was freed below a used one the allocator is right for requests of any
  size: with the used pages at the start of the heap and enough free pages behind them, the
  request gets exactly the next pages, all of them free before and marked used afterwards, and
  the invariant is kept.
\<close>

theorem k_mem_alloc_unfragmented:
  assumes "mem_inv ms" "stat_page (node_head ms) = xs @ replicate f 0" "\<forall>b \<in> set xs. b \<noteq> 0"
    and "len \<noteq> 0" "unat len + 4095 < 2 ^ 64" "(unat len + 4095) div 4096 \<le> f"
  shows "\<exists>ms' v. k_mem_alloc_pages hart ms len = Some (int (length xs), ms') \<and> mem_inv ms' \<and> v \<noteq> 0 \<and>
    (let n = (unat len + 4095) div 4096 in
     stat_page (node_head ms') = xs @ replicate n v @ replicate (f - n) 0)"
proof -
  have req: "req_pages len = (unat len + 4095) div 4096"
    using assms(5) by (rule req_pages_ceil)
  have "0 < unat len" using assms(4) by (simp add: unat_gt_0)
  then have pos: "1 \<le> req_pages len" using req by simp
  have "stat_page (node_head (mem_alloc_ref ms (length xs) (req_pages len))) =
      xs @ replicate (req_pages len) (ucast (dbg_heap_num ms)) @ replicate (f - req_pages len) 0"
    using assms(2) by (simp add: mem_alloc_ref_def Let_def mark_def)
  moreover have "(ucast (dbg_heap_num ms) :: u8) \<noteq> 0"
    using assms(1) by (simp add: mem_inv_def)
  ultimately show ?thesis
    using alloc_contiguous(1) [OF assms(1-4) pos, of hart] alloc_contiguous(2) [OF assms(1-4) pos] assms(6) unfolding req Let_def by blast
qed

theorem k_mem_alloc_unfragmented_witness:
  "\<exists>ms' v. k_mem_alloc_pages 0 (example_mem [1, 1, 0, 0, 0]) 5000 = Some (int 2, ms') \<and>
     v \<noteq> 0 \<and> stat_page (node_head ms') = [1, 1, v, v, 0]"
proof -
  have n: "(unat (5000 :: u64) + 4095) div 4096 = Suc (Suc 0)" by simp
  have st: "stat_page (node_head (example_mem [1, 1, 0, 0, 0])) = [1, 1] @ replicate (Suc (Suc (Suc 0))) 0"
    by (simp add: example_mem_def example_node_def)
  show ?thesis
    using k_mem_alloc_unfragmented [OF mem_inv_example st, of 5000 0] unfolding n Let_def by auto
qed

lemma alloc_ref_simps [simp]:
  "vaddr (node_head (mem_alloc_ref ms p n)) = vaddr (node_head ms)"
  "page_total (node_head (mem_alloc_ref ms p n)) = page_total (node_head ms)"
  "mn_size (node_head (mem_alloc_ref ms p n)) = mn_size (node_head ms)"
  "brk_top (mem_alloc_ref ms p n) = brk_top ms" "brk_cur (mem_alloc_ref ms p n) = brk_cur ms"
  "lock_brk (mem_alloc_ref ms p n) = lock_brk ms"
  by (simp_all add: mem_alloc_ref_def Let_def)

lemma mem_inv_brk [simp]: "mem_inv (ms\<lparr>brk_top := t, brk_cur := c\<rparr>) \<longleftrightarrow> mem_inv ms"
  by (simp add: mem_inv_def)

lemma mem_inv_boot:
  assumes "valid_config cfg" "unat area + HEAP_SIZE cfg < 2 ^ 64"
  shows "mem_inv (mem_boot cfg area)"
    and "stat_page (node_head (mem_boot cfg area)) = [] @ replicate (HEAP_SIZE cfg div PAGE_SIZE) 0"
proof -
  let ?n = "HEAP_SIZE cfg div PAGE_SIZE"
  have heap: "HEAP_SIZE cfg = ?n * 4096"
    using assms(1) by (auto simp: valid_config_def)
  have "?n < 2 ^ 64" using assms(2) heap by linarith
  then have "unat (of_nat ?n :: u64) = ?n"
    by (simp add: unat_of_nat take_bit_nat_eq_self_iff)
  moreover have "(of_nat (HEAP_SIZE cfg) :: u64) = of_nat ?n * 4096"
    by (subst heap) simp
  ultimately show "mem_inv (mem_boot cfg area)"
    using assms(2) heap
    by (simp add: mem_inv_def wf_node_def mem_boot_def mem_static_def lock_static_def unlocked_def)
  show "stat_page (node_head (mem_boot cfg area)) = [] @ replicate ?n 0"
    by (simp add: mem_boot_def mem_static_def)
qed

lemma k_mem_init_spec:
  assumes "valid_config cfg" "0 < BRK_SIZE cfg" "unat area + HEAP_SIZE cfg < 2 ^ 64"
  shows "\<exists>ms v. k_mem_init cfg hart area (mem_static cfg) = Some (0, ms) \<and> mem_inv ms \<and>
    brk_top ms = area \<and> brk_cur ms = area \<and> v \<noteq> 0 \<and>
    unat (k_mem_brk_end cfg ms) \<le> unat (k_mem_heap_area_end ms) \<and>
    (let n = (BRK_SIZE cfg + 4095) div 4096 in
     stat_page (node_head ms) = replicate n v @ replicate (HEAP_SIZE cfg div 4096 - n) 0)"
proof -
  let ?len = "of_nat (BRK_SIZE cfg) :: u64" and ?h = "HEAP_SIZE cfg div 4096"
  let ?n = "(BRK_SIZE cfg + 4095) div 4096"
  have heap: "HEAP_SIZE cfg = ?h * 4096" and brk: "BRK_SIZE cfg \<le> HEAP_SIZE cfg"
    using assms(1) by (auto simp: valid_config_def)
  have "?h < 2 ^ 52" using assms(3) heap by simp
  then have small: "HEAP_SIZE cfg + 4095 < 2 ^ 64" using heap by simp
  then have un: "unat ?len = BRK_SIZE cfg" "unat (of_nat (HEAP_SIZE cfg) :: u64) = HEAP_SIZE cfg"
    using brk by (simp_all add: unat_of_nat take_bit_nat_eq_self_iff)
  then have req: "req_pages ?len = ?n"
    using small brk by (simp add: req_pages_ceil)
  have n: "1 \<le> ?n" "?n \<le> ?h" using assms(2) brk heap by linarith+
  have nz: "?len \<noteq> 0" using un(1) assms(2) by auto
  let ?ms = "mem_alloc_ref (mem_boot cfg area) 0 ?n"
  note boot = mem_inv_boot [OF assms(1,3)]
  note alloc = alloc_contiguous [OF boot(1) boot(2) _ nz, unfolded req]
  have "k_mem_alloc_pages hart (mem_boot cfg area) ?len = Some (0, ?ms)"
    using alloc(1) n by simp
  then have "k_mem_init cfg hart area (mem_static cfg) = Some (0, ?ms\<lparr>brk_top := area, brk_cur := area\<rparr>)"
    by (simp add: k_mem_init_def Let_def mem_boot_def)
  moreover have "mem_inv ?ms" using alloc(2) n by simp
  moreover have "stat_page (node_head ?ms) = replicate ?n 1 @ replicate (?h - ?n) 0"
    by (simp add: mem_alloc_ref_def mem_boot_def mem_static_def mark_def Let_def)
  moreover have "unat (area + ?len) \<le> unat (area + of_nat (HEAP_SIZE cfg))"
    using unat_add_lem [of area ?len] unat_add_lem [of area "of_nat (HEAP_SIZE cfg)"] un brk assms(3)
    by simp
  ultimately show ?thesis
    by (intro exI [of _ "?ms\<lparr>brk_top := area, brk_cur := area\<rparr>"] exI [of _ 1])
      (simp add: Let_def k_mem_brk_end_def k_mem_heap_area_end_def, simp add: mem_boot_def)
qed

text \<open>
  Initialisation reserves the brk area and leaves an allocator in its invariant: for every
  configuration the build accepts with a non-empty brk area, and every place of the heap in the
  address space, \<open>k_mem_init\<close> returns 0, the brk area starts at the start of the heap, its pages
  and only they are marked used, and the area lies inside the heap.
\<close>

theorem k_mem_init_reserves_brk:
  assumes "valid_config cfg" "0 < BRK_SIZE cfg" "unat area + HEAP_SIZE cfg < 2 ^ 64"
  shows "\<exists>ms v. k_mem_init cfg hart area (mem_static cfg) = Some (0, ms) \<and> mem_inv ms \<and>
    brk_top ms = area \<and> brk_cur ms = area \<and> v \<noteq> 0 \<and>
    unat (k_mem_brk_end cfg ms) \<le> unat (k_mem_heap_area_end ms) \<and>
    (let n = (BRK_SIZE cfg + 4095) div 4096 in
     stat_page (node_head ms) = replicate n v @ replicate (HEAP_SIZE cfg div 4096 - n) 0)"
  by (rule k_mem_init_spec [OF assms])

theorem k_mem_init_reserves_brk_witness:
  "\<exists>ms. k_mem_init riscv_qemu_virt_64 0 0x80100000 (mem_static riscv_qemu_virt_64) = Some (0, ms) \<and>
    mem_inv ms \<and> brk_top ms = 0x80100000"
  using k_mem_init_reserves_brk [where cfg = riscv_qemu_virt_64 and area = "0x80100000" and hart = 0] valid_config_riscv_qemu_virt_64
  by (auto simp: riscv_qemu_virt_64_def)

lemma used_mark_last:
  assumes "free_run st p n" "p + n < length st" "st ! (p + n) \<noteq> 0" "v \<noteq> 0"
  shows "used (mark st p (Suc n) v) = used st + n"
proof -
  have "used st = used (take p st) + used (take (Suc n) (drop p st)) + used (drop (p + Suc n) st)"
    by (rule used_split) (use assms(2) in simp)
  moreover have "take (Suc n) (drop p st) = replicate n 0 @ [st ! (p + n)]"
    using free_run_segment [OF assms(1)] assms(2) by (simp add: take_Suc_conv_app_nth)
  ultimately show ?thesis using assms(3,4) by (simp add: mark_def used_def)
qed

text \<open>
  C6. The allocator hands out pages twice.  Let an allocation of two pages or more return page \<open>p\<close>, from a
  heap in its invariant and with a length that does not wrap.  The last page of the area was not looked at: the invariant holds
  afterwards exactly when that page was free.  When it was in use the new owner gets it too, its flag is
  overwritten and the count of used pages is one more than the number of marked pages.
\<close>

theorem k_mem_alloc_overlap:
  assumes "mem_inv ms" "k_mem_alloc_pages hart ms len = Some (int p, ms')"
    and "unat len + 4095 < 2 ^ 64" "n = (unat len + 4095) div 4096" "2 \<le> n"
  shows "(mem_inv ms' \<longleftrightarrow> stat_page (node_head ms) ! (p + n - 1) = 0) \<and>
    (stat_page (node_head ms) ! (p + n - 1) \<noteq> 0 \<longrightarrow>
       stat_page (node_head ms') ! (p + n - 1) = ucast (dbg_heap_num ms) \<and>
       unat (page_use (node_head ms')) = used (stat_page (node_head ms')) + 1)"
proof -
  let ?st = "stat_page (node_head ms)" and ?v = "ucast (dbg_heap_num ms) :: u8"
  have inv: "wf_node (node_head ms)" "unlocked (mn_lock (node_head ms))" "?v \<noteq> 0" using assms(1) by (simp_all add: mem_inv_def)
  have len: "length ?st = unat (page_total (node_head ms))" using inv(1) by (simp add: wf_node_def)
  have nz: "len \<noteq> 0" using assms(4,5) by auto
  have fit: "free_run ?st p (n - 1)" "p + n \<le> length ?st" and ms': "ms' = mem_alloc_ref ms p n"
    using assms(2,5) mem_alloc_pages_spec [OF inv(1,2) nz, of hart] req_pages_ceil [OF assms(3)] len
    by (auto simp: Let_def assms(4) [symmetric] find_Some_first split: if_splits option.splits)
  show ?thesis
  proof (cases "?st ! (p + n - 1) = 0")
    case True
    moreover have "q = p + n - 1 \<or> q < p + (n - 1)" if "q < p + n" for q using that assms(5) by linarith
    ultimately have "free_run ?st p n" using fit by (fastforce simp: free_run_def)
    then show ?thesis using mem_inv_alloc [OF assms(1)] ms' True by simp
  next
    case False
    obtain m where m: "n = Suc m" using assms(5) by (cases n) auto
    have u: "used (stat_page (node_head ms')) = used ?st + m"
      using used_mark_last [of ?st p m ?v] fit False inv(3) m by (simp add: ms' mem_alloc_ref_def Let_def)
    have "used ?st + m \<le> length ?st" using used_le [of "stat_page (node_head ms')"] u fit(2) by (simp add: ms' mem_alloc_ref_def Let_def m)
    moreover have "length ?st < 2 ^ 52" using inv(1) len by (simp add: wf_node_def)
    moreover have "page_use (node_head ms') = of_nat (used ?st + n)" using inv(1) by (simp add: ms' mem_alloc_ref_def Let_def wf_node_def)
    ultimately have pu: "unat (page_use (node_head ms')) = used ?st + n"
      by (simp add: m unat_of_nat take_bit_nat_eq_self_iff del: of_nat_add of_nat_Suc)
    have "\<not> wf_node (node_head ms')"
    proof
      assume "wf_node (node_head ms')"
      then have "page_use (node_head ms') = of_nat (used ?st + m)" by (simp add: wf_node_def u)
      then show False using pu \<open>used ?st + m \<le> length ?st\<close> \<open>length ?st < 2 ^ 52\<close>
        by (simp add: m unat_of_nat take_bit_nat_eq_self_iff del: of_nat_add)
    qed
    then show ?thesis
      using False u pu fit(2) by (simp add: mem_inv_def ms' mem_alloc_ref_def Let_def mark_nth m)
  qed
qed

theorem k_mem_alloc_overlap_witness:
  "\<exists>ms'. k_mem_alloc_pages 0 (example_mem [0, 1, 0, 0]) 8192 = Some (int 0, ms') \<and> \<not> mem_inv ms'"
proof -
  have inv: "mem_inv (example_mem [0, 1, 0, 0])" using mem_inv_example [of "[0, 1, 0, 0]"] by simp
  have st: "stat_page (node_head (example_mem [0, 1, 0, 0])) = [0, 1, 0, 0]" "unat (page_total (node_head (example_mem [0, 1, 0, 0]))) = 4"
    by (simp_all add: example_mem_def example_node_def)
  have run: "find (\<lambda>p. free_run [0, 1, 0, 0] p (Suc 0)) [0..<4] = Some 0" "used [0, 1, 0, 0] = 1" "req_pages 8192 = 2"
    by (simp_all add: upt_rec free_run_one used_def req_pages_wrap)
  have alloc: "k_mem_alloc_pages 0 (example_mem [0, 1, 0, 0]) 8192 = Some (int 0, mem_alloc_ref (example_mem [0, 1, 0, 0]) 0 2)"
    using inv by (subst mem_alloc_pages_spec) (simp_all add: mem_inv_def st run Let_def)
  have "\<not> mem_inv (mem_alloc_ref (example_mem [0, 1, 0, 0]) 0 2)"
  proof -
    have "unat (8192 :: u64) + 4095 < 2 ^ 64" "2 = (unat (8192 :: u64) + 4095) div 4096" "2 \<le> (2 :: nat)" by simp_all
    from k_mem_alloc_overlap [OF inv alloc this] show ?thesis unfolding st by simp
  qed
  then show ?thesis using alloc by blast
qed

subsection \<open>Release\<close>

lemma pages_allocated_spec:
  "pages_allocated m p n =
    (if n = 0 \<or> p + n \<le> length (stat_page m) then Some (\<forall>q \<in> {p..<p + n}. stat_page m ! q \<noteq> 0) else None)"
proof (induction n arbitrary: p)
  case (Suc n)
  have "{p..<p + Suc n} = insert p {Suc p..<Suc p + n}" by auto
  then show ?case
    by (auto simp: Suc k_mem_node_get_page_stat_def)
qed simp

lemma and_4095: "(x :: u64) AND 4095 = x mod 4096"
proof -
  have "(4095 :: u64) = mask 12" by (simp add: mask_eq_exp_minus_1)
  then have "x AND 4095 = take_bit 12 x" by (simp only: take_bit_eq_mask)
  then show ?thesis by (simp add: take_bit_eq_mod)
qed

lemma page_range_start:
  assumes "p < 2 ^ 52"
  shows "page_range m (vaddr m + of_nat (p * 4096)) len = (of_nat p, len div 4096)"
proof -
  let ?o = "of_nat (p * 4096) :: u64"
  have u: "unat ?o = p * 4096"
    using assms by (simp only: unat_of_nat take_bit_nat_eq_self_iff) simp
  have "?o mod 4096 = 0"
    using u by (simp only: word_arith_nat_mod) simp
  moreover have "?o div 4096 = of_nat p"
    using u by (simp only: word_arith_nat_div) simp
  ultimately show ?thesis
    by (simp add: page_range_def k_mem_node_get_pagesize_def and_4095 Let_def)
qed

lemma wf_node_bounds:
  assumes "wf_node m" "p < unat (page_total m)"
  shows "p < 2 ^ 52" "\<not> out_of_node m (vaddr m + of_nat (p * 4096))"
proof -
  have b: "unat (vaddr m) + unat (page_total m) * 4096 < 2 ^ 64" and sz: "mn_size m = page_total m * 4096"
    using assms(1) by (auto simp: wf_node_def)
  show "p < 2 ^ 52" using b assms(2) by simp
  have o: "unat (of_nat (p * 4096) :: u64) = p * 4096"
    using b assms(2) by (simp only: unat_of_nat take_bit_nat_eq_self_iff) simp
  have s: "unat (mn_size m) = unat (page_total m) * 4096"
    using b unat_mult_lem [of "page_total m" 4096] unfolding sz by simp
  have "unat (vaddr m + of_nat (p * 4096)) = unat (vaddr m) + p * 4096"
    "unat (vaddr m + mn_size m) = unat (vaddr m) + unat (page_total m) * 4096"
    using unat_add_lem [of "vaddr m" "of_nat (p * 4096)"] unat_add_lem [of "vaddr m" "mn_size m"] b o s assms(2)
    by simp_all
  then show "\<not> out_of_node m (vaddr m + of_nat (p * 4096))"
    using assms(2) by (simp add: out_of_node_def word_le_nat_alt word_less_nat_alt)
qed

lemma free_pages_spec:
  assumes "wf_node m" "p < unat (page_total m)" "p + unat len div 4096 \<le> unat (page_total m)" "len \<noteq> 0"
  shows "k_mem_node_free_pages_nolock m (vaddr m + of_nat (p * 4096)) len =
    Some (0, m\<lparr>stat_page := mark (stat_page m) p (unat len div 4096) 0, page_use := page_use m - len div 4096\<rparr>)"
proof -
  have "unat (of_nat p :: u64) = p"
    using wf_node_bounds(1) [OF assms(1,2)] by (simp add: unat_of_nat take_bit_nat_eq_self_iff)
  moreover have "length (stat_page m) = unat (page_total m)"
    using assms(1) by (simp add: wf_node_def)
  ultimately show ?thesis
    using assms wf_node_bounds [OF assms(1,2)]
    by (simp add: k_mem_node_free_pages_nolock_def page_range_start pages_allocated_spec
        set_page_flag_mark unat_div del: of_nat_mult)
qed

lemma mem_free_pages_spec:
  assumes "mem_inv ms" "p < unat (page_total (node_head ms))"
    and "p + unat len div 4096 \<le> unat (page_total (node_head ms))" "len \<noteq> 0"
  shows "k_mem_free_pages hart ms (k_mem_heap_area_start ms + of_nat (p * 4096)) len =
    Some (0, ms\<lparr>node_head := (node_head ms)\<lparr>mn_lock := released,
      stat_page := mark (stat_page (node_head ms)) p (unat len div 4096) 0,
      page_use := page_use (node_head ms) - len div 4096\<rparr>\<rparr>)"
  using assms free_pages_spec [of "(node_head ms)\<lparr>mn_lock := (mn_lock (node_head ms))\<lparr>lock_val := 1, lock_id := hart\<rparr>\<rparr>" p len]
  by (simp add: mem_inv_def k_mem_free_pages_def k_mem_node_lock_def k_mem_node_unlock_def
      k_mem_heap_area_start_def lock_defs del: of_nat_mult)

lemma ceil_page: "(x + 4095) div 4096 = (if x mod 4096 = 0 then x div 4096 else Suc (x div 4096))"
  for x :: nat
proof -
  have "x + 4095 = (x mod 4096 + 4095) + x div 4096 * 4096"
    by simp
  then have "(x + 4095) div 4096 = x div 4096 + (x mod 4096 + 4095) div 4096"
    by (metis div_mult_self1 add.commute zero_neq_numeral)
  moreover have "(x mod 4096 + 4095) div 4096 = (if x mod 4096 = 0 then 0 else 1)"
    using mod_less_divisor [of 4096 x] by (auto intro: div_nat_eqI)
  ultimately show ?thesis by simp
qed

lemma mark_partial:
  assumes "free_run st p (Suc n)"
  shows "mark (mark st p (Suc n) v) p n 0 = st[p + n := v]"
  using assms by (intro nth_equalityI) (auto simp: mark_nth free_run_def nth_list_update)

lemma mem_free_pages_restores:
  assumes "mem_inv ms" "k_mem_alloc_pages hart ms len = Some (int p, ms1)"
    and "len \<noteq> 0" "unat len + 4095 < 2 ^ 64"
    and "free_run (stat_page (node_head ms)) p ((unat len + 4095) div 4096)"
  shows "\<exists>ms2. k_mem_free_pages hart ms1 (k_mem_heap_area_start ms1 + of_nat (p * 4096)) len = Some (0, ms2) \<and>
    (if unat len mod 4096 = 0
     then stat_page (node_head ms2) = stat_page (node_head ms) \<and>
       page_use (node_head ms2) = page_use (node_head ms) \<and> mem_inv ms2
     else \<exists>v. v \<noteq> 0 \<and>
       stat_page (node_head ms2) = (stat_page (node_head ms))[p + unat len div 4096 := v])"
proof -
  let ?st = "stat_page (node_head ms)" and ?v = "ucast (dbg_heap_num ms) :: u8"
  let ?n = "unat len div 4096" and ?r = "(unat len + 4095) div 4096"
  have req: "req_pages len = ?r" using assms(4) by (rule req_pages_ceil)
  have wf: "wf_node (node_head ms)" and lock: "unlocked (mn_lock (node_head ms))" and v: "?v \<noteq> 0"
    using assms(1) by (auto simp: mem_inv_def)
  have len0: "0 < unat len" using assms(3) by (simp add: unat_gt_0)
  have ms1: "ms1 = mem_alloc_ref ms p ?r"
    using assms(2,3) mem_alloc_pages_spec [OF wf lock, of len hart] req len0
    by (auto simp: Let_def split: if_splits option.splits)
  have inv1: "mem_inv ms1"
    using mem_inv_alloc [OF assms(1,5)] ms1 by simp
  have pr: "p + ?r \<le> length ?st" "length ?st = unat (page_total (node_head ms1))"
    using assms(5) wf ms1 by (auto simp: free_run_def wf_node_def)
  have nr: "?n \<le> ?r" by (simp add: ceil_page)
  have p: "p < unat (page_total (node_head ms1))" using pr len0 by linarith
  let ?ms2 = "ms1\<lparr>node_head := (node_head ms1)\<lparr>mn_lock := released,
      stat_page := mark (stat_page (node_head ms1)) p ?n 0,
      page_use := page_use (node_head ms1) - len div 4096\<rparr>\<rparr>"
  have free: "k_mem_free_pages hart ms1 (k_mem_heap_area_start ms1 + of_nat (p * 4096)) len = Some (0, ?ms2)"
    using pr nr by (intro mem_free_pages_spec [OF inv1 p]) (auto simp: assms(3))
  have st1: "stat_page (node_head ms1) = mark ?st p ?r ?v"
    and use1: "page_use (node_head ms1) = page_use (node_head ms) + of_nat ?r"
    by (simp_all add: ms1 mem_alloc_ref_def Let_def)
  have "of_nat (unat (len div 4096)) = len div 4096" by simp
  then have n_word: "len div 4096 = of_nat ?n" by (simp add: unat_div)
  show ?thesis
  proof (cases "unat len mod 4096 = 0")
    case True
    then have eq: "?r = ?n" by (simp add: ceil_page)
    have st2: "stat_page (node_head ?ms2) = ?st"
      using st1 eq pr(1) assms(5) by (simp add: mark_mark mark_zero_free)
    have use2: "page_use (node_head ?ms2) = page_use (node_head ms)"
      using use1 eq n_word by simp
    have "mem_inv ?ms2"
      using inv1 assms(1) st2 use2 by (simp add: mem_inv_def wf_node_def unlocked_def ms1)
    with True free st2 use2 show ?thesis by auto
  next
    case False
    then have eq: "?r = Suc ?n" by (simp add: ceil_page)
    have "stat_page (node_head ?ms2) = ?st[p + ?n := ?v]"
      using st1 eq mark_partial [of ?st p ?n ?v] assms(5) by simp
    with False free v show ?thesis by auto
  qed
qed

text \<open>
  C5. Releasing an area. Let an allocation of \<open>len\<close> bytes, not 0 and without overflow when
  it is rounded up, return page \<open>p\<close>, all its pages free before. Releasing it with the same
  length returns 0. When \<open>len\<close> is a multiple of the page size all flags and the count of
  used pages are as before the allocation and the invariant holds. When it is not, the number of pages
  is rounded down: the last page of the area stays marked.
\<close>

theorem k_mem_free_pages_restores:
  assumes "mem_inv ms" "k_mem_alloc_pages hart ms len = Some (int p, ms1)"
    and "len \<noteq> 0" "unat len + 4095 < 2 ^ 64"
    and "free_run (stat_page (node_head ms)) p ((unat len + 4095) div 4096)"
  shows "\<exists>ms2. k_mem_free_pages hart ms1 (k_mem_heap_area_start ms1 + of_nat (p * 4096)) len = Some (0, ms2) \<and>
    (if unat len mod 4096 = 0
     then stat_page (node_head ms2) = stat_page (node_head ms) \<and>
       page_use (node_head ms2) = page_use (node_head ms) \<and> mem_inv ms2
     else \<exists>v. v \<noteq> 0 \<and>
       stat_page (node_head ms2) = (stat_page (node_head ms))[p + unat len div 4096 := v])"
  using assms by (rule mem_free_pages_restores)

theorem k_mem_free_pages_restores_witness:
  "\<exists>ms1 ms2. k_mem_alloc_pages 0 (example_mem [0, 0, 0]) 8192 = Some (int 0, ms1) \<and>
    k_mem_free_pages 0 ms1 (k_mem_heap_area_start ms1 + of_nat (0 * 4096)) 8192 = Some (0, ms2) \<and>
    stat_page (node_head ms2) = [0, 0, 0]"
proof -
  let ?ms = "example_mem [0, 0, 0]"
  have inv: "mem_inv ?ms" by (simp add: mem_inv_example)
  have st: "stat_page (node_head ?ms) = [] @ replicate 3 0"
    by (simp add: example_mem_def example_node_def numeral_3_eq_3)
  have req: "req_pages 8192 = 2" by (subst req_pages_ceil) simp_all
  obtain ms1 where a: "k_mem_alloc_pages 0 ?ms 8192 = Some (int 0, ms1)"
    using alloc_contiguous(1) [OF inv st, of 8192 0] req by simp
  have "free_run (stat_page (node_head ?ms)) 0 ((unat (8192 :: u64) + 4095) div 4096)"
    unfolding st by (auto simp: free_run_def)
  from k_mem_free_pages_restores [OF inv a _ _ this] st a show ?thesis
    by (auto simp: numeral_3_eq_3)
qed

end
