(* ===== verification/Mmap.thy ===== *)
theory Mmap
  imports Memory
begin

section \<open>Memory system calls\<close>

text \<open>
  The system calls of \<^verbatim>\<open>sys/syscall.c\<close> on the heap: \<open>brk\<close>, \<open>mmap\<close>, \<open>munmap\<close>, \<open>madvise\<close> and
  \<open>mprotect\<close>.  They act on the allocator's state and on the byte memory.  The result is the
  64-bit pattern of the C type \<open>intptr_t\<close>, an address or a negated error number.
\<close>

definition sys_error :: "int \<Rightarrow> u64" where
  "sys_error e = of_int e"

definition k_sys_brk :: "kconfig \<Rightarrow> int \<Rightarrow> memory \<Rightarrow> mem_state \<Rightarrow> u64 \<Rightarrow> (u64 \<times> memory \<times> mem_state) option" where
  "k_sys_brk cfg hart mem ms addr =
     (let cur = k_mem_brk_get_cur ms in do {
        ms \<leftarrow> k_mem_brk_lock hart ms;
        if addr = 0 then Some (cur, mem, k_mem_brk_unlock ms)
        else if addr < k_mem_brk_start ms \<or> k_mem_brk_end cfg ms < addr
        then Some (sys_error (- ENOMEM), mem, k_mem_brk_unlock ms)
        else
          let mem =
            (if addr > cur then snd (k_memset mem cur 0 (addr - cur))
             else if BRK_CLEAR_AT_SHRINK cfg then snd (k_memset mem addr 0 (cur - addr))
             else mem)
          in Some (addr, mem, k_mem_brk_unlock (k_mem_brk_set_cur ms addr))
      })"

abbreviation (input) MAP_ANONYMOUS :: u32 where "MAP_ANONYMOUS \<equiv> 0x0002"
abbreviation (input) MAP_PRIVATE :: u32 where "MAP_PRIVATE \<equiv> 0x0000"
abbreviation (input) MAP_STACK :: u32 where "MAP_STACK \<equiv> 0x20000"

definition k_sys_mmap ::
    "int \<Rightarrow> memory \<Rightarrow> mem_state \<Rightarrow> u64 \<Rightarrow> u32 \<Rightarrow> int \<Rightarrow> int \<Rightarrow> (u64 \<times> memory \<times> mem_state) option" where
  "k_sys_mmap hart mem ms len0 flags fd offset =
     (let flags_req = MAP_PRIVATE OR MAP_ANONYMOUS;
          len = (if len0 = 0 then 4 else len0);
          flags = flags AND NOT MAP_STACK
      in if flags AND flags_req \<noteq> flags_req \<or> fd \<noteq> - 1 \<or> offset \<noteq> 0
      then Some (sys_error (- EINVAL), mem, ms)
      else do {
        (r, ms) \<leftarrow> k_mem_alloc_pages hart ms len;
        let off_page = (of_int r :: u64) in
        if off_page < 0 then Some (sys_error (- ENOMEM), mem, ms)
        else
          let anon_ptr = k_mem_heap_area_start ms + off_page * of_nat PAGE_SIZE
          in Some (anon_ptr, snd (k_memset mem anon_ptr 0 len), ms)
      })"

definition k_sys_munmap :: "int \<Rightarrow> mem_state \<Rightarrow> u64 \<Rightarrow> u64 \<Rightarrow> (u64 \<times> mem_state) option" where
  "k_sys_munmap hart ms addr len0 =
     (if addr < k_mem_heap_area_start ms \<or> k_mem_heap_area_end ms < addr + len0
      then Some (sys_error (- EINVAL), ms)
      else do { (r, ms) \<leftarrow> k_mem_free_pages hart ms addr len0; Some (0, ms) })"

abbreviation (input) MADV_DONTNEED :: int where "MADV_DONTNEED \<equiv> 4"

definition k_sys_madvise ::
    "int \<Rightarrow> memory \<Rightarrow> mem_state \<Rightarrow> u64 \<Rightarrow> u64 \<Rightarrow> int \<Rightarrow> (u64 \<times> memory \<times> mem_state) option" where
  "k_sys_madvise hart mem ms addr len0 advice =
     (if advice = MADV_DONTNEED then do {
        (r, ms) \<leftarrow> k_mem_check_pages hart ms addr len0;
        if r \<noteq> 0 then Some (sys_error r, mem, ms)
        else Some (0, snd (k_memset mem addr (ucast len0) 0), ms)
      } else Some (sys_error (- EINVAL), mem, ms))"

definition k_sys_mprotect :: "u64 \<Rightarrow> u64 \<Rightarrow> int \<Rightarrow> u64" where
  "k_sys_mprotect addr len0 prot = 0"

text \<open>The program break lies in its area, which does not wrap around.\<close>

definition brk_inv :: "kconfig \<Rightarrow> mem_state \<Rightarrow> bool" where
  "brk_inv cfg ms \<longleftrightarrow> unlocked (lock_brk ms) \<and> unat (brk_top ms) + BRK_SIZE cfg < 2 ^ 64 \<and>
     brk_top ms \<le> brk_cur ms \<and> brk_cur ms \<le> k_mem_brk_end cfg ms"

subsection \<open>brk\<close>

lemma word_range_iff:
  fixes a c d :: u64
  assumes "c \<le> d"
  shows "unat (a - c) < unat (d - c) \<longleftrightarrow> c \<le> a \<and> a < d"
proof -
  have "unat (d - c) = unat d - unat c"
    using assms by (simp add: unat_sub word_le_nat_alt)
  moreover have "unat a < 2 ^ 64" "unat c < 2 ^ 64" "unat d < 2 ^ 64"
    using unsigned_less [of a, where 'a = nat] unsigned_less [of c, where 'a = nat]
      unsigned_less [of d, where 'a = nat] by simp_all
  ultimately show ?thesis
    using assms by (auto simp: unat_sub_if_size word_size word_le_nat_alt word_less_nat_alt)
qed

lemma k_memset_range:
  "c \<le> d \<Longrightarrow> snd (k_memset mem c b (d - c)) = (\<lambda>a. if c \<le> a \<and> a < d then ucast b else mem a)"
  by (simp add: k_memset_spec word_range_iff)

text \<open>
  C7. The program break.  In its invariant \<open>brk\<close> returns the current break for the address 0 and
  fails with \<open>-ENOMEM\<close> and no effect for an address outside the brk area.  For any other address it
  returns that address, the break is there, the bytes between the old and the new break are 0
  (when growing, and when shrinking in the builds that clear then) and every other byte of memory
  is as before.  The invariant holds afterwards and the lock is free.
\<close>

theorem k_sys_brk_correct:
  assumes "brk_inv cfg ms"
  shows "\<exists>ms'. brk_inv cfg ms' \<and> node_head ms' = node_head ms \<and> brk_top ms' = brk_top ms \<and>
    (if addr = 0 then k_sys_brk cfg hart mem ms addr = Some (brk_cur ms, mem, ms') \<and> brk_cur ms' = brk_cur ms
     else if addr < brk_top ms \<or> k_mem_brk_end cfg ms < addr
     then k_sys_brk cfg hart mem ms addr = Some (- 12, mem, ms') \<and> brk_cur ms' = brk_cur ms
     else brk_cur ms' = addr \<and> k_sys_brk cfg hart mem ms addr = Some (addr,
       (\<lambda>a. if brk_cur ms \<le> a \<and> a < addr \<or>
               BRK_CLEAR_AT_SHRINK cfg \<and> addr \<le> a \<and> a < brk_cur ms then 0 else mem a), ms'))"
proof -
  let ?ms = "k_mem_brk_unlock (ms\<lparr>lock_brk := (lock_brk ms)\<lparr>lock_val := 1, lock_id := hart\<rparr>\<rparr>)"
  have unl: "unlocked (lock_brk ms)" using assms by (simp add: brk_inv_def)
  have lock: "k_mem_brk_lock hart ms = Some (ms\<lparr>lock_brk := (lock_brk ms)\<lparr>lock_val := 1, lock_id := hart\<rparr>\<rparr>)"
    using unl by (simp add: k_mem_brk_lock_def)
  note defs = k_sys_brk_def lock k_mem_brk_get_cur_def k_mem_brk_start_def k_mem_brk_end_def
    k_mem_brk_unlock_def k_mem_brk_set_cur_def Let_def sys_error_def
  show ?thesis
  proof (cases "addr = 0 \<or> addr < brk_top ms \<or> k_mem_brk_end cfg ms < addr")
    case True
    with assms show ?thesis
      by (intro exI [of _ ?ms]) (auto simp: defs brk_inv_def)
  next
    case False
    let ?ms' = "?ms\<lparr>brk_cur := addr\<rparr>"
    have "brk_inv cfg ?ms'"
      using False assms by (auto simp: brk_inv_def defs not_less)
    moreover have "(if addr > brk_cur ms then snd (k_memset mem (brk_cur ms) 0 (addr - brk_cur ms))
        else if BRK_CLEAR_AT_SHRINK cfg then snd (k_memset mem addr 0 (brk_cur ms - addr)) else mem) =
      (\<lambda>a. if brk_cur ms \<le> a \<and> a < addr \<or>
               BRK_CLEAR_AT_SHRINK cfg \<and> addr \<le> a \<and> a < brk_cur ms then 0 else mem a)"
      by (auto simp: k_memset_range fun_eq_iff not_less)
    ultimately show ?thesis
      using False by (intro exI [of _ ?ms']) (auto simp: defs)
  qed
qed

theorem k_sys_brk_correct_witness:
  "\<exists>ms'. brk_cur ms' = 0x2000 \<and>
    k_sys_brk riscv_qemu_virt_64 0 (\<lambda>_. 7) (example_mem []\<lparr>brk_top := 0x1000, brk_cur := 0x1000\<rparr>) 0x2000 =
      Some (0x2000, \<lambda>a. if 0x1000 \<le> a \<and> a < 0x2000 \<or>
        BRK_CLEAR_AT_SHRINK riscv_qemu_virt_64 \<and> 0x2000 \<le> a \<and> a < 0x1000 then 0 else 7, ms')"
  using k_sys_brk_correct [where cfg = riscv_qemu_virt_64 and addr = "0x2000" and hart = 0 and
      mem = "\<lambda>_. 7" and ms = "example_mem []\<lparr>brk_top := 0x1000, brk_cur := 0x1000\<rparr>"]
  by (auto simp: brk_inv_def riscv_qemu_virt_64_def example_mem_def k_mem_brk_end_def)

subsection \<open>mmap, munmap and madvise\<close>

definition map_anonymous :: "u32 \<Rightarrow> int \<Rightarrow> int \<Rightarrow> bool" where
  "map_anonymous flags fd offset \<longleftrightarrow> flags AND 2 = 2 \<and> fd = - 1 \<and> offset = 0"

lemma mmap_flags: "(flags AND NOT 0x20000) AND (0x0000 OR 0x0002) = (flags AND 2 :: u32)"
proof -
  have "(NOT 0x20000 :: u32) AND 2 = 2" by simp
  then show ?thesis by (simp only: and.assoc or.left_neutral)
qed

lemma mmap_alloc:
  assumes "map_anonymous flags fd offset" "k_mem_alloc_pages hart ms len = Some (r, ms')" "len \<noteq> 0"
  shows "k_sys_mmap hart mem ms len flags fd offset =
    (let ptr = k_mem_heap_area_start ms' + of_int r * 4096 in
     Some (ptr, \<lambda>a. if unat (a - ptr) < unat len then 0 else mem a, ms'))"
  using assms unfolding k_sys_mmap_def Let_def mmap_flags
  by (simp add: map_anonymous_def k_memset_spec cong: if_cong)

lemma node_end:
  assumes "wf_node m" "p + n \<le> unat (page_total m)"
  shows "unat (vaddr m + of_nat (p * 4096) + of_nat (n * 4096)) = unat (vaddr m) + (p + n) * 4096"
    and "unat (vaddr m + mn_size m) = unat (vaddr m) + unat (page_total m) * 4096"
proof -
  have b: "unat (vaddr m) + unat (page_total m) * 4096 < 2 ^ 64" and sz: "mn_size m = page_total m * 4096"
    using assms(1) by (auto simp: wf_node_def)
  have o: "unat (of_nat ((p + n) * 4096) :: u64) = (p + n) * 4096"
    using b assms(2) by (simp only: unat_of_nat take_bit_nat_eq_self_iff) simp
  have "unat (vaddr m + of_nat ((p + n) * 4096)) = unat (vaddr m) + (p + n) * 4096"
    using unat_add_lem [of "vaddr m" "of_nat ((p + n) * 4096)"] o b assms(2) by simp
  then show "unat (vaddr m + of_nat (p * 4096) + of_nat (n * 4096)) = unat (vaddr m) + (p + n) * 4096"
    by (simp add: algebra_simps)
  have "unat (mn_size m) = unat (page_total m) * 4096"
    using b unat_mult_lem [of "page_total m" 4096] unfolding sz by simp
  then show "unat (vaddr m + mn_size m) = unat (vaddr m) + unat (page_total m) * 4096"
    using unat_add_lem [of "vaddr m" "mn_size m"] b by simp
qed

text \<open>
  C8. Mapping and unmapping on a heap whose used pages lie below its free ones.  An anonymous
  mapping of whole pages that fits returns the address behind the used pages; the mapped bytes
  are 0 and no other byte changes.  Unmapping it returns 0 and the flags of the heap are again
  those before the mapping.
\<close>

theorem k_sys_mmap_munmap:
  assumes "mem_inv ms" "stat_page (node_head ms) = xs @ replicate f 0" "\<forall>b \<in> set xs. b \<noteq> 0"
    and "map_anonymous flags fd offset" "len \<noteq> 0" "unat len mod 4096 = 0" "unat len div 4096 \<le> f"
  shows "\<exists>ptr ms1 ms2. ptr = k_mem_heap_area_start ms + of_nat (length xs) * 4096 \<and>
    k_sys_mmap hart mem ms len flags fd offset =
      Some (ptr, \<lambda>a. if unat (a - ptr) < unat len then 0 else mem a, ms1) \<and>
    k_sys_munmap hart ms1 ptr len = Some (0, ms2) \<and>
    stat_page (node_head ms2) = stat_page (node_head ms) \<and> mem_inv ms1 \<and> mem_inv ms2"
proof -
  let ?p = "length xs" and ?n = "unat len div 4096"
  let ?ptr = "k_mem_heap_area_start ms + of_nat (?p * 4096)"
  have wf: "wf_node (node_head ms)" and tot: "unat (page_total (node_head ms)) = ?p + f"
    using assms(1,2) by (auto simp: mem_inv_def wf_node_def)
  have n: "?n * 4096 = unat len" using div_mult_mod_eq [of "unat len" 4096] assms(6) by simp
  have "?n < 2 ^ 52" using n unsigned_less [of len, where 'a = nat] by simp
  then have lenb: "unat len + 4095 < 2 ^ 64" using n by simp
  have ceil: "(unat len + 4095) div 4096 = ?n" using assms(6) by (simp add: ceil_page)
  have req: "req_pages len = ?n" using req_pages_ceil [OF lenb] ceil by simp
  have n1: "1 \<le> ?n" using n assms(5) by (cases "?n = 0") (auto simp: unat_eq_0)
  note alloc = alloc_contiguous [OF assms(1-3,5), unfolded req, OF n1 assms(7)]
  let ?ms1 = "mem_alloc_ref ms ?p ?n"
  have a: "k_mem_alloc_pages hart ms len = Some (int ?p, ?ms1)" by (rule alloc(1))
  have start: "k_mem_heap_area_start ?ms1 = k_mem_heap_area_start ms"
    by (simp add: k_mem_heap_area_start_def)
  have "free_run (stat_page (node_head ms)) ?p ((unat len + 4095) div 4096)"
    unfolding ceil assms(2) using free_run_suffix(1) [OF assms(3) n1 assms(7)] .
  from mem_free_pages_restores [OF assms(1) a assms(5) lenb this] obtain ms2
    where free: "k_mem_free_pages hart ?ms1 ?ptr len = Some (0, ms2)"
      "stat_page (node_head ms2) = stat_page (node_head ms)" "mem_inv ms2"
    using assms(6) start by (auto simp del: of_nat_mult)
  have "?ptr + len = vaddr (node_head ms) + of_nat (?p * 4096) + of_nat (?n * 4096)"
    unfolding n by (simp add: k_mem_heap_area_start_def)
  then have "unat (?ptr + len) = unat (vaddr (node_head ms)) + (?p + ?n) * 4096"
    "unat ?ptr = unat (vaddr (node_head ms)) + ?p * 4096"
    using node_end(1) [OF wf, of ?p ?n] node_end(1) [OF wf, of ?p 0] tot assms(7)
    by (simp_all add: k_mem_heap_area_start_def)
  then have "\<not> ?ptr < k_mem_heap_area_start ?ms1" "\<not> k_mem_heap_area_end ?ms1 < ?ptr + len"
    using node_end(2) [OF wf, of 0 0] tot assms(7)
    by (simp_all add: word_less_nat_alt k_mem_heap_area_start_def k_mem_heap_area_end_def)
  then have "k_sys_munmap hart ?ms1 ?ptr len = Some (0, ms2)"
    using free(1) by (simp add: k_sys_munmap_def del: of_nat_mult)
  with free mmap_alloc [OF assms(4) a assms(5), of mem] alloc(2) start show ?thesis
    by (auto simp: Let_def)
qed

theorem k_sys_mmap_munmap_witness:
  "\<exists>ptr ms1 ms2. ptr = 0x2000 \<and>
    k_sys_mmap 0 (\<lambda>_. 7) (example_mem [3, 0, 0]) 8192 0x22 (- 1) 0 =
      Some (ptr, \<lambda>a. if unat (a - ptr) < unat (8192 :: u64) then 0 else 7, ms1) \<and>
    k_sys_munmap 0 ms1 ptr 8192 = Some (0, ms2) \<and> stat_page (node_head ms2) = [3, 0, 0]"
proof -
  have st: "stat_page (node_head (example_mem [3, 0, 0])) = [3] @ replicate (Suc (Suc 0)) 0"
    by (simp add: example_mem_def example_node_def)
  have start: "k_mem_heap_area_start (example_mem [3, 0, 0]) = 0x1000"
    by (simp add: k_mem_heap_area_start_def example_mem_def example_node_def)
  have flags: "map_anonymous 0x22 (- 1) 0" by (simp add: map_anonymous_def)
  show ?thesis
    using k_sys_mmap_munmap [OF mem_inv_example st _ flags, of 8192 0 "\<lambda>_. 7"] start st by auto
qed

text \<open>
  A mapping that does not fit is reported as a success.  The page number is held in an
  unsigned variable, so the test for an error never holds: when the request exceeds the free pages
  \<open>mmap\<close> returns the address 12 pages below the heap instead of \<open>-ENOMEM\<close>, and clears the memory
  there.
\<close>

theorem k_sys_mmap_enomem_ignored:
  assumes "mem_inv ms" "map_anonymous flags fd offset" "len \<noteq> 0"
    and "unat (page_total (node_head ms)) - used (stat_page (node_head ms)) < req_pages len"
  shows "k_sys_mmap hart mem ms len flags fd offset =
    (let ptr = k_mem_heap_area_start ms - 12 * 4096 in
     Some (ptr, \<lambda>a. if unat (a - ptr) < unat len then 0 else mem a, mem_released ms))"
proof -
  have "k_mem_alloc_pages hart ms len = Some (- ENOMEM, mem_released ms)"
    using assms mem_alloc_pages_spec [of ms len hart] by (simp add: mem_inv_def Let_def)
  from mmap_alloc [OF assms(2) this assms(3), of mem] show ?thesis
    by (simp add: Let_def k_mem_heap_area_start_def)
qed

theorem k_sys_mmap_enomem_ignored_witness:
  "k_sys_mmap 0 (\<lambda>_. 7) (example_mem [3, 0, 4]) 8192 0x22 (- 1) 0 =
    (let ms = example_mem [3, 0, 4]; ptr = k_mem_heap_area_start ms - 12 * 4096 in
     Some (ptr, \<lambda>a. if unat (a - ptr) < unat (8192 :: u64) then 0 else 7, mem_released ms))"
proof -
  have "req_pages 8192 = 2" by (subst req_pages_ceil) simp_all
  moreover have "used (stat_page (node_head (example_mem [3, 0, 4]))) = 2"
    "unat (page_total (node_head (example_mem [3, 0, 4]))) = 3"
    by (simp_all add: example_mem_def example_node_def used_def)
  moreover have "mem_inv (example_mem [3, 0, 4])" by (simp add: mem_inv_example)
  moreover have "map_anonymous 0x22 (- 1) 0" by (simp add: map_anonymous_def)
  ultimately show ?thesis
    using k_sys_mmap_enomem_ignored [where ms = "example_mem [3, 0, 4]" and flags = "0x22" and fd = "- 1" and
        offset = 0 and len = 8192 and hart = 0 and mem = "\<lambda>_. 7"]
    by (simp add: Let_def)
qed

text \<open>
  \<open>madvise\<close> never clears memory.  The arguments of its \<open>k_memset\<close> are swapped (the length is
  passed as the fill byte and 0 as the length): whatever the advice, the address and the length,
  every byte of memory is as before, although \<open>MADV_DONTNEED\<close> on allocated pages returns 0.
\<close>

theorem k_sys_madvise_keeps_memory:
  "k_sys_madvise hart mem ms addr len advice = Some (r, mem', ms') \<Longrightarrow> mem' = mem"
  by (auto simp: k_sys_madvise_def k_memset_spec split: if_splits Option.bind_splits)

theorem k_sys_madvise_keeps_memory_witness:
  "\<exists>ms'. k_sys_madvise 0 (\<lambda>_. 7) (example_mem [3, 5]) 0x1000 4096 4 = Some (0, \<lambda>_. 7, ms')"
proof -
  let ?ms = "example_mem [3, 5]"
  have "k_mem_check_pages 0 ?ms 0x1000 4096 \<noteq> None \<and> map_option fst (k_mem_check_pages 0 ?ms 0x1000 4096) = Some 0"
    by code_simp
  then obtain ms' where c: "k_mem_check_pages 0 ?ms 0x1000 4096 = Some (0, ms')" by auto
  then obtain m where m: "k_sys_madvise 0 (\<lambda>_. 7) ?ms 0x1000 4096 4 = Some (0, m, ms')"
    by (simp add: k_sys_madvise_def)
  from k_sys_madvise_keeps_memory [OF this] m show ?thesis by blast
qed

end
