(* ===== verification/Event.thy ===== *)
theory Event
  imports Kbase "HOL-Library.Monad_Syntax"
begin

section \<open>Event handlers\<close>

text \<open>
  \<^verbatim>\<open>sys/event.c\<close> and \<^verbatim>\<open>include/bmetal/event.h\<close>.  Handlers are objects of a store, linked by
  \<open>hnd_next\<close>; pointers are natural numbers and NULL is \<open>None\<close>.  The addresses below the
  configured maximum are the elements of the array \<open>k_evt_handlers\<close>; the list heads inside the
  devices live at other addresses.  A walk over a list that is not terminated never returns, which
  is the value \<open>None\<close> of the walking functions.  The functions the handlers point to are
  not known here: a parameter \<open>call\<close> takes the function, the event, the handler and the state of
  the rest of the system and returns the result and the new state.
\<close>

type_synonym hptr = nat

record k_event_handler =
  eh_func :: nat
  eh_priv :: u64
  eh_event :: int
  hnd_next :: "hptr option"

type_synonym hstore = "hptr \<Rightarrow> k_event_handler"

record evt_state =
  evt_store :: hstore
  evt_stat :: "int list"

abbreviation (input) EVENT_HANDLED :: int where "EVENT_HANDLED \<equiv> 1"
abbreviation (input) EVENT_NOT_HANDLED :: int where "EVENT_NOT_HANDLED \<equiv> 2"

definition k_event_has_next :: "hstore \<Rightarrow> hptr \<Rightarrow> bool" where
  "k_event_has_next hs h \<longleftrightarrow> hnd_next (hs h) \<noteq> None"

subsection \<open>The pool of handlers\<close>

fun find_index :: "('a \<Rightarrow> bool) \<Rightarrow> 'a list \<Rightarrow> nat option" where
  "find_index P [] = None"
| "find_index P (x # xs) = (if P x then Some 0 else map_option Suc (find_index P xs))"

text \<open>The argument tells whether the pointer the handler is returned through is not NULL.\<close>

definition k_event_alloc_handler :: "evt_state \<Rightarrow> bool \<Rightarrow> int \<times> hptr option \<times> evt_state" where
  "k_event_alloc_handler s handler =
     (if \<not> handler then (- EINVAL, None, s)
      else case find_index (\<lambda>v. v = 0) (evt_stat s) of
        None \<Rightarrow> (- ENOMEM, None, s)
      | Some i \<Rightarrow> (0, Some i, s\<lparr>evt_stat := (evt_stat s)[i := 1]\<rparr>))"

definition k_event_free_handler :: "evt_state \<Rightarrow> hptr option \<Rightarrow> int \<times> evt_state" where
  "k_event_free_handler s handler =
     (case handler of
        None \<Rightarrow> (- EINVAL, s)
      | Some h \<Rightarrow>
          if h < length (evt_stat s) then (0, s\<lparr>evt_stat := (evt_stat s)[h := 0]\<rparr>)
          else (- EINVAL, s))"

subsection \<open>Lists of handlers\<close>

partial_function (option) last_handler :: "hstore \<Rightarrow> hptr \<Rightarrow> hptr option" where
  [code]: "last_handler hs h =
     (case hnd_next (hs h) of None \<Rightarrow> Some h | Some n \<Rightarrow> last_handler hs n)"

definition set_next :: "hstore \<Rightarrow> hptr \<Rightarrow> hptr option \<Rightarrow> hstore" where
  "set_next hs h n = hs(h := (hs h)\<lparr>hnd_next := n\<rparr>)"

definition k_event_add_handler :: "hstore \<Rightarrow> hptr option \<Rightarrow> hptr option \<Rightarrow> (int \<times> hstore) option" where
  "k_event_add_handler hs head handler =
     (case (head, handler) of
        (Some h0, Some h) \<Rightarrow> do {
          last \<leftarrow> last_handler hs h0;
          Some (0, set_next (set_next hs last (Some h)) h None)
        }
      | _ \<Rightarrow> Some (- EINVAL, hs))"

text \<open>The handler in front of the one to remove, \<open>Some None\<close> when the list has none.\<close>

partial_function (option) find_prev :: "hstore \<Rightarrow> hptr option \<Rightarrow> hptr \<Rightarrow> hptr option option" where
  [code]: "find_prev hs p handler =
     (case p of
        None \<Rightarrow> Some None
      | Some h \<Rightarrow>
          if hnd_next (hs h) = Some handler then Some (Some h)
          else find_prev hs (hnd_next (hs h)) handler)"

definition k_event_remove_handler :: "hstore \<Rightarrow> hptr option \<Rightarrow> hptr option \<Rightarrow> (int \<times> hstore) option" where
  "k_event_remove_handler hs head handler =
     (case (head, handler) of
        (Some h0, Some h) \<Rightarrow> do {
          found \<leftarrow> find_prev hs (Some h0) h;
          case found of
            None \<Rightarrow> Some (- EINVAL, hs)
          | Some prev \<Rightarrow> Some (0, set_next hs prev (hnd_next (hs h)))
        }
      | _ \<Rightarrow> Some (- EINVAL, hs))"

type_synonym 's handler_call = "nat \<Rightarrow> int \<Rightarrow> hptr \<Rightarrow> 's \<Rightarrow> int \<times> 's"

partial_function (option) handle_loop ::
    "'s handler_call \<Rightarrow> hstore \<Rightarrow> int \<Rightarrow> hptr option \<Rightarrow> int \<Rightarrow> 's \<Rightarrow> (int \<times> 's) option" where
  [code]: "handle_loop call hs event p res s =
     (case p of
        None \<Rightarrow> Some (res, s)
      | Some h \<Rightarrow>
          if eh_event (hs h) = event then
            (let (r, s) = call (eh_func (hs h)) event h s
             in handle_loop call hs event (hnd_next (hs h))
                  (if r = EVENT_HANDLED then EVENT_HANDLED else res) s)
          else handle_loop call hs event (hnd_next (hs h)) res s)"

definition k_event_handle_generic ::
    "'s handler_call \<Rightarrow> hstore \<Rightarrow> int \<Rightarrow> hptr option \<Rightarrow> 's \<Rightarrow> (int \<times> 's) option" where
  "k_event_handle_generic call hs event hnd_head s =
     handle_loop call hs event hnd_head EVENT_NOT_HANDLED s"

subsection \<open>Reference definitions\<close>

text \<open>A path of handlers from a pointer to another one, and the list that ends at NULL.\<close>

fun seg :: "hstore \<Rightarrow> hptr option \<Rightarrow> hptr list \<Rightarrow> hptr option \<Rightarrow> bool" where
  "seg hs p [] q \<longleftrightarrow> p = q"
| "seg hs p (x # xs) q \<longleftrightarrow> p = Some x \<and> seg hs (hnd_next (hs x)) xs q"

definition chain :: "hstore \<Rightarrow> hptr option \<Rightarrow> hptr list \<Rightarrow> bool" where
  "chain hs p xs \<longleftrightarrow> seg hs p xs None"

text \<open>Calling the handlers of a list one after the other.\<close>

fun call_all :: "'s handler_call \<Rightarrow> hstore \<Rightarrow> int \<Rightarrow> hptr list \<Rightarrow> 's \<Rightarrow> int list \<times> 's" where
  "call_all call hs event [] s = ([], s)"
| "call_all call hs event (x # xs) s =
     (if eh_event (hs x) = event then
        (let (r, s) = call (eh_func (hs x)) event x s;
             (rs, s) = call_all call hs event xs s
         in (r # rs, s))
      else call_all call hs event xs s)"

text \<open>A list head at address 100 with the handlers 0 and 1 for event 7 and 2 for event 8.\<close>

definition example_handlers :: hstore where
  "example_handlers h =
     \<lparr>eh_func = h, eh_priv = 0, eh_event = (if h = 2 then 8 else 7),
      hnd_next = (if h = 100 then Some 0 else if h < 2 then Some (Suc h) else None)\<rparr>"

subsection \<open>Lists\<close>

lemma chain_simps [simp]:
  "chain hs p [] \<longleftrightarrow> p = None"
  "chain hs p (x # xs) \<longleftrightarrow> p = Some x \<and> chain hs (hnd_next (hs x)) xs"
  by (simp_all add: chain_def)

lemma seg_append [simp]: "seg hs p (xs @ ys) q \<longleftrightarrow> (\<exists>r. seg hs p xs r \<and> seg hs r ys q)"
  by (induction xs arbitrary: p) auto

lemma chain_append: "chain hs p (xs @ ys) \<longleftrightarrow> (\<exists>r. seg hs p xs r \<and> chain hs r ys)"
  by (simp add: chain_def)

lemma chain_fun: "chain hs p xs \<Longrightarrow> chain hs p ys \<Longrightarrow> xs = ys"
proof (induction xs arbitrary: p ys)
  case Nil
  then show ?case by (cases ys) auto
next
  case (Cons x xs)
  then show ?case by (cases ys) auto
qed

lemma chain_distinct: "chain hs p xs \<Longrightarrow> distinct xs"
proof (induction xs arbitrary: p)
  case (Cons x xs)
  have "x \<notin> set xs"
  proof
    assume "x \<in> set xs"
    then obtain ys zs where xs: "xs = ys @ x # zs" by (meson split_list)
    then have "chain hs (hnd_next (hs x)) zs"
      using Cons.prems by (auto simp: chain_append)
    moreover have "chain hs (hnd_next (hs x)) xs" using Cons.prems by simp
    ultimately have "zs = xs" by (rule chain_fun)
    with xs show False by simp
  qed
  with Cons show ?case by auto
qed simp

lemma seg_set_next: "x \<notin> set xs \<Longrightarrow> seg (set_next hs x n) p xs q \<longleftrightarrow> seg hs p xs q"
  by (induction xs arbitrary: p) (auto simp: set_next_def)

lemma hnd_next_set_next: "hnd_next (set_next hs x n y) = (if y = x then n else hnd_next (hs y))"
  by (simp add: set_next_def)

lemma last_handler_chain: "chain hs (Some h) xs \<Longrightarrow> last_handler hs h = Some (last xs)"
proof (induction xs arbitrary: h)
  case (Cons x xs)
  then show ?case
    by (subst last_handler.simps) (cases xs; auto)
qed simp

lemma find_prev_chain:
  "chain hs p (xs @ y # h # ys) \<Longrightarrow> find_prev hs p h = Some (Some y)"
proof (induction xs arbitrary: p)
  case Nil
  then show ?case by (subst find_prev.simps) simp
next
  case (Cons x xs)
  then have "hnd_next (hs x) \<noteq> Some h"
    using chain_distinct [OF Cons.prems] by (cases xs) auto
  with Cons show ?case by (subst find_prev.simps) auto
qed

lemma find_prev_none:
  "chain hs p xs \<Longrightarrow> h \<notin> set (tl xs) \<Longrightarrow> find_prev hs p h = Some None"
proof (induction xs arbitrary: p)
  case (Cons x xs)
  then have "hnd_next (hs x) \<noteq> Some h" by (cases xs) auto
  moreover have "h \<notin> set (tl xs)" using Cons.prems by (cases xs) auto
  ultimately show ?case using Cons by (subst find_prev.simps) auto
qed (subst find_prev.simps, simp)

lemma chain_example: "chain example_handlers (Some 100) [100, 0, 1, 2]"
  by (simp add: example_handlers_def)

lemma add_handler_fresh:
  assumes "chain hs (Some h0) xs" "h \<notin> set xs"
  shows "k_event_add_handler hs (Some h0) (Some h) = Some (0, set_next (set_next hs (last xs) (Some h)) h None)"
    and "chain (set_next (set_next hs (last xs) (Some h)) h None) (Some h0) (xs @ [h])"
proof -
  show "k_event_add_handler hs (Some h0) (Some h) = Some (0, set_next (set_next hs (last xs) (Some h)) h None)"
    using last_handler_chain [OF assms(1)] by (simp add: k_event_add_handler_def)
  have "xs \<noteq> []" using assms(1) by auto
  then obtain bs l where xs: "xs = bs @ [l]" by (meson rev_exhaust)
  moreover have "seg hs (Some h0) bs (Some l)" using assms(1) by (auto simp: xs chain_append)
  moreover have "l \<notin> set bs" "h \<notin> set bs" "h \<noteq> l" using chain_distinct [OF assms(1)] assms(2) by (auto simp: xs)
  ultimately show "chain (set_next (set_next hs (last xs) (Some h)) h None) (Some h0) (xs @ [h])"
    by (simp add: chain_append seg_set_next hnd_next_set_next)
qed

lemma remove_handler_chain:
  assumes "chain hs (Some h0) xs" "h \<in> set (tl xs)"
  shows "\<exists>y \<in> set xs. k_event_remove_handler hs (Some h0) (Some h) = Some (0, set_next hs y (hnd_next (hs h))) \<and>
    chain (set_next hs y (hnd_next (hs h))) (Some h0) (remove1 h xs) \<and> y \<noteq> h"
proof -
  obtain x xs' where x: "xs = x # xs'" "h \<in> set xs'" using assms(2) by (cases xs) auto
  then obtain as cs where xs': "xs' = as @ h # cs" "h \<notin> set as" by (meson split_list_first)
  obtain bs y where bs: "x # as = bs @ [y]" by (metis append_butlast_last_id list.discI)
  have xs: "xs = bs @ y # h # cs" using x(1) xs'(1) bs by simp
  have dist: "distinct (bs @ y # h # cs)" using chain_distinct [OF assms(1)] xs by simp
  have seg: "seg hs (Some h0) bs (Some y)" "chain hs (hnd_next (hs h)) cs"
    using assms(1) by (auto simp: xs chain_append)
  have "chain (set_next hs y (hnd_next (hs h))) (Some h0) (bs @ y # cs)"
    using seg dist by (auto simp: chain_def seg_set_next hnd_next_set_next)
  moreover have "remove1 h xs = bs @ y # cs"
    using dist by (simp add: xs remove1_append)
  moreover have "find_prev hs (Some h0) h = Some (Some y)"
    using assms(1) unfolding xs by (rule find_prev_chain)
  ultimately show ?thesis
    using dist by (intro bexI [of _ y]) (auto simp: k_event_remove_handler_def xs)
qed

text \<open>A list ends at an element whose link is cleared.\<close>

lemma chain_cut:
  assumes "chain hs q xs" "h \<in> set xs"
  shows "chain (set_next hs h None) q (takeWhile (\<lambda>x. x \<noteq> h) xs @ [h])"
proof -
  obtain as cs where xs: "xs = as @ h # cs" "h \<notin> set as" using assms(2) by (meson split_list_first)
  moreover have "seg hs q as (Some h)" using assms(1) xs(1) by (auto simp: chain_append)
  moreover have "takeWhile (\<lambda>x. x \<noteq> h) xs = as" using xs by (auto simp: takeWhile_append takeWhile_eq_all_conv)
  ultimately show ?thesis by (simp add: chain_append seg_set_next hnd_next_set_next)
qed

lemma add_handler_cut:
  assumes "chain hs (Some h0) xs"
  shows "k_event_add_handler hs (Some h0) (Some h) = Some (0, set_next (set_next hs (last xs) (Some h)) h None)"
    and "chain (set_next (set_next hs (last xs) (Some h)) h None) (Some h0) (takeWhile (\<lambda>x. x \<noteq> h) xs @ [h])"
proof -
  let ?l = "last xs" and ?hs' = "set_next (set_next hs (last xs) (Some h)) h None"
  show "k_event_add_handler hs (Some h0) (Some h) = Some (0, ?hs')"
    using last_handler_chain [OF assms] by (simp add: k_event_add_handler_def)
  have ne: "xs \<noteq> []" and dist: "distinct xs" using assms chain_distinct by auto
  show "chain ?hs' (Some h0) (takeWhile (\<lambda>x. x \<noteq> h) xs @ [h])"
  proof (cases "h \<in> set xs")
    case False
    then have "takeWhile (\<lambda>x. x \<noteq> h) xs = xs" by (auto simp: takeWhile_eq_all_conv)
    then show ?thesis using add_handler_fresh(2) [OF assms False] by (simp only:)
  next
    case True
    then obtain as cs where xs: "xs = as @ h # cs" "h \<notin> set as" by (meson split_list_first)
    then have "?l \<notin> set as" using dist by auto
    moreover have "seg hs (Some h0) as (Some h)" using assms xs(1) by (auto simp: chain_append)
    moreover have "takeWhile (\<lambda>x. x \<noteq> h) xs = as" using xs by (auto simp: takeWhile_append takeWhile_eq_all_conv)
    ultimately show ?thesis
      using xs(2) by (simp add: chain_append seg_set_next hnd_next_set_next)
  qed
qed

text \<open>
  C9. Adding a handler to a list.  From a list \<open>xs\<close> that starts at the head and ends at NULL,
  \<open>k_event_add_handler\<close> returns 0 and leaves a list that ends at NULL: \<open>xs\<close> with the handler at its
  end when it was not in the list before.  A handler that is already in the list becomes its last
  element, the handlers behind it are no longer in the list.
\<close>

theorem k_event_add_handler_list:
  assumes "chain hs (Some h0) xs"
  shows "\<exists>hs'. k_event_add_handler hs (Some h0) (Some h) = Some (0, hs') \<and>
    chain hs' (Some h0) (takeWhile (\<lambda>x. x \<noteq> h) xs @ [h])"
  using add_handler_cut [OF assms, of h] by blast

theorem k_event_add_handler_list_witness:
  "\<exists>hs'. k_event_add_handler example_handlers (Some 100) (Some 5) = Some (0, hs') \<and>
    chain hs' (Some 100) [100, 0, 1, 2, 5]"
  using k_event_add_handler_list [OF chain_example, of 5] by simp

text \<open>
  Removing a handler.  A handler in the list behind its head is taken out, the order of the
  others stays; for any other handler the result is \<open>-EINVAL\<close> and nothing changes.
\<close>

theorem k_event_remove_handler_list:
  assumes "chain hs (Some h0) xs"
  shows "if h \<in> set (tl xs)
    then \<exists>hs'. k_event_remove_handler hs (Some h0) (Some h) = Some (0, hs') \<and> chain hs' (Some h0) (remove1 h xs)
    else k_event_remove_handler hs (Some h0) (Some h) = Some (- EINVAL, hs)"
proof (cases "h \<in> set (tl xs)")
  case False
  then show ?thesis
    using find_prev_none [OF assms] by (simp add: k_event_remove_handler_def)
next
  case True
  then show ?thesis using remove_handler_chain [OF assms True] by auto
qed

theorem k_event_remove_handler_list_witness:
  "\<exists>hs'. k_event_remove_handler example_handlers (Some 100) (Some 1) = Some (0, hs') \<and>
    chain hs' (Some 100) [100, 0, 2]"
  using k_event_remove_handler_list [OF chain_example, of 1] by simp

lemma handle_loop_chain:
  "chain hs p xs \<Longrightarrow> handle_loop call hs event p res s =
    (let (rs, s') = call_all call hs event xs s
     in Some (if EVENT_HANDLED \<in> set rs then EVENT_HANDLED else res, s'))"
proof (induction xs arbitrary: p res s)
  case Nil
  then show ?case by (subst handle_loop.simps) simp
next
  case (Cons x xs)
  then show ?case
    by (subst handle_loop.simps) (auto simp: Let_def split: prod.splits)
qed

text \<open>
  Dispatching an event over a list that ends at NULL returns.  It calls, in the order of the
  list and each exactly once, the functions of the handlers registered for the event and no other,
  and reports the event as handled exactly when one of them did.
\<close>

theorem k_event_handle_generic_calls:
  assumes "chain hs p xs"
  shows "k_event_handle_generic call hs event p s =
    (let (rs, s') = call_all call hs event xs s
     in Some (if 1 \<in> set rs then 1 else 2, s'))"
  using handle_loop_chain [OF assms] by (simp add: k_event_handle_generic_def)

theorem k_event_handle_generic_calls_witness:
  "k_event_handle_generic (\<lambda>f e h s. (if f = 1 then 1 else 2, s @ [h])) example_handlers 7 (Some 0) [] =
    Some (1, [0, 1])"
  using k_event_handle_generic_calls [of example_handlers "Some 0" "[0, 1, 2]"
      "\<lambda>f e h s. (if f = 1 then 1 else 2, s @ [h])" 7 "[]"]
  by (simp add: example_handlers_def)

subsection \<open>The pool\<close>

lemma find_index_None: "find_index P xs = None \<longleftrightarrow> (\<forall>x \<in> set xs. \<not> P x)"
  by (induction xs) auto

lemma find_index_Some:
  "find_index P xs = Some i \<longleftrightarrow> i < length xs \<and> P (xs ! i) \<and> (\<forall>j < i. \<not> P (xs ! j))"
proof (induction xs arbitrary: i)
  case (Cons x xs)
  then show ?case
    by (cases i) (auto simp: nth_Cons' less_Suc_eq_0_disj)
qed simp

text \<open>
  The pool of handlers.  An allocation fails exactly when all handlers are in use; else it
  returns one that was free and marks only it.  Releasing the handler it returned gives the state
  before the allocation, so it can be allocated again.
\<close>

theorem k_event_handler_pool:
  "if (\<forall>v \<in> set (evt_stat s). v \<noteq> 0)
   then k_event_alloc_handler s True = (- ENOMEM, None, s)
   else \<exists>h. h < length (evt_stat s) \<and> evt_stat s ! h = 0 \<and>
     k_event_alloc_handler s True = (0, Some h, s\<lparr>evt_stat := (evt_stat s)[h := 1]\<rparr>) \<and>
     k_event_free_handler (s\<lparr>evt_stat := (evt_stat s)[h := 1]\<rparr>) (Some h) = (0, s)"
proof (cases "find_index (\<lambda>v. v = 0) (evt_stat s)")
  case None
  moreover from this have "\<forall>v \<in> set (evt_stat s). v \<noteq> 0" by (simp add: find_index_None)
  ultimately show ?thesis by (simp add: k_event_alloc_handler_def)
next
  case (Some h)
  then have h: "h < length (evt_stat s)" "evt_stat s ! h = 0" by (auto simp: find_index_Some)
  then have "\<not> (\<forall>v \<in> set (evt_stat s). v \<noteq> 0)" by (metis nth_mem)
  moreover have "(evt_stat s)[h := 0] = evt_stat s" using h by (metis list_update_id)
  ultimately show ?thesis
    using h Some by (auto simp: k_event_alloc_handler_def k_event_free_handler_def)
qed

theorem k_event_handler_pool_witness:
  "k_event_alloc_handler \<lparr>evt_store = example_handlers, evt_stat = [1, 1]\<rparr> True =
    (- ENOMEM, None, \<lparr>evt_store = example_handlers, evt_stat = [1, 1]\<rparr>)"
  using k_event_handler_pool [of "\<lparr>evt_store = example_handlers, evt_stat = [1, 1]\<rparr>"] by simp

end
