(* ===== verification/Arch.thy ===== *)
theory Arch
  imports Event
begin

section \<open>RISC-V architecture code\<close>

text \<open>
  \<^verbatim>\<open>arch/riscv/cpu.c\<close>, \<^verbatim>\<open>arch/riscv/thread.c\<close> and \<^verbatim>\<open>arch/riscv/intr.c\<close> of the 64-bit
  machine-mode build: the saved registers of a thread, the register an argument kind stands for,
  the tables of interrupt and exception handlers, and the local interrupt enable bit.  The control
  registers the code touches are the record \<open>csr\<close>.  A handler whose function pointer is NULL has
  \<open>eh_func = 0\<close>.
\<close>

record k_arch_user_regs =
  rv_ra :: u64
  rv_sp :: u64
  rv_gp :: u64
  rv_tp :: u64
  rv_t0 :: u64
  rv_t1 :: u64
  rv_t2 :: u64
  rv_t3 :: u64
  rv_t4 :: u64
  rv_t5 :: u64
  rv_t6 :: u64
  rv_a0 :: u64
  rv_a1 :: u64
  rv_a2 :: u64
  rv_a3 :: u64
  rv_a4 :: u64
  rv_a5 :: u64
  rv_a6 :: u64
  rv_a7 :: u64
  rv_s0 :: u64
  rv_s1 :: u64
  rv_s2 :: u64
  rv_s3 :: u64
  rv_s4 :: u64
  rv_s5 :: u64
  rv_s6 :: u64
  rv_s7 :: u64
  rv_s8 :: u64
  rv_s9 :: u64
  rv_s10 :: u64
  rv_s11 :: u64
  rv_mepc :: u64
  rv_mstatus :: u64
  rv_mscratch :: u64

datatype k_arch_arg_type =
    K_ARCH_ARG_TYPE_1 | K_ARCH_ARG_TYPE_2 | K_ARCH_ARG_TYPE_3 | K_ARCH_ARG_TYPE_4
  | K_ARCH_ARG_TYPE_5 | K_ARCH_ARG_TYPE_6 | K_ARCH_ARG_TYPE_INTADDR | K_ARCH_ARG_TYPE_RETADDR
  | K_ARCH_ARG_TYPE_RETVAL | K_ARCH_ARG_TYPE_STACK | K_ARCH_ARG_TYPE_STACK_INTR | K_ARCH_ARG_TYPE_TLS

text \<open>The switch statements cover every enumerator, so the default branch is never taken.\<close>

fun k_arch_get_arg :: "k_arch_user_regs \<Rightarrow> k_arch_arg_type \<Rightarrow> u64" where
  "k_arch_get_arg regs K_ARCH_ARG_TYPE_1 = rv_a0 regs"
| "k_arch_get_arg regs K_ARCH_ARG_TYPE_RETVAL = rv_a0 regs"
| "k_arch_get_arg regs K_ARCH_ARG_TYPE_2 = rv_a1 regs"
| "k_arch_get_arg regs K_ARCH_ARG_TYPE_3 = rv_a2 regs"
| "k_arch_get_arg regs K_ARCH_ARG_TYPE_4 = rv_a3 regs"
| "k_arch_get_arg regs K_ARCH_ARG_TYPE_5 = rv_a4 regs"
| "k_arch_get_arg regs K_ARCH_ARG_TYPE_6 = rv_a5 regs"
| "k_arch_get_arg regs K_ARCH_ARG_TYPE_RETADDR = rv_ra regs"
| "k_arch_get_arg regs K_ARCH_ARG_TYPE_STACK = rv_sp regs"
| "k_arch_get_arg regs K_ARCH_ARG_TYPE_STACK_INTR = rv_mscratch regs"
| "k_arch_get_arg regs K_ARCH_ARG_TYPE_TLS = rv_tp regs"
| "k_arch_get_arg regs K_ARCH_ARG_TYPE_INTADDR = rv_mepc regs"

fun k_arch_set_arg :: "k_arch_user_regs \<Rightarrow> k_arch_arg_type \<Rightarrow> u64 \<Rightarrow> k_arch_user_regs" where
  "k_arch_set_arg regs K_ARCH_ARG_TYPE_1 val = regs\<lparr>rv_a0 := val\<rparr>"
| "k_arch_set_arg regs K_ARCH_ARG_TYPE_RETVAL val = regs\<lparr>rv_a0 := val\<rparr>"
| "k_arch_set_arg regs K_ARCH_ARG_TYPE_2 val = regs\<lparr>rv_a1 := val\<rparr>"
| "k_arch_set_arg regs K_ARCH_ARG_TYPE_3 val = regs\<lparr>rv_a2 := val\<rparr>"
| "k_arch_set_arg regs K_ARCH_ARG_TYPE_4 val = regs\<lparr>rv_a3 := val\<rparr>"
| "k_arch_set_arg regs K_ARCH_ARG_TYPE_5 val = regs\<lparr>rv_a4 := val\<rparr>"
| "k_arch_set_arg regs K_ARCH_ARG_TYPE_6 val = regs\<lparr>rv_a5 := val\<rparr>"
| "k_arch_set_arg regs K_ARCH_ARG_TYPE_RETADDR val = regs\<lparr>rv_ra := val\<rparr>"
| "k_arch_set_arg regs K_ARCH_ARG_TYPE_STACK val = regs\<lparr>rv_sp := val\<rparr>"
| "k_arch_set_arg regs K_ARCH_ARG_TYPE_STACK_INTR val = regs\<lparr>rv_mscratch := val\<rparr>"
| "k_arch_set_arg regs K_ARCH_ARG_TYPE_TLS val = regs\<lparr>rv_tp := val\<rparr>"
| "k_arch_set_arg regs K_ARCH_ARG_TYPE_INTADDR val = regs\<lparr>rv_mepc := val\<rparr>"

abbreviation (input) XSTATUS_MIE :: u64 where "XSTATUS_MIE \<equiv> 0x8"
abbreviation (input) XSTATUS_MPIE :: u64 where "XSTATUS_MPIE \<equiv> 0x80"
abbreviation (input) XSTATUS_MPP_M :: u64 where "XSTATUS_MPP_M \<equiv> 0x1800"
abbreviation (input) XSTATUS_MPP_MASK :: u64 where "XSTATUS_MPP_MASK \<equiv> 0x1800"

text \<open>The argument is the context the assembly routine copies.\<close>

definition k_arch_thread_init :: "k_arch_user_regs \<Rightarrow> int \<times> k_arch_user_regs" where
  "k_arch_thread_init ctx =
     (0, ctx\<lparr>rv_mstatus := ((rv_mstatus ctx AND NOT XSTATUS_MPP_MASK) OR XSTATUS_MPP_M) OR XSTATUS_MPIE\<rparr>)"

subsection \<open>Interrupt tables\<close>

record csr =
  csr_mstatus :: u64
  csr_mip :: u64

record arch_intr =
  int_handlers :: "hptr option list"
  exc_handlers :: "hptr option list"

abbreviation (input) RV_CAUSE_INT_MAX_NUM :: nat where "RV_CAUSE_INT_MAX_NUM \<equiv> 12"
abbreviation (input) RV_CAUSE_EXC_MAX_NUM :: nat where "RV_CAUSE_EXC_MAX_NUM \<equiv> 16"

definition arch_intr_static :: arch_intr where
  "arch_intr_static =
     \<lparr>int_handlers = replicate RV_CAUSE_INT_MAX_NUM None, exc_handlers = replicate RV_CAUSE_EXC_MAX_NUM None\<rparr>"

definition intr_events :: "int list" where
  "intr_events = [0, 1, 3, 4, 5, 7, 8, 9, 11]"

definition exc_events :: "int list" where
  "exc_events = [0, 1, 2, 3, 4, 5, 6, 7, 8, 9, 11, 12, 13, 15]"

definition k_arch_get_intr_handler :: "arch_intr \<Rightarrow> int \<Rightarrow> int \<times> hptr option" where
  "k_arch_get_intr_handler a event =
     (if event \<in> set intr_events then (0, int_handlers a ! nat event) else (- EINVAL, None))"

definition k_arch_set_intr_handler :: "arch_intr \<Rightarrow> int \<Rightarrow> hptr option \<Rightarrow> int \<times> arch_intr" where
  "k_arch_set_intr_handler a event hnd =
     (if event \<in> set intr_events then (0, a\<lparr>int_handlers := (int_handlers a)[nat event := hnd]\<rparr>)
      else (- EINVAL, a))"

definition k_arch_get_exc_handler :: "arch_intr \<Rightarrow> int \<Rightarrow> int \<times> hptr option" where
  "k_arch_get_exc_handler a event =
     (if event \<in> set exc_events then (0, exc_handlers a ! nat event) else (- EINVAL, None))"

definition k_arch_set_exc_handler :: "arch_intr \<Rightarrow> int \<Rightarrow> hptr option \<Rightarrow> int \<times> arch_intr" where
  "k_arch_set_exc_handler a event hnd =
     (if event \<in> set exc_events then (0, a\<lparr>exc_handlers := (exc_handlers a)[nat event := hnd]\<rparr>)
      else (- EINVAL, a))"

text \<open>
  \<open>csrc mip\<close>: the machine-level pending bits (software 3, timer 7, external 11) are read-only in \<open>mip\<close>, only
  the device behind them lowers them; the bits of the lower levels can be cleared.
\<close>

definition csrc_mip :: "u64 \<Rightarrow> csr \<Rightarrow> csr" where
  "csrc_mip v c = c\<lparr>csr_mip := csr_mip c AND NOT (v AND 0x333)\<rparr>"

text \<open>The entry for a trap.  The handler may change the control registers too.\<close>

definition k_arch_riscv_interrupt ::
    "(csr \<times> 's) handler_call \<Rightarrow> hstore \<Rightarrow> arch_intr \<Rightarrow> u64 \<Rightarrow> csr \<times> 's \<Rightarrow> int \<times> csr \<times> 's" where
  "k_arch_riscv_interrupt call hs a mcause s =
     (let cause = unat (mcause AND 0x7fffffff) in
      if RV_CAUSE_INT_MAX_NUM \<le> cause then (0, s)
      else case int_handlers a ! cause of
        None \<Rightarrow> (0, s)
      | Some h \<Rightarrow>
          if eh_func (hs h) = 0 then (0, s)
          else
            let (r, c, s) = call (eh_func (hs h)) (int cause) h s
            in (0, if r = EVENT_HANDLED then csrc_mip (push_bit cause 1) c else c, s))"

text \<open>An exception with a known cause never returns: it ends in a loop that waits for interrupts.\<close>

datatype 's exc_result = Exc_return int | Exc_wait 's

definition k_arch_riscv_exception ::
    "'s handler_call \<Rightarrow> hstore \<Rightarrow> arch_intr \<Rightarrow> u64 \<Rightarrow> 's \<Rightarrow> 's exc_result" where
  "k_arch_riscv_exception call hs a mcause s =
     (let cause = unat (mcause AND 0x7fffffff) in
      if RV_CAUSE_EXC_MAX_NUM \<le> cause then Exc_return 0
      else case exc_handlers a ! cause of
        None \<Rightarrow> Exc_wait s
      | Some h \<Rightarrow>
          if eh_func (hs h) = 0 then Exc_wait s
          else Exc_wait (snd (call (eh_func (hs h)) (int cause) h s)))"

subsection \<open>Local interrupt enable\<close>

definition k_intr_enable_local :: "csr \<Rightarrow> csr" where
  "k_intr_enable_local c = c\<lparr>csr_mstatus := csr_mstatus c OR XSTATUS_MIE\<rparr>"

definition k_intr_disable_local :: "csr \<Rightarrow> csr" where
  "k_intr_disable_local c = c\<lparr>csr_mstatus := csr_mstatus c AND NOT XSTATUS_MIE\<rparr>"

definition k_intr_restore_local :: "csr \<Rightarrow> u64 \<Rightarrow> csr" where
  "k_intr_restore_local c status = c\<lparr>csr_mstatus := status\<rparr>"

definition k_intr_save_local :: "csr \<Rightarrow> u64 \<times> csr" where
  "k_intr_save_local c = (csr_mstatus c, c\<lparr>csr_mstatus := csr_mstatus c AND NOT XSTATUS_MIE\<rparr>)"

definition intr_enabled :: "csr \<Rightarrow> bool" where
  "intr_enabled c \<longleftrightarrow> bit (csr_mstatus c) 3"

subsection \<open>Register access\<close>

text \<open>The kinds that name the same register: the first argument and the return value.\<close>

definition same_register :: "k_arch_arg_type \<Rightarrow> k_arch_arg_type \<Rightarrow> bool" where
  "same_register t u \<longleftrightarrow> t = u \<or> {t, u} = {K_ARCH_ARG_TYPE_1, K_ARCH_ARG_TYPE_RETVAL}"

lemma get_set_arg:
  "k_arch_get_arg (k_arch_set_arg regs t v) u = (if same_register t u then v else k_arch_get_arg regs u)"
  by (cases t; cases u; simp add: same_register_def doubleton_eq_iff)

text \<open>
  The registers of a thread behave as independent cells: after \<open>k_arch_set_arg\<close> of one
  argument kind, \<open>k_arch_get_arg\<close> of a kind returns the value set when both kinds name the same
  register (the first argument and the return value share \<open>a0\<close>) and the old value otherwise.
\<close>

theorem k_arch_get_set_arg:
  "k_arch_get_arg (k_arch_set_arg regs t v) u = (if same_register t u then v else k_arch_get_arg regs u)"
  by (rule get_set_arg)

subsection \<open>Handler tables\<close>

lemma intr_events_bound: "event \<in> set intr_events \<Longrightarrow> 0 \<le> event \<and> nat event < 12"
  by (auto simp: intr_events_def)

lemma exc_events_bound: "event \<in> set exc_events \<Longrightarrow> 0 \<le> event \<and> nat event < 16"
  by (auto simp: exc_events_def)

definition arch_intr_wf :: "arch_intr \<Rightarrow> bool" where
  "arch_intr_wf a \<longleftrightarrow> length (int_handlers a) = 12 \<and> length (exc_handlers a) = 16"

lemma mcause_interrupt:
  assumes "c < 16"
  shows "unat ((of_nat c OR push_bit 63 1 :: u64) AND 0x7fffffff) = c"
proof -
  have "list_all (\<lambda>c. unat ((of_nat c OR push_bit 63 1 :: u64) AND 0x7fffffff) = c) [0..<16]"
    by code_simp
  with assms show ?thesis by (simp add: list_all_iff)
qed

lemma csrc_mip_event:
  assumes "event \<in> set intr_events"
  shows "csrc_mip (push_bit (nat event) 1) c =
    (if event \<in> {3, 7, 11} then c else c\<lparr>csr_mip := csr_mip c AND NOT (push_bit (nat event) 1)\<rparr>)"
  using assms by (auto simp: intr_events_def csrc_mip_def)

text \<open>
  C10. An interrupt goes to the handler registered for its cause.  After a successful
  \<open>k_arch_set_intr_handler\<close> for an event, with a handler whose function is not NULL, a trap with that
  interrupt cause calls the handler's function once.  When it reports the event as handled, the
  pending bit of a supervisor or user interrupt is cleared.  For the machine-level interrupts, the ones
  the drivers use, clearing has no effect: the control registers are as the handler left them.
  Events the code does not know are refused and change nothing.
\<close>

theorem k_arch_interrupt_dispatch:
  assumes "arch_intr_wf a" "eh_func (hs h) \<noteq> 0"
  shows "if event \<in> set intr_events
    then \<exists>a'. k_arch_set_intr_handler a event (Some h) = (0, a') \<and> arch_intr_wf a' \<and>
      k_arch_get_intr_handler a' event = (0, Some h) \<and>
      k_arch_riscv_interrupt call hs a' (of_int event OR push_bit 63 1) s =
        (let (r, c, s') = call (eh_func (hs h)) event h s
         in (0, if r = 1 \<and> event \<notin> {3, 7, 11} then c\<lparr>csr_mip := csr_mip c AND NOT (push_bit (nat event) 1)\<rparr> else c, s'))
    else k_arch_set_intr_handler a event (Some h) = (- EINVAL, a)"
proof (cases "event \<in> set intr_events")
  case True
  then have b: "0 \<le> event" "nat event < 12" using intr_events_bound by auto
  then have "unat ((of_int event OR push_bit 63 1 :: u64) AND 0x7fffffff) = nat event"
    using mcause_interrupt [of "nat event"] by (simp add: of_nat_nat)
  with True b assms show ?thesis
    by (simp add: k_arch_set_intr_handler_def k_arch_get_intr_handler_def k_arch_riscv_interrupt_def
        arch_intr_wf_def Let_def csrc_mip_event [OF True] del: push_bit_of_1 split: prod.split)
qed (simp add: k_arch_set_intr_handler_def)

theorem k_arch_interrupt_dispatch_witness:
  "\<exists>a'. k_arch_set_intr_handler arch_intr_static 7 (Some 1) = (0, a') \<and>
    k_arch_riscv_interrupt (\<lambda>f e h (c, s). (1, c, e # s)) example_handlers a' (of_int 7 OR push_bit 63 1)
      (\<lparr>csr_mstatus = 0, csr_mip = 0xff\<rparr>, []) = (0, \<lparr>csr_mstatus = 0, csr_mip = 0xff\<rparr>, [7])"
  using k_arch_interrupt_dispatch [of arch_intr_static example_handlers 1 7 "\<lambda>f e h (c, s). (1, c, e # s)"
      "(\<lparr>csr_mstatus = 0, csr_mip = 0xff\<rparr>, [])"]
  by (auto simp: arch_intr_wf_def arch_intr_static_def intr_events_def example_handlers_def)

text \<open>
  Saving and restoring local interrupts: \<open>k_intr_save_local\<close> leaves them disabled and
  \<open>k_intr_restore_local\<close> with the status it returned gives back the state before, so nested critical
  sections do not enable interrupts early; enabling and disabling set and clear exactly that bit.
\<close>

theorem k_intr_save_restore:
  "(let (status, c') = k_intr_save_local c in
     \<not> intr_enabled c' \<and> k_intr_restore_local c' status = c) \<and>
   intr_enabled (k_intr_enable_local c) \<and> \<not> intr_enabled (k_intr_disable_local c) \<and>
   {n. bit (csr_mstatus (k_intr_enable_local c)) n} = insert 3 {n. bit (csr_mstatus c) n} \<and>
   {n. bit (csr_mstatus (k_intr_disable_local c)) n} = {n. bit (csr_mstatus c) n} - {3}"
proof -
  have b: "bit (8 :: u64) n \<longleftrightarrow> n = 3" for n
  proof -
    have "(8 :: u64) = push_bit 3 1" by simp
    then show ?thesis by (simp only: bit_push_bit_iff) (auto simp: bit_1_iff)
  qed
  have set: "bit (x OR 8) n \<longleftrightarrow> bit x n \<or> n = 3" for x :: u64 and n
    by (simp only: bit_or_iff b)
  have clear: "bit (x AND NOT 8) n \<longleftrightarrow> bit x n \<and> n \<noteq> 3" for x :: u64 and n
    using bit_imp_le_length [of x n] by (simp only: bit_and_iff bit_not_iff b possible_bit_word) auto
  have clear': "bit (x AND - 9) n \<longleftrightarrow> bit x n \<and> n \<noteq> 3" for x :: u64 and n
    using clear [of x n] by simp
  show ?thesis
    by (auto simp: k_intr_save_local_def k_intr_restore_local_def k_intr_enable_local_def
        k_intr_disable_local_def intr_enabled_def set clear')
qed

end
