(* ===== verification/Cpu.thy ===== *)
theory Cpu
  imports Arch Lock
begin

section \<open>CPUs\<close>

text \<open>
  \<^verbatim>\<open>driver/cpu/cpu.c\<close> and \<^verbatim>\<open>sys/smp.c\<close>: the table of CPUs, their current, idle and task
  threads, their locks, event handlers, waking and sleeping, inter-processor interrupts.

  The kernel's shared state is the record \<open>kernel\<close>.  CPU devices and threads are referred to by
  numbers: a CPU device by its place in the store \<open>cpu_dev\<close>, a thread by its index in \<open>k_ti\<close>;
  NULL is \<open>None\<close>.  The register frame \<open>cpu->regs\<close> points to lies on the CPU's own interrupt stack,
  so it is held by value.  \<open>user_int\<close> and \<open>user_word\<close> hold the \<open>int\<close> and
  \<open>intptr_t\<close> objects of user space the kernel reads and writes through pointers.  The operations of the CPU driver act on the state \<open>hw\<close> of the hardware
  and are the parameter \<open>ops\<close>, NULL pointers in the driver being \<open>None\<close>.  The number of the hart
  that executes the code is the parameter \<open>hart\<close>.  Following a NULL pointer has no defined result:
  the value \<open>None\<close>, as is waiting for a lock that stays held.
\<close>

type_synonym tptr = nat
type_synonym cptr = nat

record k_cpu_futex =
  fx_uaddr :: u64
  fx_val :: u32
  fx_bitset :: u32
  fx_wakeup :: bool

record k_cpu_device =
  id_cpu :: int
  id_phys :: int
  cpu_running :: bool
  cpu_regs :: k_arch_user_regs
  cpu_lock :: k_spinlock
  cpu_ti :: "tptr option"
  ti_idle :: "tptr option"
  ti_task :: "tptr option"
  cpu_handlers :: "nat \<Rightarrow> hptr"
  futex :: k_cpu_futex
  line_size_i :: int
  line_size_d :: int

record k_thread_info =
  ti_pi :: bool
  tid :: u32
  avail :: bool
  running :: bool
  ti_flags :: u64
  ti_sp :: u64
  robust_list :: u64
  robust_len :: u64
  ctid :: u64
  ptid :: u64
  tls :: u64
  ti_regs :: k_arch_user_regs
  ti_cpu :: "cptr option"

record k_proc_info =
  pid :: int
  pi_avail :: bool
  pi_lock :: k_spinlock
  leader :: "tptr option"

text \<open>The header of the area shared with the host; the bytes that follow it are \<open>comm_buf\<close>, by address.\<close>

record k_comm_area_header =
  cm_magic :: u32
  cm_num_args :: u32
  cm_done :: u32
  cm_ret_main :: u32

record 'h kernel =
  k_pi :: k_proc_info
  k_ti :: "k_thread_info list"
  uniq_tid :: u32
  cpus :: "cptr option list"
  uniq_id_cpu :: int
  cpu_dev :: "cptr \<Rightarrow> k_cpu_device"
  lock_smp :: k_spinlock
  user_int :: "u64 \<Rightarrow> u32"
  user_word :: "u64 \<Rightarrow> u64"
  comm_area :: k_comm_area_header
  comm_buf :: memory
  hw :: 'h

record 'h k_cpu_driver_ops =
  op_wakeup :: "(k_cpu_device \<Rightarrow> 'h \<Rightarrow> int \<times> 'h) option"
  op_sleep :: "(k_cpu_device \<Rightarrow> 'h \<Rightarrow> int \<times> 'h) option"
  op_on_wakeup :: "(k_cpu_device \<Rightarrow> 'h \<Rightarrow> int \<times> 'h) option"
  op_on_sleep :: "(k_cpu_device \<Rightarrow> 'h \<Rightarrow> int \<times> 'h) option"
  op_raise_ipi :: "(k_cpu_device \<Rightarrow> k_cpu_device \<Rightarrow> 'h \<Rightarrow> int \<times> 'h) option"
  op_clean_range :: "(k_cpu_device \<Rightarrow> u64 \<Rightarrow> u64 \<Rightarrow> 'h \<Rightarrow> int \<times> 'h) option"
  op_inv_range :: "(k_cpu_device \<Rightarrow> u64 \<Rightarrow> u64 \<Rightarrow> 'h \<Rightarrow> int \<times> 'h) option"
  op_flush_range :: "(k_cpu_device \<Rightarrow> u64 \<Rightarrow> u64 \<Rightarrow> 'h \<Rightarrow> int \<times> 'h) option"

definition upd_cpu :: "cptr \<Rightarrow> (k_cpu_device \<Rightarrow> k_cpu_device) \<Rightarrow> 'h kernel \<Rightarrow> 'h kernel" where
  "upd_cpu c f k = k\<lparr>cpu_dev := (cpu_dev k)(c := f (cpu_dev k c))\<rparr>"

definition upd_ti :: "tptr \<Rightarrow> (k_thread_info \<Rightarrow> k_thread_info) \<Rightarrow> 'h kernel \<Rightarrow> 'h kernel" where
  "upd_ti t f k = k\<lparr>k_ti := (k_ti k)[t := f (k_ti k ! t)]\<rparr>"

subsection \<open>Access to the CPUs\<close>

definition k_cpu_get_running :: "'h kernel \<Rightarrow> cptr \<Rightarrow> bool" where
  "k_cpu_get_running k c = cpu_running (cpu_dev k c)"

definition k_cpu_set_running :: "cptr \<Rightarrow> bool \<Rightarrow> 'h kernel \<Rightarrow> 'h kernel" where
  "k_cpu_set_running c r = upd_cpu c (cpu_running_update (\<lambda>_. r))"

definition k_cpu_lock :: "int \<Rightarrow> cptr \<Rightarrow> 'h kernel \<Rightarrow> 'h kernel option" where
  "k_cpu_lock hart c k = do {
     l \<leftarrow> k_spinlock_lock hart (cpu_lock (cpu_dev k c));
     Some (upd_cpu c (cpu_lock_update (\<lambda>_. l)) k)
   }"

definition k_cpu_unlock :: "cptr \<Rightarrow> 'h kernel \<Rightarrow> 'h kernel" where
  "k_cpu_unlock c = upd_cpu c (cpu_lock_update k_spinlock_unlock)"

definition k_cpu_get_thread :: "'h kernel \<Rightarrow> cptr \<Rightarrow> tptr option" where
  "k_cpu_get_thread k c = cpu_ti (cpu_dev k c)"

definition k_cpu_set_thread :: "cptr \<Rightarrow> tptr option \<Rightarrow> 'h kernel \<Rightarrow> 'h kernel" where
  "k_cpu_set_thread c t = upd_cpu c (cpu_ti_update (\<lambda>_. t))"

definition k_cpu_get_thread_idle :: "'h kernel \<Rightarrow> cptr \<Rightarrow> tptr option" where
  "k_cpu_get_thread_idle k c = ti_idle (cpu_dev k c)"

definition k_cpu_set_thread_idle :: "cptr \<Rightarrow> tptr option \<Rightarrow> 'h kernel \<Rightarrow> 'h kernel" where
  "k_cpu_set_thread_idle c t = upd_cpu c (ti_idle_update (\<lambda>_. t))"

definition k_cpu_get_thread_task :: "'h kernel \<Rightarrow> cptr \<Rightarrow> tptr option" where
  "k_cpu_get_thread_task k c = ti_task (cpu_dev k c)"

definition k_cpu_set_thread_task :: "cptr \<Rightarrow> tptr option \<Rightarrow> 'h kernel \<Rightarrow> 'h kernel" where
  "k_cpu_set_thread_task c t = upd_cpu c (ti_task_update (\<lambda>_. t))"

definition k_cpu_alloc_id :: "'h kernel \<Rightarrow> int \<times> 'h kernel" where
  "k_cpu_alloc_id k = (uniq_id_cpu k, k\<lparr>uniq_id_cpu := uniq_id_cpu k + 1\<rparr>)"

text \<open>The table has \<open>CONFIG_NUM_CORES\<close> entries.\<close>

definition k_cpu_get :: "'h kernel \<Rightarrow> int \<Rightarrow> cptr option" where
  "k_cpu_get k i = (if i < 0 \<or> int (length (cpus k)) \<le> i then None else cpus k ! nat i)"

definition k_cpu_set :: "int \<Rightarrow> cptr option \<Rightarrow> 'h kernel \<Rightarrow> int \<times> 'h kernel" where
  "k_cpu_set i c k =
     (if c = None then (- EINVAL, k)
      else if i < 0 \<or> int (length (cpus k)) \<le> i then (- EINVAL, k)
      else (0, k\<lparr>cpus := (cpus k)[nat i := c]\<rparr>))"

definition phys_entry :: "'h kernel \<Rightarrow> int \<Rightarrow> cptr option \<Rightarrow> bool" where
  "phys_entry k i e = (case e of None \<Rightarrow> False | Some c \<Rightarrow> id_phys (cpu_dev k c) = i)"

definition k_cpu_get_by_physical_id :: "'h kernel \<Rightarrow> int \<Rightarrow> cptr option" where
  "k_cpu_get_by_physical_id k i =
     (case find_index (phys_entry k i) (cpus k) of None \<Rightarrow> None | Some n \<Rightarrow> cpus k ! n)"

definition k_cpu_get_current :: "'h kernel \<Rightarrow> int \<Rightarrow> cptr option" where
  "k_cpu_get_current k hart = k_cpu_get_by_physical_id k hart"

subsection \<open>Adding a CPU\<close>

text \<open>
  \<open>cpu_riscv_add\<close> of \<^verbatim>\<open>driver/cpu/riscv.c\<close>; the argument is the result of reading the property
  \<open>hartid\<close> of the device, and \<open>priv\<close> tells whether the device has private data.
\<close>

definition cpu_riscv_add :: "kconfig \<Rightarrow> bool \<Rightarrow> (int \<times> u32) \<Rightarrow> cptr \<Rightarrow> 'h kernel \<Rightarrow> int \<times> 'h kernel" where
  "cpu_riscv_add cfg priv conf c k =
     (if \<not> priv then (- EINVAL, k)
      else
        let (r, hartid) = conf in
        if r \<noteq> 0 then (- EINVAL, k)
        else
          let (cpuid, k) = (if hartid = of_int (MAIN_CORE cfg) then (0, k) else k_cpu_alloc_id k)
          in if int (NUM_CORES cfg) \<le> cpuid then (- EINVAL, k)
          else
            let k = upd_cpu c (\<lambda>d. d\<lparr>id_cpu := cpuid, id_phys := sint hartid,
                  line_size_i := 64, line_size_d := 64\<rparr>) k;
                (_, k) = k_cpu_set cpuid (Some c) k
            in (0, k))"

subsection \<open>Cache maintenance\<close>

definition k_cpu_cache_clean_range ::
    "'h k_cpu_driver_ops \<Rightarrow> cptr option \<Rightarrow> u64 \<Rightarrow> u64 \<Rightarrow> 'h kernel \<Rightarrow> int \<times> 'h kernel" where
  "k_cpu_cache_clean_range ops cpu start sz k =
     (case (cpu, op_clean_range ops) of
        (Some c, Some f) \<Rightarrow> let (r, h) = f (cpu_dev k c) start sz (hw k) in (if r \<noteq> 0 then r else 0, k\<lparr>hw := h\<rparr>)
      | _ \<Rightarrow> (0, k))"

definition k_cpu_cache_inv_range ::
    "'h k_cpu_driver_ops \<Rightarrow> cptr option \<Rightarrow> u64 \<Rightarrow> u64 \<Rightarrow> 'h kernel \<Rightarrow> int \<times> 'h kernel" where
  "k_cpu_cache_inv_range ops cpu start sz k =
     (case (cpu, op_inv_range ops) of
        (Some c, Some f) \<Rightarrow> let (r, h) = f (cpu_dev k c) start sz (hw k) in (if r \<noteq> 0 then r else 0, k\<lparr>hw := h\<rparr>)
      | _ \<Rightarrow> (0, k))"

definition k_cpu_cache_flush_range ::
    "'h k_cpu_driver_ops \<Rightarrow> cptr option \<Rightarrow> u64 \<Rightarrow> u64 \<Rightarrow> 'h kernel \<Rightarrow> int \<times> 'h kernel" where
  "k_cpu_cache_flush_range ops cpu start sz k =
     (case (cpu, op_flush_range ops) of
        (Some c, Some f) \<Rightarrow> let (r, h) = f (cpu_dev k c) start sz (hw k) in (if r \<noteq> 0 then r else 0, k\<lparr>hw := h\<rparr>)
      | _ \<Rightarrow> (0, k))"

subsection \<open>Inter-processor interrupts, waking and sleeping\<close>

definition k_cpu_raise_ipi :: "'h k_cpu_driver_ops \<Rightarrow> int \<Rightarrow> cptr \<Rightarrow> 'h kernel \<Rightarrow> int \<times> 'h kernel" where
  "k_cpu_raise_ipi ops hart dest k =
     (case (k_cpu_get_current k hart, op_raise_ipi ops) of
        (Some c, Some f) \<Rightarrow>
          let (r, h) = f (cpu_dev k c) (cpu_dev k dest) (hw k)
          in (if r \<noteq> 0 then r else 0, k\<lparr>hw := h\<rparr>)
      | _ \<Rightarrow> (- ENOTSUP, k))"

definition k_cpu_wakeup :: "'h k_cpu_driver_ops \<Rightarrow> cptr \<Rightarrow> 'h kernel \<Rightarrow> int \<times> 'h kernel" where
  "k_cpu_wakeup ops c k =
     (let k = k_cpu_set_running c True k in
      case op_wakeup ops of
        Some f \<Rightarrow> let (r, h) = f (cpu_dev k c) (hw k) in (if r \<noteq> 0 then r else 0, k\<lparr>hw := h\<rparr>)
      | None \<Rightarrow> (0, k))"

definition k_cpu_sleep :: "'h k_cpu_driver_ops \<Rightarrow> cptr \<Rightarrow> 'h kernel \<Rightarrow> int \<times> 'h kernel" where
  "k_cpu_sleep ops c k =
     (case op_sleep ops of
        Some f \<Rightarrow>
          let (r, h) = f (cpu_dev k c) (hw k); k = k\<lparr>hw := h\<rparr>
          in if r \<noteq> 0 then (r, k) else (0, k_cpu_set_running c False k)
      | None \<Rightarrow> (0, k_cpu_set_running c False k))"

text \<open>The loops over the CPUs 1, 2, ... of \<open>k_cpu_wakeup_all\<close> and \<open>k_cpu_sleep_all\<close>.\<close>

fun for_cpus ::
    "(cptr \<Rightarrow> 'h kernel \<Rightarrow> int \<times> 'h kernel) \<Rightarrow> 'h k_cpu_driver_ops \<Rightarrow> int \<Rightarrow> int list \<Rightarrow> int \<Rightarrow> 'h kernel \<Rightarrow> int \<times> 'h kernel" where
  "for_cpus f ops hart [] res k = (res, k)"
| "for_cpus f ops hart (i # ids) res k =
     (case k_cpu_get k i of
        None \<Rightarrow> for_cpus f ops hart ids res k
      | Some c \<Rightarrow>
          let (r, k) = f c k;
              res = (if r \<noteq> 0 then r else res);
              (r, k) = k_cpu_raise_ipi ops hart c k;
              res = (if r \<noteq> 0 then r else res)
          in for_cpus f ops hart ids res k)"

definition k_cpu_wakeup_all :: "kconfig \<Rightarrow> 'h k_cpu_driver_ops \<Rightarrow> int \<Rightarrow> 'h kernel \<Rightarrow> int \<times> 'h kernel" where
  "k_cpu_wakeup_all cfg ops hart k =
     (case k_cpu_get k 0 of
        None \<Rightarrow> (- ENOMEM, k)
      | Some c \<Rightarrow>
          for_cpus (k_cpu_wakeup ops) ops hart [1..int (NUM_CORES cfg) - 1] 0 (k_cpu_set_running c True k))"

definition k_cpu_sleep_all :: "kconfig \<Rightarrow> 'h k_cpu_driver_ops \<Rightarrow> int \<Rightarrow> 'h kernel \<Rightarrow> int \<times> 'h kernel" where
  "k_cpu_sleep_all cfg ops hart k =
     (let (res, k) = for_cpus (k_cpu_sleep ops) ops hart [1..int (NUM_CORES cfg) - 1] 0 k in
      case k_cpu_get k 0 of
        None \<Rightarrow> (- ENOMEM, k)
      | Some c \<Rightarrow> (res, k_cpu_set_running c False k))"

subsection \<open>Event handlers of a CPU\<close>

abbreviation (input) CPU_EVENT_ON_WAKEUP :: nat where "CPU_EVENT_ON_WAKEUP \<equiv> 1"
abbreviation (input) CPU_EVENT_ON_SLEEP :: nat where "CPU_EVENT_ON_SLEEP \<equiv> 2"
abbreviation (input) CPU_EVENT_INTR_EXT :: nat where "CPU_EVENT_INTR_EXT \<equiv> 3"
abbreviation (input) CPU_EVENT_INTR_IPI :: nat where "CPU_EVENT_INTR_IPI \<equiv> 4"
abbreviation (input) CPU_EVENT_INTR_TIMER :: nat where "CPU_EVENT_INTR_TIMER \<equiv> 5"
abbreviation (input) CPU_EVENT_MAX :: nat where "CPU_EVENT_MAX \<equiv> 6"

text \<open>The list head of an event, or an error number.\<close>

definition k_cpu_get_handler_head :: "k_cpu_device \<Rightarrow> nat \<Rightarrow> int + hptr" where
  "k_cpu_get_handler_head d event =
     (if CPU_EVENT_MAX \<le> event then Inl (- EINVAL)
      else if event \<in> {CPU_EVENT_ON_WAKEUP, CPU_EVENT_ON_SLEEP, CPU_EVENT_INTR_EXT,
          CPU_EVENT_INTR_IPI, CPU_EVENT_INTR_TIMER}
      then Inr (cpu_handlers d event)
      else Inl (- EINVAL))"

definition k_cpu_call_handler ::
    "'s handler_call \<Rightarrow> hstore \<Rightarrow> k_cpu_device \<Rightarrow> nat \<Rightarrow> 's \<Rightarrow> (int \<times> 's) option" where
  "k_cpu_call_handler call hs d event s =
     (case k_cpu_get_handler_head d event of
        Inr head \<Rightarrow>
          if k_event_has_next hs head then do {
            (_, s) \<leftarrow> k_event_handle_generic call hs (int event) (hnd_next (hs head)) s;
            Some (0, s)
          } else Some (0, s)
      | Inl r \<Rightarrow> Some (r, s))"

definition k_cpu_add_handler :: "hstore \<Rightarrow> k_cpu_device \<Rightarrow> nat \<Rightarrow> hptr \<Rightarrow> (int \<times> hstore) option" where
  "k_cpu_add_handler hs d event handler =
     (case k_cpu_get_handler_head d event of
        Inr head \<Rightarrow>
          k_event_add_handler (hs(handler := (hs handler)\<lparr>eh_event := int event\<rparr>)) (Some head) (Some handler)
      | Inl r \<Rightarrow> Some (r, hs))"

definition k_cpu_remove_handler :: "hstore \<Rightarrow> k_cpu_device \<Rightarrow> nat \<Rightarrow> hptr \<Rightarrow> (int \<times> hstore) option" where
  "k_cpu_remove_handler hs d event handler =
     (case k_cpu_get_handler_head d event of
        Inr head \<Rightarrow> k_event_remove_handler hs (Some head) (Some handler)
      | Inl r \<Rightarrow> Some (r, hs))"

definition k_cpu_on_wakeup ::
    "'h k_cpu_driver_ops \<Rightarrow> 'h handler_call \<Rightarrow> hstore \<Rightarrow> int \<Rightarrow> 'h kernel \<Rightarrow> (int \<times> 'h kernel) option" where
  "k_cpu_on_wakeup ops call hs hart k = do {
     c \<leftarrow> k_cpu_get_current k hart;
     let (r, h) = (case op_on_wakeup ops of Some f \<Rightarrow> f (cpu_dev k c) (hw k) | None \<Rightarrow> (0, hw k));
         k = k\<lparr>hw := h\<rparr>
     in if r \<noteq> 0 then Some (r, k)
        else do {
          (r, h) \<leftarrow> k_cpu_call_handler call hs (cpu_dev k c) CPU_EVENT_ON_WAKEUP (hw k);
          Some (r, k\<lparr>hw := h\<rparr>)
        }
   }"

definition k_cpu_on_sleep ::
    "'h k_cpu_driver_ops \<Rightarrow> 'h handler_call \<Rightarrow> hstore \<Rightarrow> int \<Rightarrow> 'h kernel \<Rightarrow> (int \<times> 'h kernel) option" where
  "k_cpu_on_sleep ops call hs hart k = do {
     c \<leftarrow> k_cpu_get_current k hart;
     (r, h) \<leftarrow> k_cpu_call_handler call hs (cpu_dev k c) CPU_EVENT_ON_SLEEP (hw k);
     let k = k\<lparr>hw := h\<rparr>
     in if r \<noteq> 0 then Some (r, k)
        else
          let (r, h) = (case op_on_sleep ops of Some f \<Rightarrow> f (cpu_dev k c) (hw k) | None \<Rightarrow> (0, hw k))
          in Some (r, k\<lparr>hw := h\<rparr>)
   }"

subsection \<open>Choice of an idle CPU\<close>

definition k_smp_lock :: "int \<Rightarrow> 'h kernel \<Rightarrow> 'h kernel option" where
  "k_smp_lock hart k = do { l \<leftarrow> k_spinlock_lock hart (lock_smp k); Some (k\<lparr>lock_smp := l\<rparr>) }"

definition k_smp_unlock :: "'h kernel \<Rightarrow> 'h kernel" where
  "k_smp_unlock k = k\<lparr>lock_smp := k_spinlock_unlock (lock_smp k)\<rparr>"

definition idle_entry :: "'h kernel \<Rightarrow> cptr option \<Rightarrow> bool" where
  "idle_entry k e = (case e of None \<Rightarrow> False | Some c \<Rightarrow> ti_task (cpu_dev k c) = None)"

definition k_smp_find_idle_cpu :: "'h kernel \<Rightarrow> int \<times> cptr option" where
  "k_smp_find_idle_cpu k =
     (case find_index (idle_entry k) (cpus k) of
        None \<Rightarrow> (- ENOMEM, None)
      | Some i \<Rightarrow> (0, cpus k ! i))"

end
