(* ===== verification/Thread.thy ===== *)
theory Thread
  imports Cpu
begin

section \<open>Threads\<close>

text \<open>
  \<^verbatim>\<open>sys/thread.c\<close> and the thread setup of \<^verbatim>\<open>sys/init.c\<close>: the table of threads, creating,
  running, stopping and destroying a thread, cloning, and the context switch between the idle and
  the task thread of a CPU.  \<open>ctx\<close> is the register context the assembly routine
  \<open>k_arch_riscv_copy_current_context\<close> stores.  The addresses of the stacks and entry points are the
  record \<open>layout\<close>.
\<close>

record layout =
  sym_stack_intr :: u64
  sym_stack_idle :: u64
  sym_stack_main :: u64
  sym_idle_main :: u64
  sym_start :: u64
  sym_comm_area :: u64

record k_clone_args =
  ca_flags :: u64
  ca_pidfd :: u64
  ca_ctid :: u64
  ca_ptid :: u64
  ca_exit_signal :: u32
  ca_child_stack :: u64
  ca_stack_size :: u64
  ca_tls :: u64
  ca_set_tid :: u64
  ca_set_tid_size :: u64
  ca_cgroup :: u32

abbreviation (input) CLONE_SETTLS :: u64 where "CLONE_SETTLS \<equiv> 0x00080000"
abbreviation (input) CLONE_PARENT_SETTID :: u64 where "CLONE_PARENT_SETTID \<equiv> 0x00100000"
abbreviation (input) CLONE_CHILD_CLEARTID :: u64 where "CLONE_CHILD_CLEARTID \<equiv> 0x00200000"
abbreviation (input) CLONE_CHILD_SETTID :: u64 where "CLONE_CHILD_SETTID \<equiv> 0x01000000"

subsection \<open>The process\<close>

definition k_proc_create :: "'h kernel \<Rightarrow> bool \<times> 'h kernel" where
  "k_proc_create k =
     (if pi_avail (k_pi k) then (False, k) else (True, k\<lparr>k_pi := (k_pi k)\<lparr>pi_avail := True\<rparr>\<rparr>))"

definition k_proc_get_current :: "'h kernel \<Rightarrow> unit option" where
  "k_proc_get_current k = (if pi_avail (k_pi k) then Some () else None)"

definition k_proc_get_pid :: "'h kernel \<Rightarrow> int option" where
  "k_proc_get_pid k = do { _ \<leftarrow> k_proc_get_current k; Some (pid (k_pi k)) }"

definition k_proc_get_leader :: "'h kernel \<Rightarrow> tptr option" where
  "k_proc_get_leader k = leader (k_pi k)"

definition k_proc_set_leader :: "tptr option \<Rightarrow> 'h kernel \<Rightarrow> 'h kernel" where
  "k_proc_set_leader t k = k\<lparr>k_pi := (k_pi k)\<lparr>leader := t\<rparr>\<rparr>"

definition pi_lock_k :: "int \<Rightarrow> 'h kernel \<Rightarrow> 'h kernel option" where
  "pi_lock_k hart k = do {
     l \<leftarrow> k_spinlock_lock hart (pi_lock (k_pi k));
     Some (k\<lparr>k_pi := (k_pi k)\<lparr>pi_lock := l\<rparr>\<rparr>)
   }"

definition pi_unlock_k :: "'h kernel \<Rightarrow> 'h kernel" where
  "pi_unlock_k k = k\<lparr>k_pi := (k_pi k)\<lparr>pi_lock := k_spinlock_unlock (pi_lock (k_pi k))\<rparr>\<rparr>"

subsection \<open>Thread table\<close>

definition alloc_tid :: "'h kernel \<Rightarrow> u32 \<times> 'h kernel" where
  "alloc_tid k = (let (t, u) = k_afetch_add (uniq_tid k) 1 in (t, k\<lparr>uniq_tid := u\<rparr>))"

definition k_thread_get_raw :: "'h kernel \<Rightarrow> int \<Rightarrow> tptr option" where
  "k_thread_get_raw k n = (if n < 0 \<or> int (length (k_ti k)) \<le> n then None else Some (nat n))"

definition k_thread_get :: "'h kernel \<Rightarrow> u32 \<Rightarrow> tptr option" where
  "k_thread_get k t = find_index (\<lambda>ti. tid ti = t) (k_ti k)"

definition k_thread_create :: "int \<Rightarrow> k_arch_user_regs \<Rightarrow> 'h kernel \<Rightarrow> (tptr option \<times> 'h kernel) option" where
  "k_thread_create hart ctx k = do {
     k \<leftarrow> pi_lock_k hart k;
     case find_index (\<lambda>ti. \<not> avail ti) (k_ti k) of
       None \<Rightarrow> Some (None, pi_unlock_k k)
     | Some i \<Rightarrow>
         let (t, k) = alloc_tid k;
             (r, regs) = k_arch_thread_init ctx;
             k = upd_ti i (\<lambda>ti. ti\<lparr>ti_pi := True, tid := t, avail := True, running := False,
                   ti_sp := 0, ctid := 0, ptid := 0, ti_regs := regs\<rparr>) k
         in if r \<noteq> 0 then Some (None, pi_unlock_k k) else Some (Some i, pi_unlock_k k)
   }"

definition k_thread_destroy :: "tptr \<Rightarrow> 'h kernel \<Rightarrow> int \<times> 'h kernel" where
  "k_thread_destroy t k =
     (if running (k_ti k ! t) then (- EBUSY, k) else (0, upd_ti t (avail_update (\<lambda>_. False)) k))"

definition k_thread_run :: "tptr \<Rightarrow> cptr \<Rightarrow> 'h kernel \<Rightarrow> int \<times> 'h kernel" where
  "k_thread_run t c k =
     (0, k_cpu_set_thread_task c (Some t) (upd_ti t (\<lambda>ti. ti\<lparr>running := True, ti_cpu := Some c\<rparr>) k))"

definition k_thread_stop :: "tptr \<Rightarrow> 'h kernel \<Rightarrow> (int \<times> 'h kernel) option" where
  "k_thread_stop t k = do {
     c \<leftarrow> ti_cpu (k_ti k ! t);
     Some (0, upd_ti t (\<lambda>ti. ti\<lparr>ti_cpu := None, running := False\<rparr>) (k_cpu_set_thread_task c None k))
   }"

definition k_thread_get_current :: "'h kernel \<Rightarrow> int \<Rightarrow> tptr option" where
  "k_thread_get_current k hart = do { c \<leftarrow> k_cpu_get_current k hart; k_cpu_get_thread k c }"

definition k_thread_get_tid :: "'h kernel \<Rightarrow> int \<Rightarrow> int option" where
  "k_thread_get_tid k hart = do { t \<leftarrow> k_thread_get_current k hart; Some (sint (tid (k_ti k ! t))) }"

subsection \<open>Clone\<close>

definition clone_check :: "k_clone_args \<Rightarrow> bool" where
  "clone_check args \<longleftrightarrow>
     (ca_flags args AND (CLONE_CHILD_CLEARTID OR CLONE_CHILD_SETTID) = 0 \<or> ca_ctid args \<noteq> 0) \<and>
     (ca_flags args AND CLONE_PARENT_SETTID = 0 \<or> ca_ptid args \<noteq> 0) \<and>
     (ca_flags args AND CLONE_SETTLS = 0 \<or> ca_tls args \<noteq> 0)"

text \<open>Filling in the new thread: its arguments, the ids stored in user space and its registers.\<close>

definition clone_fill :: "kconfig \<Rightarrow> layout \<Rightarrow> k_clone_args \<Rightarrow> cptr \<Rightarrow> cptr \<Rightarrow> tptr \<Rightarrow> 'h kernel \<Rightarrow> 'h kernel" where
  "clone_fill cfg sy args cur c t k =
     (let flags = ca_flags args;
          need_ctid = (flags AND (CLONE_CHILD_CLEARTID OR CLONE_CHILD_SETTID) \<noteq> 0);
          need_ptid = (flags AND CLONE_PARENT_SETTID \<noteq> 0);
          need_tls = (flags AND CLONE_SETTLS \<noteq> 0);
          k = upd_ti t (\<lambda>ti. ti\<lparr>ti_flags := flags,
                ctid := (if need_ctid then ca_ctid args else 0),
                ptid := (if need_ptid then ca_ptid args else 0),
                tls := (if need_tls then ca_tls args else 0)\<rparr>) k;
          ti = k_ti k ! t;
          k = (if flags AND CLONE_CHILD_SETTID \<noteq> 0
               then k\<lparr>user_int := (user_int k)(ctid ti := tid ti)\<rparr> else k);
          k = (if flags AND CLONE_PARENT_SETTID \<noteq> 0
               then k\<lparr>user_int := (user_int k)(ptid ti := tid ti)\<rparr> else k);
          pos_intr = of_int (id_cpu (cpu_dev k c) + 1) * of_nat (INTR_STACK_SIZE cfg);
          regs = cpu_regs (cpu_dev k cur);
          regs = k_arch_set_arg regs K_ARCH_ARG_TYPE_RETVAL 0;
          regs = k_arch_set_arg regs K_ARCH_ARG_TYPE_STACK (ca_child_stack args);
          regs = k_arch_set_arg regs K_ARCH_ARG_TYPE_STACK_INTR (sym_stack_intr sy + pos_intr);
          regs = k_arch_set_arg regs K_ARCH_ARG_TYPE_TLS (tls ti)
      in upd_ti t (\<lambda>ti. ti\<lparr>ti_sp := ca_child_stack args, ti_regs := regs\<rparr>) k)"

definition k_thread_clone ::
    "kconfig \<Rightarrow> layout \<Rightarrow> 'h k_cpu_driver_ops \<Rightarrow> int \<Rightarrow> k_arch_user_regs \<Rightarrow> k_clone_args \<Rightarrow> 'h kernel \<Rightarrow>
     (int \<times> 'h kernel) option" where
  "k_thread_clone cfg sy ops hart ctx args k =
     (if \<not> clone_check args then Some (- EFAULT, k)
      else do {
        cur \<leftarrow> k_cpu_get_current k hart;
        _ \<leftarrow> k_proc_get_current k;
        k \<leftarrow> k_smp_lock hart k;
        case k_smp_find_idle_cpu k of
          (r, None) \<Rightarrow> Some (r, k_smp_unlock k)
        | (r, Some c) \<Rightarrow> do {
            k \<leftarrow> k_cpu_lock hart c (k_smp_unlock k);
            (created, k) \<leftarrow> k_thread_create hart ctx k;
            case created of
              None \<Rightarrow> Some (- ENOMEM, k_cpu_unlock c k)
            | Some t \<Rightarrow>
                let k = clone_fill cfg sy args cur c t k;
                    (r, k) = k_thread_run t c k
                in if r \<noteq> 0 then Some (r, k_cpu_unlock c (snd (k_thread_destroy t k)))
                else
                  let (r, k) = k_cpu_raise_ipi ops hart c k
                  in if r \<noteq> 0 then do {
                       (_, k) \<leftarrow> k_thread_stop t k;
                       Some (r, k_cpu_unlock c (snd (k_thread_destroy t k)))
                     }
                     else Some (sint (tid (k_ti k ! t)), k_cpu_unlock c k)
          }
      })"

subsection \<open>Context switch\<close>

definition k_thread_context_switch_nolock :: "int \<Rightarrow> 'h kernel \<Rightarrow> (int \<times> 'h kernel) option" where
  "k_thread_context_switch_nolock hart k = do {
     c \<leftarrow> k_cpu_get_current k hart;
     let ti = k_cpu_get_thread k c;
         idle = k_cpu_get_thread_idle k c;
         task = k_cpu_get_thread_task k c
     in do {
       k \<leftarrow> (if ti = idle
             then do { t \<leftarrow> ti; Some (upd_ti t (ti_regs_update (\<lambda>_. cpu_regs (cpu_dev k c))) k) }
             else Some k);
       next_ti \<leftarrow> (if ti \<noteq> None \<and> task \<noteq> None then task else idle);
       Some (0, k_cpu_set_thread c (Some next_ti)
         (upd_cpu c (cpu_regs_update (\<lambda>_. ti_regs (k_ti k ! next_ti))) k))
     }
   }"

definition k_thread_context_switch :: "int \<Rightarrow> 'h kernel \<Rightarrow> (int \<times> 'h kernel) option" where
  "k_thread_context_switch hart k = do {
     k \<leftarrow> k_smp_lock hart k;
     (r, k) \<leftarrow> k_thread_context_switch_nolock hart k;
     Some (r, k_smp_unlock k)
   }"

subsection \<open>Idle and main threads at start\<close>

definition init_idle_thread ::
    "kconfig \<Rightarrow> layout \<Rightarrow> int \<Rightarrow> k_arch_user_regs \<Rightarrow> cptr \<Rightarrow> u64 \<Rightarrow> 'h kernel \<Rightarrow> (int \<times> 'h kernel) option" where
  "init_idle_thread cfg sy hart ctx c leader_arg k = do {
     _ \<leftarrow> k_proc_get_current k;
     let n = of_int (id_cpu (cpu_dev k c) + 1);
         sp_user = sym_stack_idle sy + n * of_nat (IDLE_STACK_SIZE cfg);
         sp_intr = sym_stack_intr sy + n * of_nat (INTR_STACK_SIZE cfg)
     in do {
       (created, k) \<leftarrow> k_thread_create hart ctx k;
       case created of
         None \<Rightarrow> Some (- EAGAIN, k)
       | Some t \<Rightarrow>
           let regs = ti_regs (k_ti k ! t);
               regs = k_arch_set_arg regs K_ARCH_ARG_TYPE_1 leader_arg;
               regs = k_arch_set_arg regs K_ARCH_ARG_TYPE_STACK sp_user;
               regs = k_arch_set_arg regs K_ARCH_ARG_TYPE_STACK_INTR sp_intr;
               regs = k_arch_set_arg regs K_ARCH_ARG_TYPE_INTADDR (sym_idle_main sy)
           in Some (0, k_cpu_set_thread_idle c (Some t) (upd_ti t (ti_regs_update (\<lambda>_. regs)) k))
     }
   }"

text \<open>The stack pointer of the main thread is one word below the argument vector, where it finds \<open>argc\<close>.\<close>

definition k_libc_init_main_thread :: "layout \<Rightarrow> tptr \<Rightarrow> nat \<Rightarrow> u64 \<Rightarrow> u64 \<Rightarrow> 'h kernel \<Rightarrow> 'h kernel" where
  "k_libc_init_main_thread sy t argc argv sp_intr k =
     (let sp_user = argv - 8;
          k = k\<lparr>user_word := (user_word k)(sp_user := of_nat argc)\<rparr>;
          regs = ti_regs (k_ti k ! t);
          regs = k_arch_set_arg regs K_ARCH_ARG_TYPE_1 0;
          regs = k_arch_set_arg regs K_ARCH_ARG_TYPE_STACK sp_user;
          regs = k_arch_set_arg regs K_ARCH_ARG_TYPE_STACK_INTR sp_intr;
          regs = k_arch_set_arg regs K_ARCH_ARG_TYPE_INTADDR (sym_start sy)
      in upd_ti t (ti_regs_update (\<lambda>_. regs)) k)"

definition init_main_thread ::
    "layout \<Rightarrow> int \<Rightarrow> k_arch_user_regs \<Rightarrow> nat \<Rightarrow> u64 \<Rightarrow> u64 \<Rightarrow> 'h kernel \<Rightarrow> (int \<times> 'h kernel) option" where
  "init_main_thread sy hart ctx argc argv sp_intr k = do {
     c \<leftarrow> k_cpu_get_current k hart;
     _ \<leftarrow> k_proc_get_current k;
     (created, k) \<leftarrow> k_thread_create hart ctx k;
     case created of
       None \<Rightarrow> Some (- EAGAIN, k)
     | Some t \<Rightarrow>
         let k = k_libc_init_main_thread sy t argc argv sp_intr k;
             k = k_proc_set_leader (Some t) k
         in Some (k_thread_run t c k)
   }"

subsection \<open>Invariant and reference definitions\<close>

text \<open>
  The invariant of the thread table: the task thread of a CPU is an allocated, running thread
  that knows its CPU, every running thread is the task of the CPU it names, idle threads are
  allocated and not running, and the ids of allocated threads are different and below the next
  id.  \<open>locks_free\<close> says that no lock is held.
\<close>

definition task_inv :: "'h kernel \<Rightarrow> bool" where
  "task_inv k \<longleftrightarrow> (\<forall>c t. Some c \<in> set (cpus k) \<longrightarrow> ti_task (cpu_dev k c) = Some t \<longrightarrow>
     t < length (k_ti k) \<and> avail (k_ti k ! t) \<and> running (k_ti k ! t) \<and> ti_cpu (k_ti k ! t) = Some c)"

definition run_inv :: "'h kernel \<Rightarrow> bool" where
  "run_inv k \<longleftrightarrow> (\<forall>t < length (k_ti k). running (k_ti k ! t) \<longrightarrow> avail (k_ti k ! t) \<and>
     (\<exists>c. Some c \<in> set (cpus k) \<and> ti_cpu (k_ti k ! t) = Some c \<and> ti_task (cpu_dev k c) = Some t))"

definition idle_inv :: "'h kernel \<Rightarrow> bool" where
  "idle_inv k \<longleftrightarrow> (\<forall>c t. Some c \<in> set (cpus k) \<longrightarrow> ti_idle (cpu_dev k c) = Some t \<longrightarrow>
     t < length (k_ti k) \<and> avail (k_ti k ! t) \<and> \<not> running (k_ti k ! t))"

definition tid_inv :: "'h kernel \<Rightarrow> bool" where
  "tid_inv k \<longleftrightarrow> (\<forall>t < length (k_ti k). avail (k_ti k ! t) \<longrightarrow> unat (tid (k_ti k ! t)) < unat (uniq_tid k)) \<and>
     (\<forall>t < length (k_ti k). \<forall>u < length (k_ti k). avail (k_ti k ! t) \<longrightarrow> avail (k_ti k ! u) \<longrightarrow>
        tid (k_ti k ! t) = tid (k_ti k ! u) \<longrightarrow> t = u)"

definition thread_inv :: "'h kernel \<Rightarrow> bool" where
  "thread_inv k \<longleftrightarrow> task_inv k \<and> run_inv k \<and> idle_inv k \<and> tid_inv k"

definition locks_free :: "'h kernel \<Rightarrow> bool" where
  "locks_free k \<longleftrightarrow> unlocked (lock_smp k) \<and> unlocked (pi_lock (k_pi k)) \<and>
     (\<forall>c. Some c \<in> set (cpus k) \<longrightarrow> unlocked (cpu_lock (cpu_dev k c)))"

text \<open>The steps of a thread's life: \<open>t\<close> becomes the task of CPU \<open>c\<close>, and it ends.\<close>

definition starts :: "'h kernel \<Rightarrow> cptr \<Rightarrow> tptr \<Rightarrow> 'h kernel \<Rightarrow> bool" where
  "starts k c t k' \<longleftrightarrow>
     Some c \<in> set (cpus k) \<and> ti_task (cpu_dev k c) = None \<and>
     t < length (k_ti k) \<and> \<not> avail (k_ti k ! t) \<and>
     cpus k' = cpus k \<and> length (k_ti k') = length (k_ti k) \<and>
     avail (k_ti k' ! t) \<and> running (k_ti k' ! t) \<and> ti_cpu (k_ti k' ! t) = Some c \<and>
     tid (k_ti k' ! t) = uniq_tid k \<and> unat (uniq_tid k') = unat (uniq_tid k) + 1 \<and>
     (\<forall>u. u \<noteq> t \<longrightarrow> k_ti k' ! u = k_ti k ! u) \<and>
     ti_task (cpu_dev k' c) = Some t \<and> (\<forall>d. d \<noteq> c \<longrightarrow> ti_task (cpu_dev k' d) = ti_task (cpu_dev k d)) \<and>
     (\<forall>d. ti_idle (cpu_dev k' d) = ti_idle (cpu_dev k d))"

definition same_thread :: "k_thread_info \<Rightarrow> k_thread_info \<Rightarrow> bool" where
  "same_thread a b \<longleftrightarrow> avail a = avail b \<and> running a = running b \<and> tid a = tid b \<and> ti_cpu a = ti_cpu b"

definition finishes :: "'h kernel \<Rightarrow> cptr \<Rightarrow> tptr \<Rightarrow> 'h kernel \<Rightarrow> bool" where
  "finishes k c t k' \<longleftrightarrow>
     Some c \<in> set (cpus k) \<and> ti_task (cpu_dev k c) = Some t \<and>
     cpus k' = cpus k \<and> length (k_ti k') = length (k_ti k) \<and>
     \<not> avail (k_ti k' ! t) \<and> \<not> running (k_ti k' ! t) \<and> uniq_tid k' = uniq_tid k \<and>
     (\<forall>u. u \<noteq> t \<longrightarrow> same_thread (k_ti k' ! u) (k_ti k ! u)) \<and>
     ti_task (cpu_dev k' c) = None \<and> (\<forall>d. d \<noteq> c \<longrightarrow> ti_task (cpu_dev k' d) = ti_task (cpu_dev k d)) \<and>
     (\<forall>d. ti_idle (cpu_dev k' d) = ti_idle (cpu_dev k d))"

text \<open>The registers a cloned thread starts with: those of its creator, with its own stack and a result of 0.\<close>

definition clone_regs :: "kconfig \<Rightarrow> layout \<Rightarrow> k_clone_args \<Rightarrow> k_cpu_device \<Rightarrow> k_arch_user_regs \<Rightarrow> k_arch_user_regs" where
  "clone_regs cfg sy args d regs =
     regs\<lparr>rv_a0 := 0, rv_sp := ca_child_stack args,
       rv_mscratch := sym_stack_intr sy + of_int (id_cpu d + 1) * of_nat (INTR_STACK_SIZE cfg),
       rv_tp := (if ca_flags args AND CLONE_SETTLS \<noteq> 0 then ca_tls args else 0)\<rparr>"

text \<open>The kernel state in which \<open>k_thread_clone\<close> sends the interrupt to the CPU of the new thread.\<close>

definition cloned :: "kconfig \<Rightarrow> layout \<Rightarrow> int \<Rightarrow> k_arch_user_regs \<Rightarrow> k_clone_args \<Rightarrow> cptr \<Rightarrow> cptr \<Rightarrow> tptr \<Rightarrow> 'h kernel \<Rightarrow> 'h kernel" where
  "cloned cfg sy hart ctx args cur c t k =
     (let k = k\<lparr>lock_smp := \<lparr>lock_val = 0, lock_id = - 1\<rparr>\<rparr>;
          k = upd_cpu c (cpu_lock_update (\<lambda>_. \<lparr>lock_val = 1, lock_id = hart\<rparr>)) k;
          k = k\<lparr>uniq_tid := uniq_tid k + 1\<rparr>;
          k = upd_ti t (\<lambda>ti. ti\<lparr>ti_pi := True, tid := uniq_tid k - 1, avail := True, running := False,
                ti_sp := 0, ctid := 0, ptid := 0, ti_regs := snd (k_arch_thread_init ctx)\<rparr>) k;
          k = k\<lparr>k_pi := (k_pi k)\<lparr>pi_lock := \<lparr>lock_val = 0, lock_id = - 1\<rparr>\<rparr>\<rparr>
      in snd (k_thread_run t c (clone_fill cfg sy args cur c t k)))"

text \<open>
  A system of two CPUs: hart 0 runs the leader, thread 0, hart 1 is idle; threads 1 and 2 are the
  idle threads, thread 3 is free.
\<close>

definition regs0 :: k_arch_user_regs where
  "regs0 = k_arch_user_regs.make 0 0 0 0 0 0 0 0 0 0 0 0 0 0 0 0 0 0 0 0 0 0 0 0 0 0 0 0 0 0 0 0 0 0"

definition example_cpu :: "cptr \<Rightarrow> k_cpu_device" where
  "example_cpu c =
     \<lparr>id_cpu = int c, id_phys = int c, cpu_running = True, cpu_regs = regs0\<lparr>rv_a0 := of_nat c\<rparr>,
      cpu_lock = lock_static, cpu_ti = (if c = 0 then Some 0 else Some 2), ti_idle = Some (Suc c),
      ti_task = (if c = 0 then Some 0 else None), cpu_handlers = (\<lambda>n. 100 + n),
      futex = \<lparr>fx_uaddr = 0, fx_val = 0, fx_bitset = 0, fx_wakeup = False\<rparr>, line_size_i = 64, line_size_d = 64\<rparr>"

definition example_thread :: "nat \<Rightarrow> k_thread_info" where
  "example_thread n =
     \<lparr>ti_pi = True, tid = of_nat n + 1, avail = (n < 3), running = (n = 0), ti_flags = 0, ti_sp = 0, robust_list = 0,
      robust_len = 0, ctid = 0, ptid = 0, tls = 0, ti_regs = regs0\<lparr>rv_a1 := of_nat n\<rparr>,
      ti_cpu = (if n = 0 then Some 0 else None)\<rparr>"

definition example_kernel :: "unit kernel" where
  "example_kernel =
     \<lparr>k_pi = \<lparr>pid = 1, pi_avail = True, pi_lock = lock_static, leader = Some 0\<rparr>,
      k_ti = map example_thread [0, 1, 2, 3], uniq_tid = 4, cpus = [Some 0, Some 1], uniq_id_cpu = 2,
      cpu_dev = example_cpu, lock_smp = lock_static, user_int = (\<lambda>_. 0), user_word = (\<lambda>_. 0),
      comm_area = \<lparr>cm_magic = 0, cm_num_args = 0, cm_done = 0, cm_ret_main = 0\<rparr>, comm_buf = (\<lambda>_. 0), hw = ()\<rparr>"

definition example_ops :: "unit k_cpu_driver_ops" where
  "example_ops =
     \<lparr>op_wakeup = None, op_sleep = None, op_on_wakeup = None, op_on_sleep = None,
      op_raise_ipi = Some (\<lambda>_ _ h. (0, h)),
      op_clean_range = None, op_inv_range = None, op_flush_range = None\<rparr>"

definition example_layout :: layout where
  "example_layout =
     \<lparr>sym_stack_intr = 0x80000000, sym_stack_idle = 0x80010000, sym_stack_main = 0x80020000,
      sym_idle_main = 0x80030000, sym_start = 0x80040000, sym_comm_area = 0x80050000\<rparr>"

definition example_args :: k_clone_args where
  "example_args =
     \<lparr>ca_flags = CLONE_SETTLS OR CLONE_CHILD_SETTID, ca_pidfd = 0, ca_ctid = 0x9000, ca_ptid = 0,
      ca_exit_signal = 0, ca_child_stack = 0x8800, ca_stack_size = 0, ca_tls = 0x7000, ca_set_tid = 0,
      ca_set_tid_size = 0, ca_cgroup = 0\<rparr>"

subsection \<open>Invariant of the thread table\<close>

lemma task_invD:
  "thread_inv k \<Longrightarrow> Some c \<in> set (cpus k) \<Longrightarrow> ti_task (cpu_dev k c) = Some t \<Longrightarrow>
   t < length (k_ti k) \<and> avail (k_ti k ! t) \<and> running (k_ti k ! t) \<and> ti_cpu (k_ti k ! t) = Some c"
  by (simp add: thread_inv_def task_inv_def)

lemma run_invD:
  "thread_inv k \<Longrightarrow> t < length (k_ti k) \<Longrightarrow> running (k_ti k ! t) \<Longrightarrow> avail (k_ti k ! t) \<and>
   (\<exists>c. Some c \<in> set (cpus k) \<and> ti_cpu (k_ti k ! t) = Some c \<and> ti_task (cpu_dev k c) = Some t)"
  by (simp add: thread_inv_def run_inv_def)

lemma idle_invD:
  "thread_inv k \<Longrightarrow> Some c \<in> set (cpus k) \<Longrightarrow> ti_idle (cpu_dev k c) = Some t \<Longrightarrow>
   t < length (k_ti k) \<and> avail (k_ti k ! t) \<and> \<not> running (k_ti k ! t)"
  by (simp add: thread_inv_def idle_inv_def)

lemma tid_invD:
  "thread_inv k \<Longrightarrow> t < length (k_ti k) \<Longrightarrow> avail (k_ti k ! t) \<Longrightarrow> unat (tid (k_ti k ! t)) < unat (uniq_tid k)"
  "thread_inv k \<Longrightarrow> t < length (k_ti k) \<Longrightarrow> u < length (k_ti k) \<Longrightarrow> avail (k_ti k ! t) \<Longrightarrow> avail (k_ti k ! u) \<Longrightarrow>
   tid (k_ti k ! t) = tid (k_ti k ! u) \<Longrightarrow> t = u"
  by (simp_all add: thread_inv_def tid_inv_def)

lemma task_inv_starts:
  assumes inv: "thread_inv k" and st: "starts k c t k'"
  shows "task_inv k'"
  unfolding task_inv_def
proof (intro allI impI)
  fix d u assume d: "Some d \<in> set (cpus k')" "ti_task (cpu_dev k' d) = Some u"
  show "u < length (k_ti k') \<and> avail (k_ti k' ! u) \<and> running (k_ti k' ! u) \<and> ti_cpu (k_ti k' ! u) = Some d"
  proof (cases "d = c")
    case False
    then have "Some d \<in> set (cpus k)" "ti_task (cpu_dev k d) = Some u" using st d by (auto simp: starts_def)
    from task_invD [OF inv this] st show ?thesis by (cases "u = t") (auto simp: starts_def)
  qed (use d st in \<open>auto simp: starts_def\<close>)
qed

lemma run_inv_starts:
  assumes inv: "thread_inv k" and st: "starts k c t k'"
  shows "run_inv k'"
  unfolding run_inv_def
proof (intro allI impI)
  fix u assume u: "u < length (k_ti k')" "running (k_ti k' ! u)"
  show "avail (k_ti k' ! u) \<and>
    (\<exists>d. Some d \<in> set (cpus k') \<and> ti_cpu (k_ti k' ! u) = Some d \<and> ti_task (cpu_dev k' d) = Some u)"
  proof (cases "u = t")
    case False
    then have "u < length (k_ti k)" "running (k_ti k ! u)" using u st by (auto simp: starts_def)
    from run_invD [OF inv this] obtain d where
      "avail (k_ti k ! u)" "Some d \<in> set (cpus k)" "ti_cpu (k_ti k ! u) = Some d" "ti_task (cpu_dev k d) = Some u"
      by blast
    then show ?thesis using False st by (cases "d = c") (auto simp: starts_def)
  qed (use st in \<open>auto simp: starts_def\<close>)
qed

lemma idle_inv_starts:
  assumes inv: "thread_inv k" and st: "starts k c t k'"
  shows "idle_inv k'"
  unfolding idle_inv_def
proof (intro allI impI)
  fix d u assume "Some d \<in> set (cpus k')" "ti_idle (cpu_dev k' d) = Some u"
  then have "Some d \<in> set (cpus k)" "ti_idle (cpu_dev k d) = Some u" using st by (auto simp: starts_def)
  from idle_invD [OF inv this] st
  show "u < length (k_ti k') \<and> avail (k_ti k' ! u) \<and> \<not> running (k_ti k' ! u)"
    by (cases "u = t") (auto simp: starts_def)
qed

lemma tid_inv_starts:
  assumes inv: "thread_inv k" and st: "starts k c t k'"
  shows "tid_inv k'"
  unfolding tid_inv_def
proof (intro conjI allI impI)
  have fresh: "u < length (k_ti k) \<Longrightarrow> avail (k_ti k ! u) \<Longrightarrow> tid (k_ti k ! u) \<noteq> uniq_tid k" for u
    using tid_invD(1) [OF inv] by fastforce
  fix u assume u: "u < length (k_ti k')" "avail (k_ti k' ! u)"
  show "unat (tid (k_ti k' ! u)) < unat (uniq_tid k')"
    using u st tid_invD(1) [OF inv, of u] by (cases "u = t") (auto simp: starts_def)
  fix v assume v: "v < length (k_ti k')" "avail (k_ti k' ! v)" "tid (k_ti k' ! u) = tid (k_ti k' ! v)"
  show "u = v"
    using u v st fresh [of u] fresh [of v] tid_invD(2) [OF inv, of u v]
    by (cases "u = t"; cases "v = t") (auto simp: starts_def)
qed

lemma thread_inv_starts: "thread_inv k \<Longrightarrow> starts k c t k' \<Longrightarrow> thread_inv k'"
  unfolding thread_inv_def [of k']
  by (intro conjI) (rule task_inv_starts run_inv_starts idle_inv_starts tid_inv_starts; assumption)+

lemma task_inv_finishes:
  assumes inv: "thread_inv k" and fin: "finishes k c t k'"
  shows "task_inv k'"
  unfolding task_inv_def
proof (intro allI impI)
  fix d u assume d: "Some d \<in> set (cpus k')" "ti_task (cpu_dev k' d) = Some u"
  have dc: "d \<noteq> c" using d fin by (auto simp: finishes_def)
  then have "Some d \<in> set (cpus k)" "ti_task (cpu_dev k d) = Some u"
    using d fin by (auto simp: finishes_def)
  with dc task_invD [OF inv, of d u] task_invD [OF inv, of c t] fin
  show "u < length (k_ti k') \<and> avail (k_ti k' ! u) \<and> running (k_ti k' ! u) \<and> ti_cpu (k_ti k' ! u) = Some d"
    by (cases "u = t") (auto simp: finishes_def same_thread_def)
qed

lemma run_inv_finishes:
  assumes inv: "thread_inv k" and fin: "finishes k c t k'"
  shows "run_inv k'"
  unfolding run_inv_def
proof (intro allI impI)
  fix u assume u: "u < length (k_ti k')" "running (k_ti k' ! u)"
  then have ut: "u \<noteq> t" using fin by (auto simp: finishes_def)
  then have same: "same_thread (k_ti k' ! u) (k_ti k ! u)" using fin by (auto simp: finishes_def)
  then have "u < length (k_ti k)" "running (k_ti k ! u)" using u fin by (auto simp: finishes_def same_thread_def)
  from run_invD [OF inv this] obtain d where
    "avail (k_ti k ! u)" "Some d \<in> set (cpus k)" "ti_cpu (k_ti k ! u) = Some d" "ti_task (cpu_dev k d) = Some u"
    by blast
  then show "avail (k_ti k' ! u) \<and>
    (\<exists>d. Some d \<in> set (cpus k') \<and> ti_cpu (k_ti k' ! u) = Some d \<and> ti_task (cpu_dev k' d) = Some u)"
    using ut same fin by (cases "d = c") (auto simp: finishes_def same_thread_def)
qed

lemma idle_inv_finishes:
  assumes inv: "thread_inv k" and fin: "finishes k c t k'"
  shows "idle_inv k'"
  unfolding idle_inv_def
proof (intro allI impI)
  fix d u assume "Some d \<in> set (cpus k')" "ti_idle (cpu_dev k' d) = Some u"
  then have "Some d \<in> set (cpus k)" "ti_idle (cpu_dev k d) = Some u" using fin by (auto simp: finishes_def)
  from idle_invD [OF inv this] task_invD [OF inv, of c t] fin
  show "u < length (k_ti k') \<and> avail (k_ti k' ! u) \<and> \<not> running (k_ti k' ! u)"
    by (cases "u = t") (auto simp: finishes_def same_thread_def)
qed

lemma tid_inv_finishes:
  assumes inv: "thread_inv k" and fin: "finishes k c t k'"
  shows "tid_inv k'"
proof -
  have sub: "avail (k_ti k' ! u) \<Longrightarrow> avail (k_ti k ! u) \<and> tid (k_ti k' ! u) = tid (k_ti k ! u)" for u
    using fin by (cases "u = t") (auto simp: finishes_def same_thread_def)
  moreover have "length (k_ti k') = length (k_ti k)" "uniq_tid k' = uniq_tid k"
    using fin by (auto simp: finishes_def)
  ultimately show ?thesis
    using tid_invD [OF inv] unfolding tid_inv_def by metis
qed

lemma thread_inv_finishes: "thread_inv k \<Longrightarrow> finishes k c t k' \<Longrightarrow> thread_inv k'"
  unfolding thread_inv_def [of k']
  by (intro conjI) (rule task_inv_finishes run_inv_finishes idle_inv_finishes tid_inv_finishes; assumption)+

lemma k_cpu_get_current_cong:
  assumes "cpus k' = cpus k" "\<And>c. id_phys (cpu_dev k' c) = id_phys (cpu_dev k c)"
  shows "k_cpu_get_current k' hart = k_cpu_get_current k hart"
proof -
  have "phys_entry k' hart = phys_entry k hart"
    using assms(2) by (auto simp: phys_entry_def fun_eq_iff split: option.split)
  then show ?thesis
    using assms(1) by (simp add: k_cpu_get_current_def k_cpu_get_by_physical_id_def split: option.split)
qed

lemma find_idle_Some:
  assumes "k_smp_find_idle_cpu k = (r, Some c)"
  shows "r = 0 \<and> Some c \<in> set (cpus k) \<and> ti_task (cpu_dev k c) = None"
  using assms by (auto simp: k_smp_find_idle_cpu_def find_index_Some idle_entry_def
      split: option.splits dest: nth_mem)

lemma find_idle_cong:
  assumes "cpus k' = cpus k" "\<And>c. ti_task (cpu_dev k' c) = ti_task (cpu_dev k c)"
  shows "k_smp_find_idle_cpu k' = k_smp_find_idle_cpu k"
proof -
  have "idle_entry k' = idle_entry k"
    using assms(2) by (auto simp: idle_entry_def fun_eq_iff split: option.split)
  then show ?thesis
    using assms(1) by (simp add: k_smp_find_idle_cpu_def split: option.split)
qed

lemma upd_cpu_simps [simp]:
  "k_ti (upd_cpu c f k) = k_ti k" "cpus (upd_cpu c f k) = cpus k" "k_pi (upd_cpu c f k) = k_pi k"
  "uniq_tid (upd_cpu c f k) = uniq_tid k" "lock_smp (upd_cpu c f k) = lock_smp k" "hw (upd_cpu c f k) = hw k"
  "user_int (upd_cpu c f k) = user_int k" "user_word (upd_cpu c f k) = user_word k" "comm_area (upd_cpu c f k) = comm_area k"
  "comm_buf (upd_cpu c f k) = comm_buf k"
  "cpu_dev (upd_cpu c f k) d = (if d = c then f (cpu_dev k c) else cpu_dev k d)"
  by (simp_all add: upd_cpu_def)

lemma upd_ti_simps [simp]:
  "cpu_dev (upd_ti t g k) = cpu_dev k" "cpus (upd_ti t g k) = cpus k" "k_pi (upd_ti t g k) = k_pi k"
  "uniq_tid (upd_ti t g k) = uniq_tid k" "lock_smp (upd_ti t g k) = lock_smp k" "hw (upd_ti t g k) = hw k"
  "user_int (upd_ti t g k) = user_int k" "user_word (upd_ti t g k) = user_word k" "comm_area (upd_ti t g k) = comm_area k"
  "comm_buf (upd_ti t g k) = comm_buf k"
  "length (k_ti (upd_ti t g k)) = length (k_ti k)"
  "t < length (k_ti k) \<Longrightarrow> k_ti (upd_ti t g k) ! t = g (k_ti k ! t)"
  "u \<noteq> t \<Longrightarrow> k_ti (upd_ti t g k) ! u = k_ti k ! u"
  by (simp_all add: upd_ti_def)

lemmas kernel_ops = k_cpu_set_thread_task_def k_cpu_set_thread_def k_cpu_unlock_def k_smp_unlock_def
  pi_unlock_k_def k_cpu_set_running_def k_cpu_set_thread_idle_def

lemma clone_fill_simps:
  assumes "t < length (k_ti k)"
  shows "cpu_dev (clone_fill cfg sy args cur c t k) = cpu_dev k"
    "cpus (clone_fill cfg sy args cur c t k) = cpus k"
    "k_pi (clone_fill cfg sy args cur c t k) = k_pi k"
    "uniq_tid (clone_fill cfg sy args cur c t k) = uniq_tid k"
    "lock_smp (clone_fill cfg sy args cur c t k) = lock_smp k"
    "hw (clone_fill cfg sy args cur c t k) = hw k"
    "length (k_ti (clone_fill cfg sy args cur c t k)) = length (k_ti k)"
    "u \<noteq> t \<Longrightarrow> k_ti (clone_fill cfg sy args cur c t k) ! u = k_ti k ! u"
    "ti_regs (k_ti (clone_fill cfg sy args cur c t k) ! t) =
       clone_regs cfg sy args (cpu_dev k c) (cpu_regs (cpu_dev k cur))"
    "same_thread (k_ti (clone_fill cfg sy args cur c t k) ! t) (k_ti k ! t)"
    "ti_flags (k_ti (clone_fill cfg sy args cur c t k) ! t) = ca_flags args"
    "ctid (k_ti (clone_fill cfg sy args cur c t k) ! t) =
       (if ca_flags args AND (CLONE_CHILD_CLEARTID OR CLONE_CHILD_SETTID) \<noteq> 0 then ca_ctid args else 0)"
  using assms by (simp_all add: clone_fill_def Let_def clone_regs_def same_thread_def)

lemma clone_fill_user_int:
  assumes "t < length (k_ti k)"
  shows "user_int (clone_fill cfg sy args cur c t k) =
    (let u = user_int k; i = tid (k_ti k ! t);
         u = (if ca_flags args AND CLONE_CHILD_SETTID \<noteq> 0 then u(ca_ctid args := i) else u)
     in if ca_flags args AND CLONE_PARENT_SETTID \<noteq> 0 then u(ca_ptid args := i) else u)"
proof -
  have "ca_flags args AND CLONE_CHILD_SETTID =
      (ca_flags args AND (CLONE_CHILD_CLEARTID OR CLONE_CHILD_SETTID)) AND CLONE_CHILD_SETTID"
    by (simp add: and.assoc)
  then have "ca_flags args AND CLONE_CHILD_SETTID \<noteq> 0 \<Longrightarrow>
      ca_flags args AND (CLONE_CHILD_CLEARTID OR CLONE_CHILD_SETTID) \<noteq> 0"
    by auto
  then show ?thesis
    using assms by (simp add: clone_fill_def Let_def)
qed

lemma lock_unlock_value [simp]:
  "s\<lparr>lock_val := v, lock_id := h\<rparr> = \<lparr>lock_val = v, lock_id = h\<rparr>"
  "k_spinlock_unlock s = \<lparr>lock_val = 0, lock_id = - 1\<rparr>" for s :: k_spinlock
  by (simp_all add: lock_defs)

lemma clone_reaches_ipi:
  assumes lf: "locks_free k" and pi: "pi_avail (k_pi k)" and ok: "clone_check args"
    and cur: "k_cpu_get_current k hart = Some cur" and idle: "k_smp_find_idle_cpu k = (0, Some c)"
    and free: "find_index (\<lambda>ti. \<not> avail ti) (k_ti k) = Some t"
  shows "k_thread_clone cfg sy ops hart ctx args k =
    (let (r, k) = k_cpu_raise_ipi ops hart c (cloned cfg sy hart ctx args cur c t k)
     in if r \<noteq> 0 then do {
          (_, k) \<leftarrow> k_thread_stop t k;
          Some (r, k_cpu_unlock c (snd (k_thread_destroy t k)))
        }
        else Some (sint (tid (k_ti k ! t)), k_cpu_unlock c k))"
proof -
  have c: "Some c \<in> set (cpus k)" using find_idle_Some [OF idle] by simp
  have "unlocked (lock_smp k)" "unlocked (pi_lock (k_pi k))" "unlocked (cpu_lock (cpu_dev k c))"
    using lf c by (auto simp: locks_free_def)
  moreover have "k_smp_find_idle_cpu (k\<lparr>lock_smp := l\<rparr>) = (0, Some c)" for l
    using find_idle_cong [of "k\<lparr>lock_smp := l\<rparr>" k] idle by simp
  ultimately show ?thesis
    using assms(2-6)
    by (simp add: k_thread_clone_def k_proc_get_current_def k_smp_lock_def k_smp_unlock_def
       k_cpu_lock_def k_thread_create_def pi_lock_k_def alloc_tid_def k_afetch_add_def
       pi_unlock_k_def k_thread_run_def cloned_def Let_def k_arch_thread_init_def upd_ti_def upd_cpu_def
       split: prod.split)
qed

lemma unat_Suc_u32: "unat (x :: u32) + 1 < 2 ^ 32 \<Longrightarrow> unat (x + 1) = unat x + 1"
  using unat_add_lem [of x 1] by simp

lemma cloned_simps:
  assumes "t < length (k_ti k)"
  shows "cpus (cloned cfg sy hart ctx args cur c t k) = cpus k"
    "length (k_ti (cloned cfg sy hart ctx args cur c t k)) = length (k_ti k)"
    "uniq_tid (cloned cfg sy hart ctx args cur c t k) = uniq_tid k + 1"
    "u \<noteq> t \<Longrightarrow> k_ti (cloned cfg sy hart ctx args cur c t k) ! u = k_ti k ! u"
    "cpu_dev (cloned cfg sy hart ctx args cur c t k) d =
      (if d = c then (cpu_dev k c)\<lparr>cpu_lock := \<lparr>lock_val = 1, lock_id = hart\<rparr>, ti_task := Some t\<rparr> else cpu_dev k d)"
    "lock_smp (cloned cfg sy hart ctx args cur c t k) = \<lparr>lock_val = 0, lock_id = - 1\<rparr>"
    "k_pi (cloned cfg sy hart ctx args cur c t k) = (k_pi k)\<lparr>pi_lock := \<lparr>lock_val = 0, lock_id = - 1\<rparr>\<rparr>"
    "hw (cloned cfg sy hart ctx args cur c t k) = hw k"
  using assms by (simp_all add: cloned_def Let_def k_thread_run_def k_cpu_set_thread_task_def clone_fill_simps)

lemma cloned_thread:
  assumes "t < length (k_ti k)"
    and n_def: "n = k_ti (cloned cfg sy hart ctx args cur c t k) ! t"
  shows "avail n" "running n" "ti_cpu n = Some c" "tid n = uniq_tid k" "ti_flags n = ca_flags args"
    "ti_regs n = clone_regs cfg sy args (cpu_dev k c) (cpu_regs (cpu_dev k cur))"
    "ctid n = (if ca_flags args AND (CLONE_CHILD_CLEARTID OR CLONE_CHILD_SETTID) \<noteq> 0 then ca_ctid args else 0)"
proof -
  let ?k = "k\<lparr>lock_smp := \<lparr>lock_val = 0, lock_id = - 1\<rparr>,
      cpu_dev := (cpu_dev k)(c := (cpu_dev k c)\<lparr>cpu_lock := \<lparr>lock_val = 1, lock_id = hart\<rparr>\<rparr>),
      uniq_tid := uniq_tid k + 1,
      k_ti := (k_ti k)[t := (k_ti k ! t)\<lparr>ti_pi := True, tid := uniq_tid k, avail := True, running := False,
        ti_sp := 0, ctid := 0, ptid := 0, ti_regs := snd (k_arch_thread_init ctx)\<rparr>],
      k_pi := (k_pi k)\<lparr>pi_lock := \<lparr>lock_val = 0, lock_id = - 1\<rparr>\<rparr>\<rparr>"
  have n: "n = (k_ti (clone_fill cfg sy args cur c t ?k) ! t)\<lparr>running := True, ti_cpu := Some c\<rparr>"
    using assms(1) by (simp add: n_def cloned_def Let_def k_thread_run_def k_cpu_set_thread_task_def
        clone_fill_simps upd_cpu_def upd_ti_def)
  have t: "t < length (k_ti ?k)" using assms(1) by simp
  have same: "same_thread (k_ti (clone_fill cfg sy args cur c t ?k) ! t) (k_ti ?k ! t)"
    using clone_fill_simps(10) [OF t] .
  show "avail n" "tid n = uniq_tid k"
    using same assms(1) by (simp_all add: n same_thread_def)
  show "running n" "ti_cpu n = Some c" "ti_flags n = ca_flags args"
    by (simp_all add: n clone_fill_simps(11) [OF t])
  show "ti_regs n = clone_regs cfg sy args (cpu_dev k c) (cpu_regs (cpu_dev k cur))"
    using clone_fill_simps(9) [OF t] by (simp add: n clone_regs_def)
  show "ctid n = (if ca_flags args AND (CLONE_CHILD_CLEARTID OR CLONE_CHILD_SETTID) \<noteq> 0 then ca_ctid args else 0)"
    using clone_fill_simps(12) [OF t] by (simp add: n)
qed

lemma cloned_starts:
  assumes "k_smp_find_idle_cpu k = (0, Some c)" "find_index (\<lambda>ti. \<not> avail ti) (k_ti k) = Some t"
    and "unat (uniq_tid k) + 1 < 2 ^ 32"
  shows "starts k c t (cloned cfg sy hart ctx args cur c t k)"
proof -
  have t: "t < length (k_ti k)" "\<not> avail (k_ti k ! t)" using assms(2) by (auto simp: find_index_Some)
  show ?thesis
    unfolding starts_def
    using find_idle_Some [OF assms(1)] t cloned_simps [OF t(1)] cloned_thread [OF t(1) refl] unat_Suc_u32 [OF assms(3)]
    by simp
qed

lemma cloned_current:
  assumes "t < length (k_ti k)"
  shows "k_cpu_get_current (cloned cfg sy hart ctx args cur c t k) h = k_cpu_get_current k h"
  using cloned_simps [OF assms] by (intro k_cpu_get_current_cong) auto

lemma thread_inv_cong:
  assumes "cpus k' = cpus k" "k_ti k' = k_ti k" "uniq_tid k' = uniq_tid k"
    and "\<And>c. ti_task (cpu_dev k' c) = ti_task (cpu_dev k c)" "\<And>c. ti_idle (cpu_dev k' c) = ti_idle (cpu_dev k c)"
  shows "thread_inv k' \<longleftrightarrow> thread_inv k"
  using assms by (simp add: thread_inv_def task_inv_def run_inv_def idle_inv_def tid_inv_def)

lemma k_cpu_raise_ipi_frame:
  "k_cpu_raise_ipi ops hart d k = (r, k') \<Longrightarrow> \<exists>h. k' = k\<lparr>hw := h\<rparr>"
proof -
  have same: "\<exists>h. k = k\<lparr>hw := h\<rparr>" by (rule exI [of _ "hw k"]) simp
  show "k_cpu_raise_ipi ops hart d k = (r, k') \<Longrightarrow> ?thesis"
    using same by (auto simp: k_cpu_raise_ipi_def split: option.splits prod.splits)
qed

lemma k_cpu_raise_ipi_ok:
  assumes "k_cpu_get_current k hart = Some cur" "op_raise_ipi ops = Some f"
    and "fst (f (cpu_dev k cur) (cpu_dev k d) (hw k)) = 0"
  shows "\<exists>h. k_cpu_raise_ipi ops hart d k = (0, k\<lparr>hw := h\<rparr>)"
  using assms by (cases "f (cpu_dev k cur) (cpu_dev k d) (hw k)") (auto simp: k_cpu_raise_ipi_def)

lemma starts_cong:
  "starts k c t (k'\<lparr>hw := h\<rparr>) \<longleftrightarrow> starts k c t k'" "starts k c t (k_cpu_unlock d k') \<longleftrightarrow> starts k c t k'"
  by (auto simp: starts_def k_cpu_unlock_def)

lemma thread_inv_unlock [simp]:
  "thread_inv (k_cpu_unlock c k) \<longleftrightarrow> thread_inv k" "thread_inv (k\<lparr>hw := h\<rparr>) \<longleftrightarrow> thread_inv k"
  by (rule thread_inv_cong; simp add: k_cpu_unlock_def)+

text \<open>After the interrupt failed the new thread is taken back.\<close>

lemma clone_undo:
  assumes "thread_inv k" "Some c \<in> set (cpus k)" "ti_task (cpu_dev k c) = Some t"
  shows "\<exists>k1. k_thread_stop t k = Some (0, k1) \<and> fst (k_thread_destroy t k1) = 0 \<and>
    finishes k c t (snd (k_thread_destroy t k1)) \<and>
    lock_smp (snd (k_thread_destroy t k1)) = lock_smp k \<and> k_pi (snd (k_thread_destroy t k1)) = k_pi k \<and>
    (\<forall>d. cpu_dev (snd (k_thread_destroy t k1)) d = (if d = c then (cpu_dev k c)\<lparr>ti_task := None\<rparr> else cpu_dev k d))"
  using task_invD [OF assms] assms(2,3)
  by (simp add: k_thread_stop_def k_thread_destroy_def k_cpu_set_thread_task_def finishes_def same_thread_def)

lemma clone_ipi_result:
  assumes inv: "thread_inv k" and lf: "locks_free k"
    and idle: "k_smp_find_idle_cpu k = (0, Some c)" and free: "find_index (\<lambda>ti. \<not> avail ti) (k_ti k) = Some t"
    and bound: "unat (uniq_tid k) + 1 < 2 ^ 32"
    and ipi: "k_cpu_raise_ipi ops hart c (cloned cfg sy hart ctx args cur c t k) = (r, k1)"
  shows "if r = 0
    then thread_inv (k_cpu_unlock c k1) \<and> locks_free (k_cpu_unlock c k1) \<and> starts k c t (k_cpu_unlock c k1)
    else \<exists>k2. k_thread_stop t k1 = Some (0, k2) \<and> thread_inv (k_cpu_unlock c (snd (k_thread_destroy t k2))) \<and>
      locks_free (k_cpu_unlock c (snd (k_thread_destroy t k2))) \<and>
      finishes k1 c t (k_cpu_unlock c (snd (k_thread_destroy t k2)))"
proof -
  let ?k = "cloned cfg sy hart ctx args cur c t k"
  have t: "t < length (k_ti k)" using free by (simp add: find_index_Some)
  have c: "Some c \<in> set (cpus k)" using find_idle_Some [OF idle] by simp
  obtain h where k1: "k1 = ?k\<lparr>hw := h\<rparr>" using k_cpu_raise_ipi_frame [OF ipi] by blast
  have st: "starts k c t ?k" using cloned_starts [OF idle free bound] .
  have inv1: "thread_inv k1" using thread_inv_starts [OF inv st] k1 by simp
  have c1: "Some c \<in> set (cpus k1)" "ti_task (cpu_dev k1 c) = Some t" using st c k1 by (auto simp: starts_def)
  have locks: "unlocked (lock_smp k1)" "unlocked (pi_lock (k_pi k1))"
    "\<And>d. d \<noteq> c \<Longrightarrow> Some d \<in> set (cpus k) \<Longrightarrow> unlocked (cpu_lock (cpu_dev k1 d))" "cpus k1 = cpus k"
    using k1 cloned_simps [OF t] lf by (auto simp: locks_free_def unlocked_def)
  show ?thesis
  proof (cases "r = 0")
    case True
    have "locks_free (k_cpu_unlock c k1)"
      using locks by (auto simp: locks_free_def k_cpu_unlock_def unlocked_def)
    then show ?thesis using True inv1 st k1 by (simp add: starts_cong)
  next
    case False
    from clone_undo [OF inv1 c1] obtain k2 where k2: "k_thread_stop t k1 = Some (0, k2)"
      "finishes k1 c t (snd (k_thread_destroy t k2))"
      "lock_smp (snd (k_thread_destroy t k2)) = lock_smp k1" "k_pi (snd (k_thread_destroy t k2)) = k_pi k1"
      "\<And>d. cpu_dev (snd (k_thread_destroy t k2)) d = (if d = c then (cpu_dev k1 c)\<lparr>ti_task := None\<rparr> else cpu_dev k1 d)"
      by blast
    have fin: "finishes k1 c t (k_cpu_unlock c (snd (k_thread_destroy t k2)))"
      using k2(2) by (auto simp: finishes_def k_cpu_unlock_def)
    have "locks_free (k_cpu_unlock c (snd (k_thread_destroy t k2)))"
      using locks k2 fin by (auto simp: locks_free_def k_cpu_unlock_def unlocked_def finishes_def)
    then show ?thesis using False k2(1) fin thread_inv_finishes [OF inv1 fin] by simp
  qed
qed

lemma clone_no_thread:
  assumes lf: "locks_free k" and pi: "pi_avail (k_pi k)" and ok: "clone_check args"
    and cur: "k_cpu_get_current k hart = Some cur" and idle: "k_smp_find_idle_cpu k = (0, Some c)"
    and free: "find_index (\<lambda>ti. \<not> avail ti) (k_ti k) = None"
  shows "\<exists>k'. k_thread_clone cfg sy ops hart ctx args k = Some (- ENOMEM, k') \<and>
    (thread_inv k \<longrightarrow> thread_inv k') \<and> locks_free k'"
proof -
  have c: "Some c \<in> set (cpus k)" using find_idle_Some [OF idle] by simp
  have "unlocked (lock_smp k)" "unlocked (pi_lock (k_pi k))" "unlocked (cpu_lock (cpu_dev k c))"
    using lf c by (auto simp: locks_free_def)
  moreover have "k_smp_find_idle_cpu (k\<lparr>lock_smp := l\<rparr>) = (0, Some c)" for l
    using find_idle_cong [of "k\<lparr>lock_smp := l\<rparr>" k] idle by simp
  ultimately have "k_thread_clone cfg sy ops hart ctx args k =
    Some (- ENOMEM, k\<lparr>lock_smp := \<lparr>lock_val = 0, lock_id = - 1\<rparr>,
      k_pi := (k_pi k)\<lparr>pi_lock := \<lparr>lock_val = 0, lock_id = - 1\<rparr>\<rparr>,
      cpu_dev := (cpu_dev k)(c := (cpu_dev k c)\<lparr>cpu_lock := \<lparr>lock_val = 0, lock_id = - 1\<rparr>\<rparr>)\<rparr>)" (is "_ = Some (_, ?k')")
    using pi ok cur free
    by (simp add: k_thread_clone_def k_proc_get_current_def k_smp_lock_def k_smp_unlock_def
       k_cpu_lock_def k_thread_create_def pi_lock_k_def pi_unlock_k_def k_cpu_unlock_def upd_cpu_def
       o_def)
  moreover have "locks_free ?k'" using lf by (auto simp: locks_free_def unlocked_def)
  moreover have "thread_inv ?k' \<longleftrightarrow> thread_inv k" by (rule thread_inv_cong) auto
  ultimately show ?thesis by blast
qed

lemma clone_no_cpu:
  assumes lf: "locks_free k" and pi: "pi_avail (k_pi k)" and ok: "clone_check args"
    and cur: "k_cpu_get_current k hart = Some cur" and idle: "k_smp_find_idle_cpu k = (r, None)"
  shows "\<exists>k'. k_thread_clone cfg sy ops hart ctx args k = Some (- ENOMEM, k') \<and>
    (thread_inv k \<longrightarrow> thread_inv k') \<and> locks_free k'"
proof -
  have r: "r = - ENOMEM" using idle by (auto simp: k_smp_find_idle_cpu_def find_index_Some idle_entry_def split: option.splits)
  have "k_smp_find_idle_cpu (k\<lparr>lock_smp := l\<rparr>) = (r, None)" for l
    using find_idle_cong [of "k\<lparr>lock_smp := l\<rparr>" k] idle by simp
  then have "k_thread_clone cfg sy ops hart ctx args k =
      Some (- ENOMEM, k\<lparr>lock_smp := \<lparr>lock_val = 0, lock_id = - 1\<rparr>\<rparr>)" (is "_ = Some (_, ?k')")
    using pi ok cur lf r
    by (simp add: k_thread_clone_def k_proc_get_current_def k_smp_lock_def k_smp_unlock_def locks_free_def)
  moreover have "locks_free ?k'" using lf by (auto simp: locks_free_def unlocked_def)
  moreover have "thread_inv ?k' \<longleftrightarrow> thread_inv k" by (rule thread_inv_cong) auto
  ultimately show ?thesis by blast
qed

lemma clone_total:
  assumes inv: "thread_inv k" and lf: "locks_free k" and pi: "pi_avail (k_pi k)"
    and cur: "k_cpu_get_current k hart = Some cur" and bound: "unat (uniq_tid k) + 1 < 2 ^ 32"
  shows "\<exists>r k'. k_thread_clone cfg sy ops hart ctx args k = Some (r, k') \<and> thread_inv k' \<and> locks_free k'"
proof (cases "clone_check args")
  case False
  then show ?thesis using inv lf by (simp add: k_thread_clone_def)
next
  case ok: True
  obtain r e where re: "k_smp_find_idle_cpu k = (r, e)" by (metis surj_pair)
  show ?thesis
  proof (cases e)
    case None
    then show ?thesis using clone_no_cpu [OF lf pi ok cur] re inv by blast
  next
    case (Some c)
    then have idle: "k_smp_find_idle_cpu k = (0, Some c)" using re find_idle_Some [of k r c] by simp
    show ?thesis
    proof (cases "find_index (\<lambda>ti. \<not> avail ti) (k_ti k)")
      case None
      then show ?thesis using clone_no_thread [OF lf pi ok cur idle] inv by blast
    next
      case (Some t)
      obtain r k1 where ipi: "k_cpu_raise_ipi ops hart c (cloned cfg sy hart ctx args cur c t k) = (r, k1)"
        by (metis surj_pair)
      show ?thesis
        using clone_ipi_result [OF inv lf idle Some bound ipi] ipi
        by (auto simp: clone_reaches_ipi [OF lf pi ok cur idle Some] split: if_splits)
    qed
  qed
qed

lemma cloned_user_int:
  assumes "t < length (k_ti k)"
  shows "user_int (cloned cfg sy hart ctx args cur c t k) =
    (let u = user_int k; i = uniq_tid k;
         u = (if ca_flags args AND CLONE_CHILD_SETTID \<noteq> 0 then u(ca_ctid args := i) else u)
     in if ca_flags args AND CLONE_PARENT_SETTID \<noteq> 0 then u(ca_ptid args := i) else u)"
  using assms by (simp add: cloned_def Let_def k_thread_run_def k_cpu_set_thread_task_def clone_fill_user_int)

lemma example_kernel_inv: "thread_inv example_kernel" "locks_free example_kernel"
proof -
  have "task_inv example_kernel" "idle_inv example_kernel" "locks_free example_kernel"
    by (auto simp: task_inv_def idle_inv_def locks_free_def example_kernel_def example_cpu_def
        example_thread_def split: if_splits)
  moreover have "run_inv example_kernel"
    by (auto simp: run_inv_def example_kernel_def example_cpu_def example_thread_def nth_Cons' split: if_splits)
  moreover have "tid_inv example_kernel"
    by (auto simp: tid_inv_def example_kernel_def example_thread_def nth_Cons' split: if_splits)
  ultimately show "thread_inv example_kernel" "locks_free example_kernel" by (auto simp: thread_inv_def)
qed

lemma example_kernel_facts:
  "k_cpu_get_current example_kernel 0 = Some 0" "k_smp_find_idle_cpu example_kernel = (0, Some 1)"
  "find_index (\<lambda>ti. \<not> avail ti) (k_ti example_kernel) = Some 3" "clone_check example_args"
  "pi_avail (k_pi example_kernel)" "unat (uniq_tid example_kernel) + 1 < 2 ^ 32"
  by (simp_all add: k_cpu_get_current_def k_cpu_get_by_physical_id_def phys_entry_def k_smp_find_idle_cpu_def
      idle_entry_def example_kernel_def example_cpu_def example_thread_def clone_check_def example_args_def)

text \<open>
  C11. In the thread invariant with the locks free, a clone with valid arguments that finds an idle
  CPU, a free thread and a thread id below its maximum and can send its interrupt starts a new thread
  there: it returns the next thread id, which no allocated thread has; exactly that CPU changes its
  task and exactly that entry of the thread table changes. The new thread starts with the registers of
  its creator, except that its result is 0 and its stack, interrupt stack and thread pointer are its
  own; its id is stored in user space where the flags ask for it. All locks are free afterwards and the
  thread invariant holds.
\<close>

theorem k_thread_clone_starts:
  assumes "thread_inv k" "locks_free k" "pi_avail (k_pi k)" "clone_check args"
    and "k_cpu_get_current k hart = Some cur" "k_smp_find_idle_cpu k = (0, Some c)"
    and "find_index (\<lambda>ti. \<not> avail ti) (k_ti k) = Some t" "unat (uniq_tid k) + 1 < 2 ^ 32"
    and "op_raise_ipi ops = Some f" "\<And>a b. fst (f a b (hw k)) = 0"
  shows "\<exists>k'. k_thread_clone cfg sy ops hart ctx args k = Some (sint (uniq_tid k), k') \<and>
    thread_inv k' \<and> locks_free k' \<and> starts k c t k' \<and>
    ti_regs (k_ti k' ! t) = clone_regs cfg sy args (cpu_dev k c) (cpu_regs (cpu_dev k cur)) \<and>
    (ca_flags args AND CLONE_CHILD_SETTID \<noteq> 0 \<longrightarrow> user_int k' (ca_ctid args) = uniq_tid k) \<and>
    (ca_flags args AND CLONE_PARENT_SETTID \<noteq> 0 \<longrightarrow> user_int k' (ca_ptid args) = uniq_tid k)"
proof -
  let ?k = "cloned cfg sy hart ctx args cur c t k"
  have t: "t < length (k_ti k)" using assms(7) by (simp add: find_index_Some)
  obtain h where ipi: "k_cpu_raise_ipi ops hart c ?k = (0, ?k\<lparr>hw := h\<rparr>)"
    using k_cpu_raise_ipi_ok [OF _ assms(9), of ?k hart cur c] cloned_current [OF t] cloned_simps(8) [OF t]
      assms(5,10) by auto
  let ?k1 = "?k\<lparr>hw := h\<rparr>"
  have "k_thread_clone cfg sy ops hart ctx args k = Some (sint (uniq_tid k), k_cpu_unlock c ?k1)"
    using clone_reaches_ipi [OF assms(2-7), of cfg sy ops ctx] ipi cloned_thread(4) [OF t refl]
    by simp
  moreover have "thread_inv (k_cpu_unlock c ?k1) \<and> locks_free (k_cpu_unlock c ?k1) \<and> starts k c t (k_cpu_unlock c ?k1)"
    using clone_ipi_result [OF assms(1,2,6,7,8) ipi] by simp
  moreover have "ti_regs (k_ti (k_cpu_unlock c ?k1) ! t) = clone_regs cfg sy args (cpu_dev k c) (cpu_regs (cpu_dev k cur))"
    using cloned_thread(6) [OF t refl] by (simp add: k_cpu_unlock_def)
  ultimately show ?thesis
    using cloned_user_int [OF t, of cfg sy hart ctx args cur c]
    by (intro exI [of _ "k_cpu_unlock c ?k1"]) (simp add: k_cpu_unlock_def Let_def)
qed

theorem k_thread_clone_starts_witness:
  "\<exists>k'. k_thread_clone riscv_qemu_virt_64 example_layout example_ops 0 regs0 example_args example_kernel =
      Some (4, k') \<and> starts example_kernel 1 3 k' \<and> rv_sp (ti_regs (k_ti k' ! 3)) = 0x8800 \<and>
    rv_tp (ti_regs (k_ti k' ! 3)) = 0x7000 \<and> user_int k' 0x9000 = 4"
proof -
  have "op_raise_ipi example_ops = Some (\<lambda>_ _ h. (0, h))" by (simp add: example_ops_def)
  note k_thread_clone_starts [OF example_kernel_inv example_kernel_facts(5,4,1,2,3,6) this,
      of riscv_qemu_virt_64 example_layout regs0]
  moreover have "uniq_tid example_kernel = 4" by (simp add: example_kernel_def)
  ultimately show ?thesis
    by (auto simp: clone_regs_def example_args_def)
qed

text \<open>
  C12. Whatever its arguments, the state of the CPUs and the result of the interrupt, a clone in the
  thread invariant, with the locks free, the process in use and the thread ids not used up, returns
  with all locks free and the thread invariant kept: running threads are exactly the tasks of the CPUs,
  and ids are unique.
\<close>

theorem k_thread_clone_keeps_invariant:
  assumes "thread_inv k" "locks_free k" "pi_avail (k_pi k)"
    and "k_cpu_get_current k hart = Some cur" "unat (uniq_tid k) + 1 < 2 ^ 32"
  shows "\<exists>r k'. k_thread_clone cfg sy ops hart ctx args k = Some (r, k') \<and> thread_inv k' \<and> locks_free k'"
  using assms by (rule clone_total)

theorem k_thread_clone_keeps_invariant_witness:
  "\<exists>r k'. k_thread_clone riscv_qemu_virt_64 example_layout example_ops 0 regs0 example_args example_kernel = Some (r, k') \<and>
    thread_inv k' \<and> locks_free k'"
  by (rule k_thread_clone_keeps_invariant [OF example_kernel_inv example_kernel_facts(5,1,6)])

text \<open>Creating a thread.\<close>

definition creates :: "'h kernel \<Rightarrow> tptr \<Rightarrow> 'h kernel \<Rightarrow> bool" where
  "creates k t k' \<longleftrightarrow> t < length (k_ti k) \<and> \<not> avail (k_ti k ! t) \<and>
     cpus k' = cpus k \<and> cpu_dev k' = cpu_dev k \<and> length (k_ti k') = length (k_ti k) \<and>
     avail (k_ti k' ! t) \<and> \<not> running (k_ti k' ! t) \<and> tid (k_ti k' ! t) = uniq_tid k \<and>
     unat (uniq_tid k') = unat (uniq_tid k) + 1 \<and> (\<forall>u. u \<noteq> t \<longrightarrow> k_ti k' ! u = k_ti k ! u) \<and>
     lock_smp k' = lock_smp k \<and> unlocked (pi_lock (k_pi k')) \<and> pi_avail (k_pi k') = pi_avail (k_pi k)"

subsection \<open>Context switch and start\<close>

lemma context_switch_to_task:
  assumes "k_cpu_get_current k hart = Some c" "cpu_ti (cpu_dev k c) = Some i" "ti_idle (cpu_dev k c) = Some i"
    and "ti_task (cpu_dev k c) = Some t"
  shows "k_thread_context_switch_nolock hart k =
    Some (0, k_cpu_set_thread c (Some t) (upd_cpu c (cpu_regs_update (\<lambda>_. ti_regs (k_ti (upd_ti i (ti_regs_update (\<lambda>_. cpu_regs (cpu_dev k c))) k) ! t)))
       (upd_ti i (ti_regs_update (\<lambda>_. cpu_regs (cpu_dev k c))) k)))"
  using assms by (simp add: k_thread_context_switch_nolock_def k_cpu_get_thread_def k_cpu_get_thread_idle_def
      k_cpu_get_thread_task_def)

lemma context_switch_to_idle:
  assumes "k_cpu_get_current k hart = Some c" "cpu_ti (cpu_dev k c) = Some t" "ti_idle (cpu_dev k c) = Some i"
    and "t \<noteq> i" "ti_task (cpu_dev k c) = None"
  shows "k_thread_context_switch_nolock hart k =
    Some (0, k_cpu_set_thread c (Some i) (upd_cpu c (cpu_regs_update (\<lambda>_. ti_regs (k_ti k ! i))) k))"
  using assms by (simp add: k_thread_context_switch_nolock_def k_cpu_get_thread_def k_cpu_get_thread_idle_def
      k_cpu_get_thread_task_def)

lemma k_thread_context_switch_locked:
  assumes "unlocked (lock_smp k)" "k_thread_context_switch_nolock hart (k\<lparr>lock_smp := l\<rparr>) = Some (r, k')"
    and "l = \<lparr>lock_val = 1, lock_id = hart\<rparr>"
  shows "k_thread_context_switch hart k = Some (r, k_smp_unlock k')"
  using assms by (simp add: k_thread_context_switch_def k_smp_lock_def)

text \<open>
  C13. Switching from the idle thread to the task of a CPU and back.  From a CPU that runs its idle
  thread and has a task, the switch loads the registers of the task and makes it the current
  thread.  When the task has ended, the next switch makes the idle thread current again with
  exactly the registers it had before the first switch.  The lock is free after each of them.
\<close>

theorem k_thread_context_switch_round_trip:
  assumes "k_cpu_get_current k hart = Some c" "unlocked (lock_smp k)"
    and "cpu_ti (cpu_dev k c) = Some i" "ti_idle (cpu_dev k c) = Some i" "ti_task (cpu_dev k c) = Some t"
    and "t \<noteq> i" "i < length (k_ti k)"
  shows "\<exists>k1. k_thread_context_switch hart k = Some (0, k1) \<and> unlocked (lock_smp k1) \<and>
    cpu_ti (cpu_dev k1 c) = Some t \<and> cpu_regs (cpu_dev k1 c) = ti_regs (k_ti k ! t) \<and>
    (\<exists>k2. k_thread_context_switch hart (k_cpu_set_thread_task c None k1) = Some (0, k2) \<and> unlocked (lock_smp k2) \<and>
      cpu_ti (cpu_dev k2 c) = Some i \<and> cpu_regs (cpu_dev k2 c) = cpu_regs (cpu_dev k c))"
proof -
  let ?l = "\<lparr>lock_val = 1, lock_id = hart\<rparr>" and ?f = "\<lparr>lock_val = 0, lock_id = - 1\<rparr>"
  let ?k0 = "k\<lparr>lock_smp := ?l\<rparr>"
  let ?kr = "upd_ti i (ti_regs_update (\<lambda>_. cpu_regs (cpu_dev k c))) ?k0"
  let ?k1 = "k_smp_unlock (k_cpu_set_thread c (Some t) (upd_cpu c (cpu_regs_update (\<lambda>_. ti_regs (k_ti k ! t))) ?kr))"
  have cur: "k_cpu_get_current k' hart = Some c"
    if "cpus k' = cpus k" "\<And>d. id_phys (cpu_dev k' d) = id_phys (cpu_dev k d)" for k'
    using k_cpu_get_current_cong [OF that] assms(1) by simp
  have s1: "k_thread_context_switch hart k = Some (0, ?k1)"
    using context_switch_to_task [of ?k0 hart c i t] cur [of ?k0] assms(3-7)
    by (intro k_thread_context_switch_locked [OF assms(2) _ refl]) simp
  let ?kt = "k_cpu_set_thread_task c None ?k1"
  let ?k2 = "k_smp_unlock (k_cpu_set_thread c (Some i)
     (upd_cpu c (cpu_regs_update (\<lambda>_. cpu_regs (cpu_dev k c))) (?kt\<lparr>lock_smp := ?l\<rparr>)))"
  have "k_thread_context_switch_nolock hart (?kt\<lparr>lock_smp := ?l\<rparr>) =
     Some (0, k_cpu_set_thread c (Some i) (upd_cpu c (cpu_regs_update (\<lambda>_. cpu_regs (cpu_dev k c))) (?kt\<lparr>lock_smp := ?l\<rparr>)))"
    using context_switch_to_idle [of "?kt\<lparr>lock_smp := ?l\<rparr>" hart c t i] cur [of "?kt\<lparr>lock_smp := ?l\<rparr>"] assms(4,6,7)
    by (simp add: kernel_ops)
  then have s2: "k_thread_context_switch hart ?kt = Some (0, ?k2)"
    by (intro k_thread_context_switch_locked [OF _ _ refl]) (simp_all add: kernel_ops unlocked_def)
  show ?thesis
    using s1 s2 by (intro exI [of _ ?k1] conjI exI [of _ ?k2]) (simp_all add: kernel_ops unlocked_def)
qed

lemma example_kernel_hart1:
  "k_cpu_get_current example_kernel 1 = Some 1" "Some 1 \<in> set (cpus example_kernel)"
  "ti_task (cpu_dev example_kernel 1) = None" "cpu_ti (cpu_dev example_kernel 1) = Some 2"
  "ti_idle (cpu_dev example_kernel 1) = Some 2" "length (k_ti example_kernel) = 4"
  "unlocked (lock_smp example_kernel)"
  by (simp_all add: k_cpu_get_current_def k_cpu_get_by_physical_id_def phys_entry_def example_kernel_def example_cpu_def)

theorem k_thread_context_switch_round_trip_witness:
  "\<exists>k1 k2. k_thread_context_switch 1 (k_cpu_set_thread_task 1 (Some 3) example_kernel) = Some (0, k1) \<and>
    cpu_ti (cpu_dev k1 1) = Some 3 \<and>
    k_thread_context_switch 1 (k_cpu_set_thread_task 1 None k1) = Some (0, k2) \<and>
    cpu_regs (cpu_dev k2 1) = cpu_regs (cpu_dev example_kernel 1)"
proof -
  let ?k = "k_cpu_set_thread_task 1 (Some 3) example_kernel"
  have "k_cpu_get_current ?k 1 = Some 1"
    using k_cpu_get_current_cong [of ?k example_kernel 1] example_kernel_hart1(1) by (simp add: kernel_ops)
  from k_thread_context_switch_round_trip [OF this, of 2 3] example_kernel_hart1 show ?thesis
    by (auto simp: kernel_ops)
qed

lemma k_thread_create_creates:
  assumes "unlocked (pi_lock (k_pi k))" "find_index (\<lambda>ti. \<not> avail ti) (k_ti k) = Some t" "unat (uniq_tid k) + 1 < 2 ^ 32"
  shows "\<exists>k'. k_thread_create hart ctx k = Some (Some t, k') \<and> creates k t k'"
proof -
  have t: "t < length (k_ti k)" "\<not> avail (k_ti k ! t)" using assms(2) by (auto simp: find_index_Some)
  show ?thesis
  using assms(1,2) t unat_Suc_u32 [OF assms(3)]
  by (simp add: k_thread_create_def pi_lock_k_def alloc_tid_def k_afetch_add_def k_arch_thread_init_def
      pi_unlock_k_def creates_def) (simp add: unlocked_def)
qed

lemma thread_inv_creates:
  assumes inv: "thread_inv k" and cr: "creates k t k'"
  shows "thread_inv k'"
proof -
  have cpu: "cpus k' = cpus k" "cpu_dev k' = cpu_dev k" "length (k_ti k') = length (k_ti k)"
    using cr by (auto simp: creates_def)
  have same: "u \<noteq> t \<Longrightarrow> k_ti k' ! u = k_ti k ! u" for u using cr by (auto simp: creates_def)
  have "task_inv k'"
    unfolding task_inv_def cpu
    using task_invD [OF inv] same cr by (auto simp: creates_def) metis+
  moreover have "run_inv k'"
    unfolding run_inv_def cpu
  proof (intro allI impI)
    fix u assume u: "u < length (k_ti k)" "running (k_ti k' ! u)"
    then have "u \<noteq> t" using cr by (auto simp: creates_def)
    with u same [of u] run_invD [OF inv u(1)]
    show "avail (k_ti k' ! u) \<and> (\<exists>c. Some c \<in> set (cpus k) \<and> ti_cpu (k_ti k' ! u) = Some c \<and> ti_task (cpu_dev k c) = Some u)"
      by simp
  qed
  moreover have "idle_inv k'"
    unfolding idle_inv_def cpu
    using idle_invD [OF inv] same cr by (auto simp: creates_def) metis+
  moreover have "tid_inv k'"
    unfolding tid_inv_def cpu
  proof (intro conjI allI impI)
    have fresh: "u < length (k_ti k) \<Longrightarrow> avail (k_ti k ! u) \<Longrightarrow> tid (k_ti k ! u) \<noteq> uniq_tid k" for u
      using tid_invD(1) [OF inv] by fastforce
    fix u assume u: "u < length (k_ti k)" "avail (k_ti k' ! u)"
    show "unat (tid (k_ti k' ! u)) < unat (uniq_tid k')"
      using u cr tid_invD(1) [OF inv, of u] same [of u] by (cases "u = t") (auto simp: creates_def)
    fix v assume v: "v < length (k_ti k)" "avail (k_ti k' ! v)" "tid (k_ti k' ! u) = tid (k_ti k' ! v)"
    show "u = v"
      using u v cr fresh [of u] fresh [of v] tid_invD(2) [OF inv, of u v] same [of u] same [of v]
      by (cases "u = t"; cases "v = t") (auto simp: creates_def)
  qed
  ultimately show ?thesis by (simp add: thread_inv_def)
qed

lemma thread_inv_set_idle:
  assumes "thread_inv k" "t < length (k_ti k)" "avail (k_ti k ! t)" "\<not> running (k_ti k ! t)"
  shows "thread_inv (k_cpu_set_thread_idle c (Some t) k)"
proof -
  let ?k = "k_cpu_set_thread_idle c (Some t) k"
  have same: "ti_task (cpu_dev ?k d) = ti_task (cpu_dev k d)" "k_ti ?k = k_ti k" "cpus ?k = cpus k"
    "uniq_tid ?k = uniq_tid k" for d
    by (simp_all add: k_cpu_set_thread_idle_def)
  have "idle_inv ?k"
    using assms by (simp add: thread_inv_def idle_inv_def k_cpu_set_thread_idle_def)
  then show ?thesis
    using assms(1) by (simp add: thread_inv_def task_inv_def run_inv_def tid_inv_def same)
qed

lemma thread_inv_upd_regs:
  assumes "thread_inv k" "t < length (k_ti k)"
  shows "thread_inv (upd_ti t (ti_regs_update f) k)"
proof -
  have "same_thread (k_ti (upd_ti t (ti_regs_update f) k) ! u) (k_ti k ! u)" for u
    using assms(2) by (cases "u = t") (simp_all add: same_thread_def)
  then show ?thesis
    using assms(1) unfolding thread_inv_def task_inv_def run_inv_def idle_inv_def tid_inv_def same_thread_def
    by simp
qed

text \<open>
  C14. The start of the threads.  In the thread invariant with the locks free, the process in use, the next thread id
  below its maximum and \<open>t\<close> the first free entry of the table, \<open>init_idle_thread\<close> returns 0 and makes
  \<open>t\<close> the idle thread of the CPU, set to enter the idle loop with the given argument on the idle stack and
  the interrupt stack of the CPU's own number; the CPU may have a task, as it has when the leader comes here.
  \<open>init_main_thread\<close> on a CPU without a task returns 0 and makes \<open>t\<close> the leader of the process and the
  task of the CPU, set to enter the start code with its stack pointer one word below the argument
  vector, where the number of arguments is stored, and with the given interrupt stack.  Both keep the
  thread invariant and leave the locks free.
\<close>

theorem init_threads_start:
  assumes "thread_inv k" "locks_free k" "pi_avail (k_pi k)"
    and "find_index (\<lambda>ti. \<not> avail ti) (k_ti k) = Some t" "unat (uniq_tid k) + 1 < 2 ^ 32"
    and "k_cpu_get_current k hart = Some c" "Some c \<in> set (cpus k)"
  shows "(\<exists>k'. init_idle_thread cfg sy hart ctx c arg k = Some (0, k') \<and> thread_inv k' \<and> locks_free k' \<and>
      ti_idle (cpu_dev k' c) = Some t \<and> rv_mepc (ti_regs (k_ti k' ! t)) = sym_idle_main sy \<and>
      rv_a0 (ti_regs (k_ti k' ! t)) = arg \<and>
      rv_sp (ti_regs (k_ti k' ! t)) = sym_stack_idle sy + of_int (id_cpu (cpu_dev k c) + 1) * of_nat (IDLE_STACK_SIZE cfg) \<and>
      rv_mscratch (ti_regs (k_ti k' ! t)) = sym_stack_intr sy + of_int (id_cpu (cpu_dev k c) + 1) * of_nat (INTR_STACK_SIZE cfg)) \<and>
    (ti_task (cpu_dev k c) = None \<longrightarrow>
     (\<exists>k'. init_main_thread sy hart ctx argc argv sp_intr k = Some (0, k') \<and> thread_inv k' \<and> locks_free k' \<and>
      k_proc_get_leader k' = Some t \<and> ti_task (cpu_dev k' c) = Some t \<and>
      rv_mepc (ti_regs (k_ti k' ! t)) = sym_start sy \<and> rv_sp (ti_regs (k_ti k' ! t)) = argv - 8 \<and>
      rv_mscratch (ti_regs (k_ti k' ! t)) = sp_intr \<and> user_word k' (argv - 8) = of_nat argc))"
proof -
  have pl: "unlocked (pi_lock (k_pi k))" using assms(2) by (simp add: locks_free_def)
  obtain k1 where k1: "k_thread_create hart ctx k = Some (Some t, k1)" "creates k t k1"
    using k_thread_create_creates [OF pl assms(4,5)] by blast
  have t: "t < length (k_ti k1)" and inv1: "thread_inv k1"
    using k1(2) thread_inv_creates [OF assms(1) k1(2)] by (auto simp: creates_def)
  have cpu1: "cpu_dev k1 = cpu_dev k" and lf: "locks_free k1" using k1(2) assms(2) by (auto simp: creates_def locks_free_def)
  have idle: "thread_inv (k_cpu_set_thread_idle c (Some t) (upd_ti t (ti_regs_update f) k1))" for f
    using thread_inv_upd_regs [OF inv1 t] t k1(2) by (intro thread_inv_set_idle) (auto simp: creates_def)
  have idle_lf: "locks_free (k_cpu_set_thread_idle c (Some t) (upd_ti t (ti_regs_update f) k1))" for f
    using lf by (simp add: locks_free_def k_cpu_set_thread_idle_def)
  let ?km = "snd (k_thread_run t c (k_proc_set_leader (Some t)
     (k_libc_init_main_thread sy t argc argv sp_intr k1)))"
  have main: "thread_inv ?km" if "ti_task (cpu_dev k c) = None"
  proof -
    have "starts k c t ?km"
      using k1(2) t assms(7) that
      by (auto simp: starts_def creates_def k_thread_run_def k_proc_set_leader_def k_cpu_set_thread_task_def
          k_libc_init_main_thread_def Let_def)
    then show ?thesis using thread_inv_starts [OF assms(1)] by blast
  qed
  have main_lf: "locks_free ?km"
    using lf by (simp add: locks_free_def k_thread_run_def k_proc_set_leader_def k_cpu_set_thread_task_def
        k_libc_init_main_thread_def Let_def)
  have "\<exists>k'. init_idle_thread cfg sy hart ctx c arg k = Some (0, k') \<and> thread_inv k' \<and> locks_free k' \<and>
      ti_idle (cpu_dev k' c) = Some t \<and> rv_mepc (ti_regs (k_ti k' ! t)) = sym_idle_main sy \<and>
      rv_a0 (ti_regs (k_ti k' ! t)) = arg \<and>
      rv_sp (ti_regs (k_ti k' ! t)) = sym_stack_idle sy + of_int (id_cpu (cpu_dev k c) + 1) * of_nat (IDLE_STACK_SIZE cfg) \<and>
      rv_mscratch (ti_regs (k_ti k' ! t)) = sym_stack_intr sy + of_int (id_cpu (cpu_dev k c) + 1) * of_nat (INTR_STACK_SIZE cfg)"
    using k1(1) t idle idle_lf cpu1 assms(3)
    by (simp add: init_idle_thread_def k_proc_get_current_def Let_def) (simp add: k_cpu_set_thread_idle_def)
  then show ?thesis
    using k1(1) t main main_lf assms(3,6)
    by (simp add: init_main_thread_def k_proc_get_current_def k_thread_run_def k_proc_set_leader_def
        k_cpu_set_thread_task_def k_proc_get_leader_def k_libc_init_main_thread_def Let_def)
qed

theorem init_threads_start_witness:
  "(\<exists>k'. init_idle_thread riscv_qemu_virt_64 example_layout 1 regs0 1 0 example_kernel = Some (0, k') \<and>
      ti_idle (cpu_dev k' 1) = Some 3) \<and>
   (\<exists>k'. init_main_thread example_layout 1 regs0 1 0x80028000 0x80002000 example_kernel = Some (0, k') \<and>
      rv_sp (ti_regs (k_ti k' ! 3)) = 0x80028000 - 8)"
  using init_threads_start [OF example_kernel_inv example_kernel_facts(5,3,6) example_kernel_hart1(1,2),
      of riscv_qemu_virt_64 example_layout regs0 0 1 "0x80028000" "0x80002000"] example_kernel_hart1(3) by blast

end
