(* ===== verification/Futex.thy ===== *)
theory Futex
  imports Thread
begin

section \<open>Futex\<close>

text \<open>
  \<open>k_cpu_futex_wait\<close> and \<open>k_cpu_futex_wake\<close> of \<^verbatim>\<open>driver/cpu/cpu.c\<close> and the futex system calls.
  Waking is a function on the kernel state.  Waiting depends on what other harts do meanwhile, so
  it is modelled twice: its critical sections as functions, and its interleaving with wakers as a
  step relation.
\<close>

subsection \<open>Waking\<close>

definition fx_match :: "u64 \<Rightarrow> u32 \<Rightarrow> k_cpu_device \<Rightarrow> bool" where
  "fx_match uaddr bitset d \<longleftrightarrow> fx_uaddr (futex d) = uaddr \<and> fx_bitset (futex d) AND bitset \<noteq> 0"

fun futex_wake_loop ::
    "'h k_cpu_driver_ops \<Rightarrow> int \<Rightarrow> cptr option \<Rightarrow> u64 \<Rightarrow> int \<Rightarrow> u32 \<Rightarrow> int list \<Rightarrow> int \<Rightarrow> 'h kernel \<Rightarrow>
     (int \<times> 'h kernel) option" where
  "futex_wake_loop ops hart cur uaddr val bitset [] res k = Some (res, k)"
| "futex_wake_loop ops hart cur uaddr val bitset (i # ids) res k =
     (if \<not> res < val then Some (res, k)
      else case k_cpu_get k i of
        None \<Rightarrow> futex_wake_loop ops hart cur uaddr val bitset ids res k
      | Some c \<Rightarrow>
          if cur = Some c then futex_wake_loop ops hart cur uaddr val bitset ids res k
          else do {
            k \<leftarrow> k_cpu_lock hart c k;
            if \<not> fx_match uaddr bitset (cpu_dev k c)
            then futex_wake_loop ops hart cur uaddr val bitset ids res (k_cpu_unlock c k)
            else
              let k = upd_cpu c (\<lambda>d. d\<lparr>futex := (futex d)\<lparr>fx_wakeup := True\<rparr>\<rparr>) k;
                  (r, k) = k_cpu_raise_ipi ops hart c (k_cpu_unlock c k);
                  res = (if r \<noteq> 0 then r else res)
              in futex_wake_loop ops hart cur uaddr val bitset ids (res + 1) k
          })"

definition k_cpu_futex_wake ::
    "kconfig \<Rightarrow> 'h k_cpu_driver_ops \<Rightarrow> int \<Rightarrow> u64 \<Rightarrow> int \<Rightarrow> u32 \<Rightarrow> 'h kernel \<Rightarrow> (int \<times> 'h kernel) option" where
  "k_cpu_futex_wake cfg ops hart uaddr val bitset k =
     (if bitset = 0 then Some (- EINVAL, k)
      else futex_wake_loop ops hart (k_cpu_get_current k hart) uaddr val bitset
             [0..int (NUM_CORES cfg) - 1] 0 k)"

subsection \<open>Waiting\<close>

definition futex_enter :: "u64 \<Rightarrow> u32 \<Rightarrow> u32 \<Rightarrow> k_cpu_futex" where
  "futex_enter uaddr val bitset = \<lparr>fx_uaddr = uaddr, fx_val = val, fx_bitset = bitset, fx_wakeup = False\<rparr>"

definition futex_leave :: k_cpu_futex where
  "futex_leave = \<lparr>fx_uaddr = 0, fx_val = 0, fx_bitset = 0, fx_wakeup = False\<rparr>"

text \<open>
  Where a CPU stands: outside the futex code, at the test of the loop, at the comparison of the
  user value, in the wait instruction, about to leave with a result, or, as a waker, between
  marking a waiter and sending it the interrupt.
\<close>

datatype fx_pc = Fx_out | Fx_test | Fx_compare | Fx_wfi | Fx_leave int | Fx_send cptr

record fx_system =
  fxs :: "cptr \<Rightarrow> k_cpu_futex"
  fx_at :: "cptr \<Rightarrow> fx_pc"
  fx_mem :: "u64 \<Rightarrow> u32"
  ipi_pending :: "cptr \<Rightarrow> bool"
  ipi_failed :: "cptr \<Rightarrow> bool"

text \<open>
  \<open>ipi_failed\<close> remembers of a CPU that the interrupt of a waker could not be sent since the CPU began to
  wait: \<open>k_cpu_futex_wake\<close> keeps the error for its result and goes on, it does not try again.
\<close>

inductive fx_step :: "fx_system \<Rightarrow> fx_system \<Rightarrow> bool" where
  wait_enter: "fx_at s c = Fx_out \<Longrightarrow> bitset \<noteq> 0 \<Longrightarrow>
    fx_step s (s\<lparr>fxs := (fxs s)(c := futex_enter uaddr val bitset), fx_at := (fx_at s)(c := Fx_test),
      ipi_failed := (ipi_failed s)(c := False)\<rparr>)"
| wait_woken: "fx_at s c = Fx_test \<Longrightarrow> fx_wakeup (fxs s c) \<Longrightarrow>
    fx_step s (s\<lparr>fx_at := (fx_at s)(c := Fx_leave 0)\<rparr>)"
| wait_test: "fx_at s c = Fx_test \<Longrightarrow> \<not> fx_wakeup (fxs s c) \<Longrightarrow>
    fx_step s (s\<lparr>fx_at := (fx_at s)(c := Fx_compare)\<rparr>)"
| wait_changed: "fx_at s c = Fx_compare \<Longrightarrow> fx_mem s (fx_uaddr (fxs s c)) \<noteq> fx_val (fxs s c) \<Longrightarrow>
    fx_step s (s\<lparr>fx_at := (fx_at s)(c := Fx_leave (- EWOULDBLOCK))\<rparr>)"
| wait_sleep: "fx_at s c = Fx_compare \<Longrightarrow> fx_mem s (fx_uaddr (fxs s c)) = fx_val (fxs s c) \<Longrightarrow>
    fx_step s (s\<lparr>fx_at := (fx_at s)(c := Fx_wfi)\<rparr>)"
| wait_interrupt: "fx_at s c = Fx_wfi \<Longrightarrow> ipi_pending s c \<Longrightarrow>
    fx_step s (s\<lparr>fx_at := (fx_at s)(c := Fx_test), ipi_pending := (ipi_pending s)(c := False)\<rparr>)"
| wait_other_interrupt: "fx_at s c = Fx_wfi \<Longrightarrow>
    fx_step s (s\<lparr>fx_at := (fx_at s)(c := Fx_test)\<rparr>)"
| wait_leave: "fx_at s c = Fx_leave r \<Longrightarrow>
    fx_step s (s\<lparr>fxs := (fxs s)(c := futex_leave), fx_at := (fx_at s)(c := Fx_out)\<rparr>)"
| wake_mark: "fx_at s w = Fx_out \<Longrightarrow> c \<noteq> w \<Longrightarrow> fx_uaddr (fxs s c) = uaddr \<Longrightarrow> fx_bitset (fxs s c) AND bitset \<noteq> 0 \<Longrightarrow>
    fx_step s (s\<lparr>fxs := (fxs s)(c := (fxs s c)\<lparr>fx_wakeup := True\<rparr>), fx_at := (fx_at s)(w := Fx_send c)\<rparr>)"
| wake_send: "fx_at s w = Fx_send c \<Longrightarrow>
    fx_step s (s\<lparr>ipi_pending := (ipi_pending s)(c := True), fx_at := (fx_at s)(w := Fx_out)\<rparr>)"
| wake_send_fail: "fx_at s w = Fx_send c \<Longrightarrow>
    fx_step s (s\<lparr>ipi_failed := (ipi_failed s)(c := True), fx_at := (fx_at s)(w := Fx_out)\<rparr>)"
| other_interrupt: "fx_at s c = Fx_out \<Longrightarrow>
    fx_step s (s\<lparr>ipi_pending := (ipi_pending s)(c := False)\<rparr>)"
| user_store: "fx_at s c = Fx_out \<Longrightarrow> fx_step s (s\<lparr>fx_mem := (fx_mem s)(a := v)\<rparr>)"

definition fx_start :: "(u64 \<Rightarrow> u32) \<Rightarrow> fx_system" where
  "fx_start m = \<lparr>fxs = (\<lambda>_. futex_leave), fx_at = (\<lambda>_. Fx_out), fx_mem = m, ipi_pending = (\<lambda>_. False), ipi_failed = (\<lambda>_. False)\<rparr>"

text \<open>A marked waiter that will not look at its mark again before it sleeps has its interrupt, unless that failed.\<close>

definition fx_sent :: "fx_system \<Rightarrow> cptr \<Rightarrow> bool" where
  "fx_sent s c \<longleftrightarrow> ipi_pending s c \<or> ipi_failed s c"

definition fx_inv :: "fx_system \<Rightarrow> bool" where
  "fx_inv s \<longleftrightarrow> (\<forall>c. fx_at s c = Fx_leave 0 \<longrightarrow> fx_wakeup (fxs s c)) \<and>
     (\<forall>c. fx_wakeup (fxs s c) \<and> fx_at s c \<in> {Fx_compare, Fx_wfi} \<longrightarrow>
     fx_sent s c \<or> (\<exists>w. w \<noteq> c \<and> fx_at s w = Fx_send c))"

subsection \<open>System calls\<close>

abbreviation (input) FUTEX_BITSET_ANY :: u32 where "FUTEX_BITSET_ANY \<equiv> 0xffffffff"

definition FUTEX_MASK :: u32 where
  "FUTEX_MASK = NOT (128 OR 256)"

text \<open>
  What the call does: wait, or an already computed result.  The parameter \<open>wait\<close> is the outcome of
  the wait loop, which depends on the other harts.
\<close>

definition k_sys_futex64 ::
    "kconfig \<Rightarrow> 'h k_cpu_driver_ops \<Rightarrow> int \<Rightarrow> (u64 \<Rightarrow> u32 \<Rightarrow> u32 \<Rightarrow> 'h kernel \<Rightarrow> (int \<times> 'h kernel) option) \<Rightarrow>
     u64 \<Rightarrow> u32 \<Rightarrow> u32 \<Rightarrow> u32 \<Rightarrow> 'h kernel \<Rightarrow> (int \<times> 'h kernel) option" where
  "k_sys_futex64 cfg ops hart wait uaddr op val val3 k =
     (let cmd = op AND FUTEX_MASK in
      if uaddr = 0 then Some (- EFAULT, k)
      else if cmd = 0 then wait uaddr val FUTEX_BITSET_ANY k
      else if cmd = 9 then wait uaddr val val3 k
      else if cmd = 1 then k_cpu_futex_wake cfg ops hart uaddr (sint val) FUTEX_BITSET_ANY k
      else if cmd = 10 then k_cpu_futex_wake cfg ops hart uaddr (sint val) val3 k
      else if cmd = 3 then k_cpu_futex_wake cfg ops hart uaddr (sint val) FUTEX_BITSET_ANY k
      else Some (- ENOSYS, k))"

subsection \<open>Reference definitions\<close>

definition fx_waiters :: "'h kernel \<Rightarrow> cptr option \<Rightarrow> u64 \<Rightarrow> u32 \<Rightarrow> cptr list \<Rightarrow> cptr list" where
  "fx_waiters k cur uaddr bitset cs =
     filter (\<lambda>c. cur \<noteq> Some c \<and> fx_match uaddr bitset (cpu_dev k c)) cs"

definition marks :: "'h kernel \<Rightarrow> cptr list \<Rightarrow> 'h kernel \<Rightarrow> bool" where
  "marks k ws k' \<longleftrightarrow> k' = k\<lparr>cpu_dev := cpu_dev k', hw := hw k'\<rparr> \<and>
     (\<forall>c. cpu_dev k' c = (cpu_dev k c)\<lparr>cpu_lock := cpu_lock (cpu_dev k' c),
            futex := (futex (cpu_dev k c))\<lparr>fx_wakeup := fx_wakeup (futex (cpu_dev k c)) \<or> c \<in> set ws\<rparr>\<rparr>) \<and>
     (\<forall>c. unlocked (cpu_lock (cpu_dev k c)) \<longrightarrow> unlocked (cpu_lock (cpu_dev k' c)))"

text \<open>The CPUs of the table, in its order.\<close>

definition present :: "'h kernel \<Rightarrow> cptr list" where
  "present k = List.map_filter (\<lambda>e. e) (cpus k)"

text \<open>What the code relies on of the interrupt controller: sending the interrupt succeeds.\<close>

definition ipi_works :: "'h k_cpu_driver_ops \<Rightarrow> bool" where
  "ipi_works ops \<longleftrightarrow> (case op_raise_ipi ops of None \<Rightarrow> False | Some f \<Rightarrow> \<forall>d e h. fst (f d e h) = 0)"

text \<open>CPU 1 waits at 0x9000; hart 0 wakes it.\<close>

definition example_waiting :: "unit kernel" where
  "example_waiting = upd_cpu 1 (futex_update (\<lambda>_. futex_enter 0x9000 7 FUTEX_BITSET_ANY)) example_kernel"

text \<open>CPU 0 waits at address 64 for the value 0 to change, and CPU 1 marks it.\<close>

definition example_marked :: fx_system where
  "example_marked =
     \<lparr>fxs = (\<lambda>_. futex_leave)(0 := (futex_enter 64 0 1)\<lparr>fx_wakeup := True\<rparr>),
      fx_at = (\<lambda>_. Fx_out)(0 := Fx_wfi, 1 := Fx_send 0), fx_mem = (\<lambda>_. 0), ipi_pending = (\<lambda>_. False), ipi_failed = (\<lambda>_. False)\<rparr>"

subsection \<open>Waking and waiting\<close>

lemma marks_cpu:
  assumes "marks k ws k'"
  shows "cpu_dev k' c = (cpu_dev k c)\<lparr>cpu_lock := cpu_lock (cpu_dev k' c),
     futex := (futex (cpu_dev k c))\<lparr>fx_wakeup := fx_wakeup (futex (cpu_dev k c)) \<or> c \<in> set ws\<rparr>\<rparr>"
  using assms unfolding marks_def by blast

lemma marks_simps:
  assumes "marks k ws k'"
  shows "cpus k' = cpus k" "k_ti k' = k_ti k" "k_pi k' = k_pi k" "uniq_tid k' = uniq_tid k" "lock_smp k' = lock_smp k"
    "user_int k' = user_int k" "comm_area k' = comm_area k"
    "id_phys (cpu_dev k' c) = id_phys (cpu_dev k c)" "ti_task (cpu_dev k' c) = ti_task (cpu_dev k c)"
    "ti_idle (cpu_dev k' c) = ti_idle (cpu_dev k c)" "cpu_ti (cpu_dev k' c) = cpu_ti (cpu_dev k c)"
    "cpu_regs (cpu_dev k' c) = cpu_regs (cpu_dev k c)" "fx_match uaddr bitset (cpu_dev k' c) = fx_match uaddr bitset (cpu_dev k c)"
    "fx_wakeup (futex (cpu_dev k' c)) \<longleftrightarrow> fx_wakeup (futex (cpu_dev k c)) \<or> c \<in> set ws"
    "unlocked (cpu_lock (cpu_dev k c)) \<Longrightarrow> unlocked (cpu_lock (cpu_dev k' c))"
proof -
  have k: "k' = k\<lparr>cpu_dev := cpu_dev k', hw := hw k'\<rparr>" using assms by (simp add: marks_def)
  show "cpus k' = cpus k" "k_ti k' = k_ti k" "k_pi k' = k_pi k" "uniq_tid k' = uniq_tid k" "lock_smp k' = lock_smp k"
    "user_int k' = user_int k" "comm_area k' = comm_area k"
    by (subst k, simp)+
  show "id_phys (cpu_dev k' c) = id_phys (cpu_dev k c)" "ti_task (cpu_dev k' c) = ti_task (cpu_dev k c)"
    "ti_idle (cpu_dev k' c) = ti_idle (cpu_dev k c)" "cpu_ti (cpu_dev k' c) = cpu_ti (cpu_dev k c)"
    "cpu_regs (cpu_dev k' c) = cpu_regs (cpu_dev k c)" "fx_match uaddr bitset (cpu_dev k' c) = fx_match uaddr bitset (cpu_dev k c)"
    "fx_wakeup (futex (cpu_dev k' c)) \<longleftrightarrow> fx_wakeup (futex (cpu_dev k c)) \<or> c \<in> set ws"
    by (subst marks_cpu [OF assms, of c], simp add: fx_match_def)+
  show "unlocked (cpu_lock (cpu_dev k c)) \<Longrightarrow> unlocked (cpu_lock (cpu_dev k' c))" using assms by (simp add: marks_def)
qed

lemma marks_refl: "marks k [] k"
  by (simp add: marks_def)

lemma marks_trans:
  assumes "marks k vs k1" "marks k1 ws k2"
  shows "marks k (vs @ ws) k2"
proof -
  have "cpu_dev k2 c = (cpu_dev k c)\<lparr>cpu_lock := cpu_lock (cpu_dev k2 c),
     futex := (futex (cpu_dev k c))\<lparr>fx_wakeup := fx_wakeup (futex (cpu_dev k c)) \<or> c \<in> set (vs @ ws)\<rparr>\<rparr>" for c
  proof -
    obtain a where "cpu_dev k1 c = (cpu_dev k c)\<lparr>cpu_lock := a,
       futex := (futex (cpu_dev k c))\<lparr>fx_wakeup := fx_wakeup (futex (cpu_dev k c)) \<or> c \<in> set vs\<rparr>\<rparr>"
      using marks_cpu [OF assms(1), of c] by blast
    with marks_cpu [OF assms(2), of c] show ?thesis by (simp add: disj_assoc)
  qed
  moreover have "k2 = k\<lparr>cpu_dev := cpu_dev k2, hw := hw k2\<rparr>"
  proof -
    obtain a b where "k1 = k\<lparr>cpu_dev := a, hw := b\<rparr>" using assms(1) unfolding marks_def by blast
    moreover obtain a b where "k2 = k1\<lparr>cpu_dev := a, hw := b\<rparr>" using assms(2) unfolding marks_def by blast
    ultimately show ?thesis by simp
  qed
  moreover have "\<forall>c. unlocked (cpu_lock (cpu_dev k c)) \<longrightarrow> unlocked (cpu_lock (cpu_dev k2 c))"
    using assms by (simp add: marks_def)
  ultimately show ?thesis by (simp add: marks_def)
qed

lemma marks_visit:
  assumes "unlocked (cpu_lock (cpu_dev k c))" "k_cpu_lock hart c k = Some k1"
  shows "marks k [] (k_cpu_unlock c k1)" "cpu_dev k1 c = (cpu_dev k c)\<lparr>cpu_lock := cpu_lock (cpu_dev k1 c)\<rparr>"
   "marks k [c] (k_cpu_unlock c (upd_cpu c (\<lambda>d. d\<lparr>futex := (futex d)\<lparr>fx_wakeup := True\<rparr>\<rparr>) k1))"
  using assms by (auto simp: k_cpu_lock_def k_cpu_unlock_def marks_def upd_cpu_def unlocked_def lock_unlock_value)

lemma raise_ipi_works:
  assumes "ipi_works ops" "k_cpu_get_current k hart = Some cur"
  shows "\<exists>k'. k_cpu_raise_ipi ops hart c k = (0, k') \<and> marks k [] k'"
proof -
  obtain f where f: "op_raise_ipi ops = Some f" "\<And>d e h. fst (f d e h) = 0"
    using assms(1) by (auto simp: ipi_works_def split: option.splits)
  obtain h where "f (cpu_dev k cur) (cpu_dev k c) (hw k) = (0, h)"
    using f(2) [of "cpu_dev k cur" "cpu_dev k c" "hw k"] by (metis prod.collapse)
  then show ?thesis using f assms(2) by (simp add: k_cpu_raise_ipi_def marks_def)
qed

lemma futex_wake_loop_spec:
  assumes "ipi_works ops" "k_cpu_get_current k hart = Some cur"
    and "cs = List.map_filter (k_cpu_get k) ids" "distinct cs" "\<forall>c \<in> set cs. unlocked (cpu_lock (cpu_dev k c))"
    and "ws = take (nat (val - res)) (fx_waiters k (Some cur) uaddr bitset cs)"
  shows "\<exists>k'. futex_wake_loop ops hart (Some cur) uaddr val bitset ids res k = Some (res + int (length ws), k') \<and> marks k ws k'"
  using assms(2-)
proof (induction ids arbitrary: k res cs ws)
  case Nil
  then show ?case by (simp add: fx_waiters_def map_filter_simps marks_refl)
next
  case (Cons i ids)
  let ?rest = "List.map_filter (k_cpu_get k) ids"
  have step: "\<exists>k'. futex_wake_loop ops hart (Some cur) uaddr val bitset ids r k1 =
      Some (r + int (length us), k') \<and> marks k1 us k'"
    if k1: "marks k vs k1" and r: "us = take (nat (val - r)) (fx_waiters k (Some cur) uaddr bitset ?rest)"
      and rest: "distinct ?rest" "\<forall>c \<in> set ?rest. unlocked (cpu_lock (cpu_dev k c))" for vs k1 r us
  proof -
    have eq: "k_cpu_get k1 = k_cpu_get k" by (simp add: fun_eq_iff k_cpu_get_def marks_simps [OF k1])
    have cur: "k_cpu_get_current k1 hart = Some cur"
      using k_cpu_get_current_cong [of k1 k] marks_simps [OF k1] Cons.prems(1) by simp
    have wt: "fx_waiters k1 c u b cs = fx_waiters k c u b cs" for c u b cs
      by (simp add: fx_waiters_def marks_simps [OF k1])
    show ?thesis
      by (rule Cons.IH [OF cur refl]) (use rest r in \<open>simp_all add: eq wt marks_simps [OF k1]\<close>)
  qed
  show ?case
  proof (cases "res < val")
    case False
    then show ?thesis using Cons.prems by (simp add: marks_refl)
  next
    case lt: True
    show ?thesis
    proof (cases "k_cpu_get k i")
      case None
      then show ?thesis using step [OF marks_refl refl, of res] Cons.prems lt by (simp add: map_filter_simps)
    next
      case (Some c)
      then have cs: "cs = c # ?rest" using Cons.prems(2) by (simp add: map_filter_simps)
      note rest = Cons.prems(3,4) [unfolded cs]
      show ?thesis
      proof (cases "c = cur")
        case True
        then show ?thesis using step [OF marks_refl refl, of res] rest lt Some Cons.prems(5)
          by (simp add: cs fx_waiters_def)
      next
        case False
        have "unlocked (cpu_lock (cpu_dev k c))" using rest by simp
        then obtain k1 where k1: "k_cpu_lock hart c k = Some k1" by (simp add: k_cpu_lock_def)
        note v = marks_visit [OF \<open>unlocked (cpu_lock (cpu_dev k c))\<close> k1]
        have m: "fx_match uaddr bitset (cpu_dev k1 c) = fx_match uaddr bitset (cpu_dev k c)"
          by (subst v(2)) (simp add: fx_match_def)
        show ?thesis
        proof (cases "fx_match uaddr bitset (cpu_dev k c)")
          case nm: False
          then show ?thesis using step [OF v(1) refl, of res] marks_trans [OF v(1)] rest lt Some Cons.prems(5) m k1 False
            by (fastforce simp: cs fx_waiters_def)
        next
          case match: True
          let ?k2 = "k_cpu_unlock c (upd_cpu c (\<lambda>d. d\<lparr>futex := (futex d)\<lparr>fx_wakeup := True\<rparr>\<rparr>) k1)"
          have "k_cpu_get_current ?k2 hart = Some cur"
            using k_cpu_get_current_cong [of ?k2 k] marks_simps [OF v(3)] Cons.prems(1) by simp
          from raise_ipi_works [OF assms(1) this, of c] obtain k3 where
            k3: "k_cpu_raise_ipi ops hart c ?k2 = (0, k3)" "marks ?k2 [] k3" by blast
          have m3: "marks k [c] k3" using marks_trans [OF v(3) k3(2)] by simp
          have "nat (val - res) = Suc (nat (val - (res + 1)))" using lt by simp
          then show ?thesis
            using step [OF m3 refl, of "res + 1"] marks_trans [OF m3] rest lt Some Cons.prems(5) m k1 k3(1) match False
            by (fastforce simp: cs fx_waiters_def)
        qed
      qed
    qed
  qed
qed

text \<open>A step of one CPU that is not about to send an interrupt.\<close>

lemma fx_inv_move:
  assumes inv: "fx_inv s" and c: "\<forall>e. fx_at s c \<noteq> Fx_send e"
    and s': "fx_at s' = (fx_at s)(c := p)" "\<forall>d. d \<noteq> c \<longrightarrow> fxs s' d = fxs s d \<and> fx_sent s' d = fx_sent s d"
    and p: "p = Fx_leave 0 \<longrightarrow> fx_wakeup (fxs s' c)"
    "p \<in> {Fx_compare, Fx_wfi} \<longrightarrow> fx_wakeup (fxs s' c) \<longrightarrow> fx_sent s' c \<or> (\<exists>w. w \<noteq> c \<and> fx_at s w = Fx_send c)"
  shows "fx_inv s'"
  unfolding fx_inv_def
proof (intro conjI allI impI)
  fix d assume "fx_at s' d = Fx_leave 0"
  then show "fx_wakeup (fxs s' d)" using inv s' p(1) by (cases "d = c") (auto simp: fx_inv_def)
next
  fix d assume d: "fx_wakeup (fxs s' d) \<and> fx_at s' d \<in> {Fx_compare, Fx_wfi}"
  have "fx_sent s' d \<or> (\<exists>w. w \<noteq> d \<and> fx_at s w = Fx_send d)"
  proof (cases "d = c")
    case True
    then show ?thesis using d s'(1) p(2) by simp
  next
    case False
    then show ?thesis using d s' inv unfolding fx_inv_def by simp
  qed
  then show "fx_sent s' d \<or> (\<exists>w. w \<noteq> d \<and> fx_at s' w = Fx_send d)"
    using c s'(1) by (metis fun_upd_apply)
qed

lemma fx_inv_mark:
  assumes inv: "fx_inv s" and w: "fx_at s w = Fx_out" "c \<noteq> w"
  shows "fx_inv (s\<lparr>fxs := (fxs s)(c := (fxs s c)\<lparr>fx_wakeup := True\<rparr>), fx_at := (fx_at s)(w := Fx_send c)\<rparr>)" (is "fx_inv ?s")
  unfolding fx_inv_def
proof (intro conjI allI impI)
  fix d assume "fx_at ?s d = Fx_leave 0"
  then show "fx_wakeup (fxs ?s d)" using inv by (auto simp: fx_inv_def split: if_splits)
next
  fix d assume d: "fx_wakeup (fxs ?s d) \<and> fx_at ?s d \<in> {Fx_compare, Fx_wfi}"
  show "fx_sent ?s d \<or> (\<exists>v. v \<noteq> d \<and> fx_at ?s v = Fx_send d)"
  proof (cases "d = c")
    case True
    then show ?thesis using w(2) by (intro disjI2 exI [of _ w]) simp
  next
    case False
    then have "fx_sent s d \<or> (\<exists>v. v \<noteq> d \<and> fx_at s v = Fx_send d)"
      using d inv by (auto simp: fx_inv_def split: if_splits)
    then show ?thesis using w(1) by (fastforce simp: fx_sent_def)
  qed
qed

lemma fx_inv_send:
  assumes inv: "fx_inv s" and w: "fx_at s w = Fx_send c"
    and s': "fx_at s' = (fx_at s)(w := Fx_out)" "fxs s' = fxs s" "fx_sent s' = (fx_sent s)(c := True)"
  shows "fx_inv s'"
  unfolding fx_inv_def
proof (intro conjI allI impI)
  fix d assume "fx_at s' d = Fx_leave 0"
  then show "fx_wakeup (fxs s' d)" using inv s' by (auto simp: fx_inv_def split: if_splits)
next
  fix d assume d: "fx_wakeup (fxs s' d) \<and> fx_at s' d \<in> {Fx_compare, Fx_wfi}"
  then have "fx_sent s d \<or> (\<exists>v. v \<noteq> d \<and> fx_at s v = Fx_send d)"
    using inv s' by (auto simp: fx_inv_def split: if_splits)
  then show "fx_sent s' d \<or> (\<exists>v. v \<noteq> d \<and> fx_at s' v = Fx_send d)"
    using w s' by (cases "d = c") (simp, simp, metis fx_pc.inject(2))
qed

lemma fx_inv_step:
  assumes "fx_step s s'" and inv: "fx_inv s"
  shows "fx_inv s'"
  using assms(1)
proof cases
  case (wait_enter c bitset uaddr val)
  then show ?thesis by (intro fx_inv_move [OF inv, of c _ Fx_test]) (simp_all add: fx_sent_def)
next
  case (wait_woken c)
  then show ?thesis by (intro fx_inv_move [OF inv, of c _ "Fx_leave 0"]) (simp_all add: fx_sent_def)
next
  case (wait_test c)
  then show ?thesis by (intro fx_inv_move [OF inv, of c _ Fx_compare]) (simp_all add: fx_sent_def)
next
  case (wait_changed c)
  then show ?thesis by (intro fx_inv_move [OF inv, of c _ "Fx_leave (- EWOULDBLOCK)"]) (simp_all add: fx_sent_def)
next
  case (wait_sleep c)
  then show ?thesis using inv by (intro fx_inv_move [OF inv, of c _ Fx_wfi]) (simp_all add: fx_inv_def fx_sent_def)
next
  case (wait_interrupt c)
  then show ?thesis by (intro fx_inv_move [OF inv, of c _ Fx_test]) (simp_all add: fx_sent_def)
next
  case (wait_other_interrupt c)
  then show ?thesis by (intro fx_inv_move [OF inv, of c _ Fx_test]) (simp_all add: fx_sent_def)
next
  case (wait_leave c r)
  then show ?thesis by (intro fx_inv_move [OF inv, of c _ Fx_out]) (simp_all add: fx_sent_def)
next
  case (other_interrupt c)
  then show ?thesis by (intro fx_inv_move [OF inv, of c _ Fx_out]) (simp_all add: fun_upd_idem fx_sent_def)
next
  case (user_store c a v)
  then show ?thesis by (intro fx_inv_move [OF inv, of c _ Fx_out]) (simp_all add: fun_upd_idem fx_sent_def)
next
  case (wake_send w c)
  then show ?thesis by (intro fx_inv_send [OF inv, of w c]) (auto simp: fx_sent_def fun_eq_iff)
next
  case (wake_send_fail w c)
  then show ?thesis by (intro fx_inv_send [OF inv, of w c]) (auto simp: fx_sent_def fun_eq_iff)
qed (simp add: fx_inv_mark [OF inv])

lemma fx_inv_reachable: "fx_step\<^sup>*\<^sup>* (fx_start m) s \<Longrightarrow> fx_inv s"
proof (induction rule: rtranclp_induct)
  case base
  show ?case by (simp add: fx_start_def fx_inv_def)
qed (rule fx_inv_step)

lemma map_filter_entries: "List.map_filter f xs = List.map_filter (\<lambda>e. e) (map f xs)"
  by (induction xs) (simp_all add: map_filter_simps split: option.split)

lemma present_ids:
  assumes "length (cpus k) = n"
  shows "List.map_filter (k_cpu_get k) [0..int n - 1] = present k"
proof -
  have "map (k_cpu_get k) (map int [0..<n]) = cpus k"
    using assms by (intro nth_equalityI) (auto simp: k_cpu_get_def)
  then have "List.map_filter (k_cpu_get k) (map int [0..<n]) = present k"
    by (simp only: present_def map_filter_entries [of "k_cpu_get k"])
  moreover have "[0..int n - 1] = map int [0..<n]"
    by (intro nth_equalityI) auto
  ultimately show ?thesis by simp
qed

lemma set_present: "c \<in> set (present k) \<longleftrightarrow> Some c \<in> set (cpus k)"
  by (force simp: present_def List.map_filter_def)

lemma futex_wake_spec:
  assumes "bitset \<noteq> 0" "ipi_works ops" "k_cpu_get_current k hart = Some cur" "length (cpus k) = NUM_CORES cfg"
    and "distinct (present k)" "locks_free k"
    and "ws = take (nat val) (fx_waiters k (Some cur) uaddr bitset (present k))"
  shows "\<exists>k'. k_cpu_futex_wake cfg ops hart uaddr val bitset k = Some (int (length ws), k') \<and> marks k ws k'"
  using futex_wake_loop_spec [OF assms(2,3) refl, where ids = "[0..int (NUM_CORES cfg) - 1]" and res = 0] assms
  unfolding k_cpu_futex_wake_def present_ids [OF assms(4)]
  by (simp add: locks_free_def set_present)

text \<open>
  C15. Waking. With the locks free, a bit set that is not 0, a table of different CPUs and a working
  inter-processor interrupt, \<open>k_cpu_futex_wake\<close> marks the first \<open>val\<close> CPUs of
  the table, in its order and without the calling CPU, that wait at the address with a common bit in
  the bit set. It returns how many it marked and changes nothing else but the state of the hardware;
  the locks are free again.
\<close>

theorem k_cpu_futex_wake_marks:
  assumes "bitset \<noteq> 0" "ipi_works ops" "k_cpu_get_current k hart = Some cur" "length (cpus k) = NUM_CORES cfg"
    and "distinct (present k)" "locks_free k"
    and "ws = take (nat val) (fx_waiters k (Some cur) uaddr bitset (present k))"
  shows "\<exists>k'. k_cpu_futex_wake cfg ops hart uaddr val bitset k = Some (int (length ws), k') \<and> marks k ws k'"
  using assms by (rule futex_wake_spec)

text \<open>
  C16. No wake-up is lost.  In every interleaving of waiting and waking harts, a CPU that a waker
  has marked does not stay in the wait instruction: its inter-processor interrupt is pending, a
  waker is about to send it, or since the CPU began to wait a waker has got an error for sending
  it, which is the only way a marked CPU can stay asleep.  Waiting returns 0 only when a waker has marked the CPU.
\<close>

theorem futex_no_lost_wakeup:
  assumes "fx_step\<^sup>*\<^sup>* (fx_start m) s"
  shows "(fx_at s c = Fx_wfi \<and> fx_wakeup (fxs s c) \<longrightarrow>
      ipi_pending s c \<or> ipi_failed s c \<or> (\<exists>w. w \<noteq> c \<and> fx_at s w = Fx_send c)) \<and>
    (fx_at s c = Fx_leave 0 \<longrightarrow> fx_wakeup (fxs s c))"
  using fx_inv_reachable [OF assms] by (simp add: fx_inv_def fx_sent_def)

lemma example_waiting_facts:
  "k_cpu_get_current example_waiting 0 = Some 0" "cpus example_waiting = [Some 0, Some 1]"
  "locks_free example_waiting" "present example_waiting = [0, 1]"
  "fx_waiters example_waiting (Some 0) 0x9000 FUTEX_BITSET_ANY [0, 1] = [1]"
  by (simp_all add: example_waiting_def example_kernel_def example_cpu_def k_cpu_get_current_def present_def
      k_cpu_get_by_physical_id_def phys_entry_def locks_free_def fx_waiters_def fx_match_def futex_enter_def map_filter_simps)

theorem k_cpu_futex_wake_marks_witness:
  "\<exists>k'. k_cpu_futex_wake (riscv_qemu_virt_64\<lparr>NUM_CORES := 2\<rparr>) example_ops 0 0x9000 5 FUTEX_BITSET_ANY example_waiting =
     Some (1, k') \<and> fx_wakeup (futex (cpu_dev k' 1))"
proof -
  have "ipi_works example_ops" by (simp add: ipi_works_def example_ops_def)
  moreover have "length (cpus example_waiting) = NUM_CORES (riscv_qemu_virt_64\<lparr>NUM_CORES := 2\<rparr>)"
    by (simp add: example_waiting_facts)
  moreover have "distinct (present example_waiting)" by (simp add: example_waiting_facts)
  moreover have "[1] = take (nat 5) (fx_waiters example_waiting (Some 0) 0x9000 FUTEX_BITSET_ANY (present example_waiting))"
    by (simp only: example_waiting_facts) simp
  ultimately have "\<exists>k'. k_cpu_futex_wake (riscv_qemu_virt_64\<lparr>NUM_CORES := 2\<rparr>) example_ops 0 0x9000 5 FUTEX_BITSET_ANY
     example_waiting = Some (int (length [1::nat]), k') \<and> marks example_waiting [1] k'"
    by (intro k_cpu_futex_wake_marks [OF _ _ example_waiting_facts(1) _ _ example_waiting_facts(3)]) simp_all
  then obtain k' where k': "k_cpu_futex_wake (riscv_qemu_virt_64\<lparr>NUM_CORES := 2\<rparr>) example_ops 0 0x9000 5 FUTEX_BITSET_ANY
     example_waiting = Some (1, k')" "marks example_waiting [1] k'" by auto
  have "fx_wakeup (futex (cpu_dev k' 1))" using marks_simps(14) [OF k'(2)] by simp
  with k'(1) show ?thesis by blast
qed

lemma example_marked_reachable: "fx_step\<^sup>*\<^sup>* (fx_start (\<lambda>_. 0)) example_marked"
proof -
  let ?init = "fx_start (\<lambda>_. 0)"
  let ?s = "\<lambda>p. (?init\<lparr>fxs := (fxs ?init)(0 := futex_enter 64 0 1), fx_at := (fx_at ?init)(0 := p)\<rparr>)"
  have "fx_step ?init (?s Fx_test)"
    using wait_enter [of ?init 0 1 64 0] by (simp add: fx_start_def fun_upd_idem)
  moreover have "fx_step (?s Fx_test) (?s Fx_compare)"
    using wait_test [of "?s Fx_test" 0] by (simp add: futex_enter_def)
  moreover have "fx_step (?s Fx_compare) (?s Fx_wfi)"
    using wait_sleep [of "?s Fx_compare" 0] by (simp add: futex_enter_def fx_start_def)
  moreover have "fx_step (?s Fx_wfi) example_marked"
    using wake_mark [of "?s Fx_wfi" 1 0 64 1] by (simp add: futex_enter_def fx_start_def example_marked_def)
  ultimately show ?thesis by (meson rtranclp.rtrancl_into_rtrancl rtranclp.rtrancl_refl)
qed

theorem futex_no_lost_wakeup_witness:
  "fx_step\<^sup>*\<^sup>* (fx_start (\<lambda>_. 0)) example_marked \<and> fx_at example_marked 0 = Fx_wfi \<and>
   (\<exists>w. w \<noteq> 0 \<and> fx_at example_marked w = Fx_send 0)"
  using futex_no_lost_wakeup [OF example_marked_reachable, of 0] example_marked_reachable
  by (auto simp: example_marked_def)

end
