(* ===== verification/Args.thy ===== *)
theory Args
  imports Thread
begin

section \<open>Arguments of the application\<close>

text \<open>
  The part of \<^verbatim>\<open>sys/init.c\<close> that passes the arguments from the communication area to the
  application and its exit status back to the host.  The vector of arguments, environment and
  auxiliary entries is built on top of the main stack, as the list \<open>argv\<close> of \<open>MAX_ARGV\<close> words; its
  first content is what that memory holds, the section of the stacks not being cleared at start.
  The record \<open>aux_data\<close> holds what the build stores in the auxiliary section and the addresses of
  the objects the vector refers to.
\<close>

record arg_state =
  argv :: "u64 list"
  index_argv :: nat

record aux_data =
  aux_valid :: bool
  aux_phent :: u64
  aux_phnum :: u64
  aux_phdr :: u64
  at_random :: u64
  default_kernel_name :: u64

abbreviation (input) COMM_MAGIC :: u32 where "COMM_MAGIC \<equiv> 0xbadcafe5"
abbreviation (input) AT_PHDR :: u64 where "AT_PHDR \<equiv> 3"
abbreviation (input) AT_PHENT :: u64 where "AT_PHENT \<equiv> 4"
abbreviation (input) AT_PHNUM :: u64 where "AT_PHNUM \<equiv> 5"
abbreviation (input) AT_PAGESZ :: u64 where "AT_PAGESZ \<equiv> 6"
abbreviation (input) AT_RANDOM :: u64 where "AT_RANDOM \<equiv> 25"

definition add_argv :: "kconfig \<Rightarrow> u64 \<Rightarrow> arg_state \<Rightarrow> int \<times> arg_state" where
  "add_argv cfg p a =
     (if MAX_ARGV cfg \<le> index_argv a then (- ENOMEM, a)
      else (0, a\<lparr>argv := (argv a)[index_argv a := p], index_argv := index_argv a + 1\<rparr>))"

definition add_env :: "kconfig \<Rightarrow> u64 \<Rightarrow> arg_state \<Rightarrow> int \<times> arg_state" where
  "add_env = add_argv"

definition add_aux :: "kconfig \<Rightarrow> u64 \<Rightarrow> u64 \<Rightarrow> arg_state \<Rightarrow> int \<times> arg_state" where
  "add_aux cfg typ p a =
     (if MAX_ARGV cfg - 1 \<le> index_argv a then (- ENOMEM, a)
      else (0, a\<lparr>argv := (argv a)[index_argv a := typ, index_argv a + 1 := p], index_argv := index_argv a + 2\<rparr>))"

text \<open>A little-endian word of the communication area; the size field of an argument header is its second half.\<close>

definition load_u64 :: "memory \<Rightarrow> u64 \<Rightarrow> u64" where
  "load_u64 m a = foldr (\<lambda>i acc. push_bit 8 acc OR ucast (m (a + of_nat i))) [0..<8] 0"

definition arg_size :: "memory \<Rightarrow> u64 \<Rightarrow> u64" where
  "arg_size m buf = load_u64 m (buf + 8)"

definition align8 :: "u64 \<Rightarrow> u64" where
  "align8 x = (x + 7) AND NOT 7"

fun map_argv ::
    "kconfig \<Rightarrow> 'h k_cpu_driver_ops \<Rightarrow> int \<Rightarrow> nat \<Rightarrow> u64 \<Rightarrow> arg_state \<Rightarrow> 'h kernel \<Rightarrow> arg_state \<times> 'h kernel" where
  "map_argv cfg ops hart 0 buf a k = (a, k)"
| "map_argv cfg ops hart (Suc n) buf a k =
     (let size = arg_size (comm_buf k) buf;
          buf = buf + 16;
          (_, k) = k_cpu_cache_inv_range ops (k_cpu_get_current k hart) buf size k;
          (_, a) = add_argv cfg buf a
      in map_argv cfg ops hart n (align8 (buf + size)) a k)"

fun unmap_argv :: "'h k_cpu_driver_ops \<Rightarrow> int \<Rightarrow> nat \<Rightarrow> u64 \<Rightarrow> 'h kernel \<Rightarrow> 'h kernel" where
  "unmap_argv ops hart 0 buf k = k"
| "unmap_argv ops hart (Suc n) buf k =
     (let size = arg_size (comm_buf k) buf;
          buf = buf + 16;
          (_, k) = k_cpu_cache_flush_range ops (k_cpu_get_current k hart) buf size k
      in unmap_argv ops hart n (align8 (buf + size)) k)"

text \<open>The first argument follows the header of 16 bytes.\<close>

definition init_args ::
    "kconfig \<Rightarrow> layout \<Rightarrow> aux_data \<Rightarrow> 'h k_cpu_driver_ops \<Rightarrow> int \<Rightarrow> u64 list \<Rightarrow> 'h kernel \<Rightarrow>
     nat \<times> arg_state \<times> 'h kernel" where
  "init_args cfg sy aux ops hart stack k =
     (let a = \<lparr>argv = stack, index_argv = 0\<rparr>;
          h = comm_area k;
          (a, k) = (if cm_magic h = COMM_MAGIC
                    then map_argv cfg ops hart (unat (cm_num_args h)) (sym_comm_area sy + 16) a k
                    else (a, k));
          a = (if index_argv a = 0
               then a\<lparr>argv := (argv a)[0 := default_kernel_name aux], index_argv := 1\<rparr> else a);
          argc = index_argv a;
          a = a\<lparr>index_argv := index_argv a + 1\<rparr>;
          (_, a) = add_env cfg 0 a;
          (_, a) = add_aux cfg AT_RANDOM (at_random aux) a;
          (_, a) = add_aux cfg AT_PAGESZ (of_nat PAGE_SIZE) a;
          a = (if aux_valid aux
               then let (_, a) = add_aux cfg AT_PHENT (aux_phent aux) a;
                        (_, a) = add_aux cfg AT_PHNUM (aux_phnum aux) a;
                        (_, a) = add_aux cfg AT_PHDR (aux_phdr aux) a
                    in a
               else a);
          (_, a) = add_aux cfg 0 0 a
      in (argc, a, k))"

definition fini_args :: "layout \<Rightarrow> 'h k_cpu_driver_ops \<Rightarrow> int \<Rightarrow> u32 \<Rightarrow> 'h kernel \<Rightarrow> 'h kernel" where
  "fini_args sy ops hart st k =
     (let cpu = k_cpu_get_current k hart;
          h = comm_area k
      in if cm_magic h = COMM_MAGIC
         then
           let k = unmap_argv ops hart (unat (cm_num_args h)) (sym_comm_area sy + 16) k;
               k = k\<lparr>comm_area := (comm_area k)\<lparr>cm_done := 1, cm_ret_main := st\<rparr>\<rparr>;
               (_, k) = k_cpu_cache_flush_range ops cpu (sym_comm_area sy + 12) 4 k;
               (_, k) = k_cpu_cache_flush_range ops cpu (sym_comm_area sy + 8) 4 k
           in k
         else k)"

definition k_fini_leader :: "kconfig \<Rightarrow> layout \<Rightarrow> 'h k_cpu_driver_ops \<Rightarrow> int \<Rightarrow> u32 \<Rightarrow> 'h kernel \<Rightarrow> 'h kernel" where
  "k_fini_leader cfg sy ops hart status k =
     snd (k_cpu_sleep_all cfg ops hart (fini_args sy ops hart (status AND 0xff) k))"

definition k_fini_child :: "u32 \<Rightarrow> 'h kernel \<Rightarrow> 'h kernel" where
  "k_fini_child status k = k"

text \<open>
  \<open>k_init_leader\<close> and \<open>k_init_child\<close> up to the first context switch.  The results of the setup
  functions are not looked at.
\<close>

definition k_init_leader ::
    "kconfig \<Rightarrow> layout \<Rightarrow> aux_data \<Rightarrow> 'h k_cpu_driver_ops \<Rightarrow> int \<Rightarrow> k_arch_user_regs \<Rightarrow> u64 list \<Rightarrow> 'h kernel \<Rightarrow>
     (arg_state \<times> 'h kernel) option" where
  "k_init_leader cfg sy aux ops hart ctx stack k = do {
     c \<leftarrow> k_cpu_get_current k hart;
     let (_, k) = k_cpu_wakeup_all cfg ops hart k;
         (argc, a, k) = init_args cfg sy aux ops hart stack k;
         argv_ptr = sym_stack_main sy + of_nat (MAIN_STACK_SIZE cfg) - of_nat (8 * MAX_ARGV cfg)
     in do {
       (_, k) \<leftarrow> init_main_thread sy hart ctx argc argv_ptr (sym_stack_intr sy + of_nat (INTR_STACK_SIZE cfg)) k;
       (_, k) \<leftarrow> init_idle_thread cfg sy hart ctx c 1 k;
       Some (a, k)
     }
   }"

definition k_init_child ::
    "kconfig \<Rightarrow> layout \<Rightarrow> int \<Rightarrow> k_arch_user_regs \<Rightarrow> 'h kernel \<Rightarrow> 'h kernel option" where
  "k_init_child cfg sy hart ctx k = do {
     c \<leftarrow> k_cpu_get_current k hart;
     (_, k) \<leftarrow> init_idle_thread cfg sy hart ctx c 0 k;
     Some k
   }"

subsection \<open>Reference definitions\<close>

text \<open>Reference: the arguments as the host lays them out, and the auxiliary vector.\<close>

fun arg_ptrs :: "memory \<Rightarrow> nat \<Rightarrow> u64 \<Rightarrow> u64 list" where
  "arg_ptrs m 0 buf = []"
| "arg_ptrs m (Suc n) buf = (buf + 16) # arg_ptrs m n (align8 (buf + 16 + arg_size m buf))"

definition aux_vec :: "aux_data \<Rightarrow> u64 list" where
  "aux_vec aux =
     [AT_RANDOM, at_random aux, AT_PAGESZ, 4096] @
     (if aux_valid aux then [AT_PHENT, aux_phent aux, AT_PHNUM, aux_phnum aux, AT_PHDR, aux_phdr aux] else []) @ [0, 0]"

text \<open>The first words of the vector are \<open>xs\<close>, the others those of the stack.\<close>

definition built :: "kconfig \<Rightarrow> u64 list \<Rightarrow> u64 list \<Rightarrow> arg_state \<Rightarrow> bool" where
  "built cfg stack xs a \<longleftrightarrow> a = \<lparr>argv = xs @ drop (length xs) stack, index_argv = length xs\<rparr> \<and>
     length stack = MAX_ARGV cfg"

definition example_aux :: aux_data where
  "example_aux = \<lparr>aux_valid = True, aux_phent = 56, aux_phnum = 3, aux_phdr = 0x80000040, at_random = 0x80060000,
     default_kernel_name = 0x80061000\<rparr>"

text \<open>One argument of five bytes.\<close>

definition example_comm :: "unit kernel" where
  "example_comm = example_kernel\<lparr>comm_area := \<lparr>cm_magic = COMM_MAGIC, cm_num_args = 1, cm_done = 0, cm_ret_main = 0\<rparr>,
     comm_buf := (\<lambda>_. 0)(0x80050018 := 5)\<rparr>"

subsection \<open>The argument vector\<close>

lemma length_arg_ptrs [simp]: "length (arg_ptrs m n buf) = n"
  by (induction m n buf rule: arg_ptrs.induct) auto

lemma length_aux_vec: "length (aux_vec aux) \<le> 12"
  by (simp add: aux_vec_def)

lemma built_add_argv:
  "built cfg stack xs a \<Longrightarrow> length xs < MAX_ARGV cfg \<Longrightarrow>
   \<exists>a'. add_argv cfg p a = (0, a') \<and> built cfg stack (xs @ [p]) a'"
  by (auto simp: built_def add_argv_def list_update_append drop_Suc tl_drop Cons_nth_drop_Suc [symmetric])

lemma built_add_aux:
  "built cfg stack xs a \<Longrightarrow> Suc (length xs) < MAX_ARGV cfg \<Longrightarrow>
   \<exists>a'. add_aux cfg typ p a = (0, a') \<and> built cfg stack (xs @ [typ, p]) a'"
  by (auto simp: built_def add_aux_def list_update_append drop_Suc tl_drop Cons_nth_drop_Suc [symmetric])

lemma built_aux_full:
  "built cfg stack xs a \<Longrightarrow> MAX_ARGV cfg \<le> Suc (length xs) \<Longrightarrow> add_aux cfg typ p a = (- ENOMEM, a)"
  by (auto simp: built_def add_aux_def)

text \<open>Entries of the auxiliary vector are added while there is room for both words.\<close>

definition add_auxs :: "kconfig \<Rightarrow> (u64 \<times> u64) list \<Rightarrow> arg_state \<Rightarrow> arg_state" where
  "add_auxs cfg = fold (\<lambda>(typ, p) a. snd (add_aux cfg typ p a))"

definition aux_pairs :: "aux_data \<Rightarrow> (u64 \<times> u64) list" where
  "aux_pairs aux = [(AT_RANDOM, at_random aux), (AT_PAGESZ, 4096)] @
     (if aux_valid aux then [(AT_PHENT, aux_phent aux), (AT_PHNUM, aux_phnum aux), (AT_PHDR, aux_phdr aux)] else []) @ [(0, 0)]"

lemma aux_vec_pairs: "aux_vec aux = concat (map (\<lambda>(typ, p). [typ, p]) (aux_pairs aux))"
  by (simp add: aux_vec_def aux_pairs_def)

lemma built_add_auxs:
  "built cfg stack xs a \<Longrightarrow> built cfg stack
     (xs @ take (2 * ((MAX_ARGV cfg - length xs) div 2)) (concat (map (\<lambda>(typ, p). [typ, p]) ps))) (add_auxs cfg ps a)"
proof (induction ps arbitrary: xs a)
  case (Cons q ps)
  obtain ty p where q: "q = (ty, p)" by fastforce
  show ?case
  proof (cases "Suc (length xs) < MAX_ARGV cfg")
    case True
    then obtain a' where a': "add_aux cfg ty p a = (0, a')" "built cfg stack (xs @ [ty, p]) a'"
      using built_add_aux [OF Cons.prems] by blast
    have room: "(MAX_ARGV cfg - length xs) div 2 = Suc ((MAX_ARGV cfg - Suc (Suc (length xs))) div 2)"
      using True by (simp add: le_div_geq Suc_diff_Suc numeral_2_eq_2)
    show ?thesis using Cons.IH [OF a'(2)] a'(1) by (simp add: q add_auxs_def room)
  next
    case False
    then have "add_aux cfg ty p a = (- ENOMEM, a)" "(MAX_ARGV cfg - length xs) div 2 = 0"
      using built_aux_full [OF Cons.prems] by auto
    then show ?thesis using Cons.IH [OF Cons.prems] by (simp add: q add_auxs_def)
  qed
qed (simp add: add_auxs_def)

lemma built_skip:
  "built cfg stack xs a \<Longrightarrow> length xs < MAX_ARGV cfg \<Longrightarrow>
   built cfg stack (xs @ [stack ! length xs]) (a\<lparr>index_argv := index_argv a + 1\<rparr>)"
  by (auto simp: built_def Cons_nth_drop_Suc)

lemma kernel_hw_same: "\<exists>h. k = k\<lparr>hw := h\<rparr>"
  by (rule exI [of _ "hw k"]) simp

lemma cache_inv_range_frame: "\<exists>r h. k_cpu_cache_inv_range ops cpu start sz k = (r, k\<lparr>hw := h\<rparr>)"
  by (auto simp: k_cpu_cache_inv_range_def kernel_hw_same split: option.split prod.split)

lemma cache_flush_range_frame: "\<exists>r h. k_cpu_cache_flush_range ops cpu start sz k = (r, k\<lparr>hw := h\<rparr>)"
  by (auto simp: k_cpu_cache_flush_range_def kernel_hw_same split: option.split prod.split)

lemma map_argv_built:
  assumes "built cfg stack xs a" "length xs + n \<le> MAX_ARGV cfg"
  shows "\<exists>a' h. map_argv cfg ops hart n buf a k = (a', k\<lparr>hw := h\<rparr>) \<and>
    built cfg stack (xs @ arg_ptrs (comm_buf k) n buf) a'"
  using assms
proof (induction n arbitrary: buf a k xs)
  case 0
  then show ?case by (auto intro: exI [of _ "hw k"])
next
  case (Suc n)
  let ?s = "arg_size (comm_buf k) buf"
  obtain r h where k1: "k_cpu_cache_inv_range ops (k_cpu_get_current k hart) (buf + 16) ?s k = (r, k\<lparr>hw := h\<rparr>)"
    using cache_inv_range_frame [of ops "k_cpu_get_current k hart" "buf + 16" ?s k] by auto
  obtain a1 where a1: "add_argv cfg (buf + 16) a = (0, a1)" "built cfg stack (xs @ [buf + 16]) a1"
    using built_add_argv [OF Suc.prems(1), of "buf + 16"] Suc.prems(2) by auto
  from Suc.IH [OF a1(2), of "align8 (buf + 16 + ?s)" "k\<lparr>hw := h\<rparr>"] Suc.prems(2) k1 a1(1)
  show ?case by (auto simp: Let_def)
qed

text \<open>
  C17. The argument vector.  From a communication area with the magic number and \<open>n\<close> arguments,
  at least one and not more than the configured maximum, \<open>init_args\<close> returns \<open>n\<close> as \<open>argc\<close> and
  builds in the \<open>MAX_ARGV\<close> words reserved on the stack the pointers to the arguments in the order of the area, a word that keeps
  what the stack held, the NULL that ends the empty environment and the auxiliary vector.  The word that
  keeps the old content is \<open>argv[argc]\<close>, which should be NULL.  Of the auxiliary vector the entries
  that fit into \<open>MAX_ARGV\<close> words are stored, and the rest is dropped: with room for two or more environment strings
  in the configuration that is all of it, but the 10 words reserved for it are 2 less than it can have, and with less
  room the end mark can be among the dropped.
\<close>

theorem init_args_vector:
  assumes "cm_magic (comm_area k) = COMM_MAGIC" "n = unat (cm_num_args (comm_area k))" "0 < n"
    and "n \<le> COMM_MAX_ARGS cfg" "length stack = MAX_ARGV cfg"
    and "v = take (2 * ((MAX_ARGV cfg - (n + 2)) div 2)) (aux_vec aux)"
  shows "(\<exists>a h. init_args cfg sy aux ops hart stack k = (n, a, k\<lparr>hw := h\<rparr>) \<and>
      take (n + 2 + length v) (argv a) = arg_ptrs (comm_buf k) n (sym_comm_area sy + 16) @ [stack ! n, 0] @ v) \<and>
    (2 \<le> COMM_MAX_ENVS cfg \<longrightarrow> v = aux_vec aux)"
proof -
  let ?ps = "arg_ptrs (comm_buf k) n (sym_comm_area sy + 16)"
  have max: "n + 12 \<le> MAX_ARGV cfg" using assms(4) by (simp add: MAX_ARGV_def)
  have "built cfg stack [] \<lparr>argv = stack, index_argv = 0\<rparr>" using assms(5) by (simp add: built_def)
  from map_argv_built [OF this, of n ops hart "sym_comm_area sy + 16" k] max obtain a1 h where
    a1: "map_argv cfg ops hart n (sym_comm_area sy + 16) \<lparr>argv = stack, index_argv = 0\<rparr> k = (a1, k\<lparr>hw := h\<rparr>)"
      "built cfg stack ?ps a1" by auto
  have i1: "index_argv a1 = n" using a1(2) by (simp add: built_def)
  let ?a2 = "a1\<lparr>index_argv := Suc n\<rparr>"
  have a2: "built cfg stack (?ps @ [stack ! n]) ?a2" using built_skip [OF a1(2)] max i1 by simp
  obtain a3 where a3: "add_env cfg 0 ?a2 = (0, a3)" "built cfg stack (?ps @ [stack ! n, 0]) a3"
    using built_add_argv [OF a2, of 0] max by (auto simp: add_env_def)
  have "init_args cfg sy aux ops hart stack k = (n, add_auxs cfg (aux_pairs aux) a3, k\<lparr>hw := h\<rparr>)"
    using assms(1,3) a1(1) i1 a3(1)
    by (simp add: init_args_def assms(2) [symmetric] add_auxs_def aux_pairs_def split_beta)
  moreover have "built cfg stack (?ps @ [stack ! n, 0] @ v) (add_auxs cfg (aux_pairs aux) a3)"
    using built_add_auxs [OF a3(2), of "aux_pairs aux"] by (simp add: assms(6) aux_vec_pairs)
  then have "take (n + 2 + length v) (argv (add_auxs cfg (aux_pairs aux) a3)) = ?ps @ [stack ! n, 0] @ v"
    by (simp add: built_def)
  moreover have "v = aux_vec aux" if "2 \<le> COMM_MAX_ENVS cfg"
  proof -
    have "12 \<le> MAX_ARGV cfg - (n + 2)" using that assms(4) by (simp add: MAX_ARGV_def)
    then have "6 \<le> (MAX_ARGV cfg - (n + 2)) div 2" by linarith
    then have "length (aux_vec aux) \<le> 2 * ((MAX_ARGV cfg - (n + 2)) div 2)" using length_aux_vec [of aux] by simp
    then show ?thesis by (simp add: assms(6))
  qed
  ultimately show ?thesis by blast
qed

theorem init_args_vector_witness:
  "\<exists>a h. init_args riscv_qemu_virt_64 example_layout example_aux example_ops 0 (replicate 36 7) example_comm =
     (1, a, example_comm\<lparr>hw := h\<rparr>) \<and> take 3 (argv a) = [0x80050020, 7, 0]"
proof -
  have "(\<exists>a h. init_args riscv_qemu_virt_64 example_layout example_aux example_ops 0 (replicate 36 7) example_comm =
     (1, a, example_comm\<lparr>hw := h\<rparr>) \<and>
     take (1 + 2 + length (aux_vec example_aux)) (argv a) =
       arg_ptrs (comm_buf example_comm) 1 (sym_comm_area example_layout + 16) @ [replicate 36 7 ! 1, 0] @ aux_vec example_aux) \<and>
     (2 \<le> COMM_MAX_ENVS riscv_qemu_virt_64 \<longrightarrow> aux_vec example_aux = aux_vec example_aux)"
    by (rule init_args_vector)
      (simp_all add: example_comm_def riscv_qemu_virt_64_def MAX_ARGV_def, simp add: aux_vec_def example_aux_def)
  then obtain a h where
    r: "init_args riscv_qemu_virt_64 example_layout example_aux example_ops 0 (replicate 36 7) example_comm =
      (1, a, example_comm\<lparr>hw := h\<rparr>)"
    and v: "take (1 + 2 + length (aux_vec example_aux)) (argv a) = [0x80050020, 7, 0] @ aux_vec example_aux"
    by (auto simp: example_layout_def nth_Cons)
  have "take 3 (argv a) = take 3 (take (1 + 2 + length (aux_vec example_aux)) (argv a))" by (simp add: min_def)
  then have "take 3 (argv a) = [0x80050020, 7, 0]" by (simp only: v) simp
  with r show ?thesis by blast
qed

end
