(* ===== verification/Proc.thy ===== *)
theory Proc
  imports Futex Args
begin

section \<open>Process system calls\<close>

text \<open>
  The system calls of \<^verbatim>\<open>sys/syscall.c\<close> on threads and the process, and \<^verbatim>\<open>sys/fini.c\<close>.  The reset
  device is the parameter \<open>rst\<close>: NULL, or its operations on the hardware.
\<close>

record 'h k_reset_driver_ops =
  rst_reboot :: "('h \<Rightarrow> int \<times> 'h) option"
  rst_shutdown :: "('h \<Rightarrow> int \<times> 'h) option"
  rst_power_off :: "('h \<Rightarrow> int \<times> 'h) option"

definition reset_call :: "('h \<Rightarrow> int \<times> 'h) option \<Rightarrow> 'h kernel \<Rightarrow> int \<times> 'h kernel" where
  "reset_call f k =
     (case f of
        None \<Rightarrow> (0, k)
      | Some g \<Rightarrow> let (r, h) = g (hw k) in (if r \<noteq> 0 then r else 0, k\<lparr>hw := h\<rparr>))"

definition k_fini_reboot :: "'h k_reset_driver_ops option \<Rightarrow> 'h kernel \<Rightarrow> int \<times> 'h kernel" where
  "k_fini_reboot rst k = (case rst of None \<Rightarrow> (- ENOTSUP, k) | Some ops \<Rightarrow> reset_call (rst_reboot ops) k)"

definition k_fini_power_off :: "'h k_reset_driver_ops option \<Rightarrow> 'h kernel \<Rightarrow> int \<times> 'h kernel" where
  "k_fini_power_off rst k = (case rst of None \<Rightarrow> (- ENOTSUP, k) | Some ops \<Rightarrow> reset_call (rst_power_off ops) k)"

abbreviation (input) REBOOT_MAGIC1 :: u32 where "REBOOT_MAGIC1 \<equiv> 0xfee1dead"
abbreviation (input) REBOOT_MAGIC2 :: u32 where "REBOOT_MAGIC2 \<equiv> 672274793"
abbreviation (input) RB_AUTOBOOT :: u32 where "RB_AUTOBOOT \<equiv> 0x01234567"
abbreviation (input) RB_POWER_OFF :: u32 where "RB_POWER_OFF \<equiv> 0x4321fedc"

definition k_sys_reboot ::
    "'h k_reset_driver_ops option \<Rightarrow> u32 \<Rightarrow> u32 \<Rightarrow> u32 \<Rightarrow> 'h kernel \<Rightarrow> int \<times> 'h kernel" where
  "k_sys_reboot rst magic1 magic2 cmd k =
     (if magic1 \<noteq> REBOOT_MAGIC1 \<or> magic2 \<noteq> REBOOT_MAGIC2 then (- EINVAL, k)
      else if cmd = RB_AUTOBOOT then (0, snd (k_fini_reboot rst k))
      else if cmd = RB_POWER_OFF then (0, snd (k_fini_power_off rst k))
      else (- EINVAL, k))"

subsection \<open>Creating and switching threads\<close>

abbreviation (input) CSIGNAL :: u64 where "CSIGNAL \<equiv> 0xff"

text \<open>
  The fields \<open>k_sys_clone\<close> does not set hold whatever was on the stack, the argument \<open>junk\<close>;
  \<open>k_thread_clone\<close> does not read them.
\<close>

definition k_sys_clone ::
    "kconfig \<Rightarrow> layout \<Rightarrow> 'h k_cpu_driver_ops \<Rightarrow> int \<Rightarrow> k_arch_user_regs \<Rightarrow> k_clone_args \<Rightarrow>
     u64 \<Rightarrow> u64 \<Rightarrow> u64 \<Rightarrow> u64 \<Rightarrow> u64 \<Rightarrow> 'h kernel \<Rightarrow> (int \<times> 'h kernel) option" where
  "k_sys_clone cfg sy ops hart ctx junk flags child_stack ptid0 tls0 ctid0 k =
     k_thread_clone cfg sy ops hart ctx
       (junk\<lparr>ca_flags := flags AND NOT CSIGNAL, ca_pidfd := ptid0, ca_ctid := ctid0, ca_ptid := ptid0,
          ca_exit_signal := ucast (flags AND CSIGNAL), ca_child_stack := child_stack, ca_tls := tls0\<rparr>) k"

text \<open>The structure of the call \<open>clone3\<close>, 64-bit fields in user memory.\<close>

record clone_args =
  c3_flags :: u64
  c3_pidfd :: u64
  c3_child_tid :: u64
  c3_parent_tid :: u64
  c3_exit_signal :: u64
  c3_stack :: u64
  c3_stack_size :: u64
  c3_tls :: u64
  c3_set_tid :: u64
  c3_set_tid_size :: u64
  c3_cgroup :: u64

definition k_sys_clone3 ::
    "kconfig \<Rightarrow> layout \<Rightarrow> 'h k_cpu_driver_ops \<Rightarrow> int \<Rightarrow> k_arch_user_regs \<Rightarrow> clone_args option \<Rightarrow> u64 \<Rightarrow>
     'h kernel \<Rightarrow> (int \<times> 'h kernel) option" where
  "k_sys_clone3 cfg sy ops hart ctx cargs size0 k =
     (case cargs of
        None \<Rightarrow> Some (- EINVAL, k)
      | Some a \<Rightarrow>
          if size0 < 88 then Some (- EINVAL, k)
          else
            k_thread_clone cfg sy ops hart ctx
              \<lparr>ca_flags = c3_flags a, ca_pidfd = c3_pidfd a, ca_ctid = c3_child_tid a, ca_ptid = c3_parent_tid a,
               ca_exit_signal = ucast (c3_exit_signal a), ca_child_stack = c3_stack a + c3_stack_size a,
               ca_stack_size = c3_stack_size a, ca_tls = c3_tls a, ca_set_tid = c3_set_tid a,
               ca_set_tid_size = c3_set_tid_size a, ca_cgroup = ucast (c3_cgroup a)\<rparr> k)"

definition retval :: "cptr \<Rightarrow> 'h kernel \<Rightarrow> int" where
  "retval c k = sint (k_arch_get_arg (cpu_regs (cpu_dev k c)) K_ARCH_ARG_TYPE_RETVAL)"

definition k_sys_context_switch :: "int \<Rightarrow> 'h kernel \<Rightarrow> (int \<times> 'h kernel) option" where
  "k_sys_context_switch hart k = do {
     c \<leftarrow> k_cpu_get_current k hart;
     (r, k) \<leftarrow> k_thread_context_switch hart k;
     if r \<noteq> 0 then Some (r, k) else Some (retval c k, k)
   }"

definition k_sys_set_robust_list :: "int \<Rightarrow> u64 \<Rightarrow> u64 \<Rightarrow> 'h kernel \<Rightarrow> (int \<times> 'h kernel) option" where
  "k_sys_set_robust_list hart head0 len k =
     (if len = 0 then Some (- EINVAL, k)
      else do {
        c \<leftarrow> k_cpu_get_current k hart;
        case k_cpu_get_thread_task k c of
          None \<Rightarrow> Some (- EINVAL, k)
        | Some t \<Rightarrow> Some (0, upd_ti t (\<lambda>ti. ti\<lparr>robust_list := head0, robust_len := len\<rparr>) k)
      })"

definition k_sys_set_tid_address :: "int \<Rightarrow> u64 \<Rightarrow> 'h kernel \<Rightarrow> (int \<times> 'h kernel) option" where
  "k_sys_set_tid_address hart tidptr k = do {
     c \<leftarrow> k_cpu_get_current k hart;
     case k_cpu_get_thread_task k c of
       None \<Rightarrow> Some (- EINVAL, k)
     | Some t \<Rightarrow>
         let k = (if ti_flags (k_ti k ! t) AND CLONE_CHILD_CLEARTID \<noteq> 0
                  then upd_ti t (ctid_update (\<lambda>_. tidptr)) k else k)
         in Some (sint (tid (k_ti k ! t)), k)
   }"

subsection \<open>The end of a thread\<close>

definition k_sys_exit ::
    "kconfig \<Rightarrow> layout \<Rightarrow> 'h k_cpu_driver_ops \<Rightarrow> int \<Rightarrow> u32 \<Rightarrow> 'h kernel \<Rightarrow> (int \<times> 'h kernel) option" where
  "k_sys_exit cfg sy ops hart status k = do {
     _ \<leftarrow> k_proc_get_current k;
     c \<leftarrow> k_cpu_get_current k hart;
     k \<leftarrow> k_cpu_lock hart c k;
     case k_cpu_get_thread_task k c of
       None \<Rightarrow> Some (- EINVAL, k_cpu_unlock c k)
     | Some t \<Rightarrow> do {
         (r, k) \<leftarrow> k_thread_stop t k;
         if r \<noteq> 0 then Some (r, k_cpu_unlock c k)
         else
           let (r, k) = k_thread_destroy t k
           in if r \<noteq> 0 then Some (r, k_cpu_unlock c k)
           else
             let k = (if k_proc_get_leader k = Some t then k_fini_leader cfg sy ops hart status k
                      else k_fini_child status k);
                 f_wake = (ti_flags (k_ti k ! t) AND CLONE_CHILD_CLEARTID \<noteq> 0);
                 k = (if f_wake then k\<lparr>user_int := (user_int k)(ctid (k_ti k ! t) := 0)\<rparr> else k)
             in do {
               (r, k) \<leftarrow> k_thread_context_switch_nolock hart k;
               if r \<noteq> 0 then Some (r, k_cpu_unlock c k)
               else
                 let v = retval c k;
                     k = k_cpu_unlock c k
                 in if f_wake then do {
                      (_, k) \<leftarrow> k_cpu_futex_wake cfg ops hart (ctid (k_ti k ! t)) 1 FUTEX_BITSET_ANY k;
                      Some (v, k)
                    }
                    else Some (v, k)
             }
       }
   }"

text \<open>
  The leader waits until the other CPUs have no task.  Without a step of another hart the waiting
  does not end, which is \<open>None\<close>.
\<close>

definition children_done :: "kconfig \<Rightarrow> 'h kernel \<Rightarrow> bool" where
  "children_done cfg k \<longleftrightarrow>
     list_all (\<lambda>i. case k_cpu_get k i of None \<Rightarrow> True | Some c \<Rightarrow> k_cpu_get_thread_task k c = None)
       [1..int (NUM_CORES cfg) - 1]"

definition k_sys_exit_group ::
    "kconfig \<Rightarrow> layout \<Rightarrow> 'h k_cpu_driver_ops \<Rightarrow> int \<Rightarrow> u32 \<Rightarrow> 'h kernel \<Rightarrow> (int \<times> 'h kernel) option" where
  "k_sys_exit_group cfg sy ops hart status k = do {
     _ \<leftarrow> k_proc_get_current k;
     c \<leftarrow> k_cpu_get_current k hart;
     k \<leftarrow> k_cpu_lock hart c k;
     case k_cpu_get_thread_task k c of
       None \<Rightarrow> Some (- EINVAL, k_cpu_unlock c k)
     | Some t \<Rightarrow>
         let k' = k_cpu_unlock c k in
         if k_proc_get_leader k \<noteq> Some t then k_sys_exit cfg sy ops hart status k'
         else if children_done cfg k' then k_sys_exit cfg sy ops hart status k'
         else None
   }"

subsection \<open>Reference definitions\<close>

text \<open>A step that touches nothing of the kernel but the hardware and the running flags of the CPUs.\<close>

definition quiet :: "'h kernel \<Rightarrow> 'h kernel \<Rightarrow> bool" where
  "quiet k k' \<longleftrightarrow> k' = k\<lparr>cpu_dev := cpu_dev k', hw := hw k'\<rparr> \<and>
     (\<forall>c. cpu_dev k' c = (cpu_dev k c)\<lparr>cpu_running := cpu_running (cpu_dev k' c)\<rparr>)"

definition reported :: "u32 \<Rightarrow> k_comm_area_header \<Rightarrow> k_comm_area_header" where
  "reported st h = (if cm_magic h = COMM_MAGIC then h\<lparr>cm_done := 1, cm_ret_main := st AND 0xff\<rparr> else h)"

text \<open>The state in which \<open>k_sys_exit\<close> has stopped and released the thread.\<close>

definition ended :: "int \<Rightarrow> cptr \<Rightarrow> tptr \<Rightarrow> 'h kernel \<Rightarrow> 'h kernel" where
  "ended hart c t k =
     upd_ti t (avail_update (\<lambda>_. False))
       (upd_ti t (\<lambda>ti. ti\<lparr>ti_cpu := None, running := False\<rparr>)
         (k_cpu_set_thread_task c None (upd_cpu c (cpu_lock_update (\<lambda>_. \<lparr>lock_val = 1, lock_id = hart\<rparr>)) k)))"

text \<open>The CPU has left the lock and runs its idle thread.\<close>

definition switched :: "cptr \<Rightarrow> tptr \<Rightarrow> 'h kernel \<Rightarrow> 'h kernel" where
  "switched c i k =
     k_cpu_unlock c (k_cpu_set_thread c (Some i) (upd_cpu c (cpu_regs_update (\<lambda>_. ti_regs (k_ti k ! i))) k))"

subsection \<open>The end of a thread\<close>

lemma quiet_cpu:
  "quiet k k' \<Longrightarrow> cpu_dev k' c = (cpu_dev k c)\<lparr>cpu_running := cpu_running (cpu_dev k' c)\<rparr>"
  unfolding quiet_def by blast

lemma quiet_simps:
  assumes "quiet k k'"
  shows "cpus k' = cpus k" "k_ti k' = k_ti k" "k_pi k' = k_pi k" "uniq_tid k' = uniq_tid k" "lock_smp k' = lock_smp k"
    "user_int k' = user_int k" "comm_area k' = comm_area k" "comm_buf k' = comm_buf k"
    "id_phys (cpu_dev k' c) = id_phys (cpu_dev k c)" "ti_task (cpu_dev k' c) = ti_task (cpu_dev k c)"
    "ti_idle (cpu_dev k' c) = ti_idle (cpu_dev k c)" "cpu_ti (cpu_dev k' c) = cpu_ti (cpu_dev k c)"
    "cpu_regs (cpu_dev k' c) = cpu_regs (cpu_dev k c)" "cpu_lock (cpu_dev k' c) = cpu_lock (cpu_dev k c)"
    "futex (cpu_dev k' c) = futex (cpu_dev k c)"
proof -
  have k: "k' = k\<lparr>cpu_dev := cpu_dev k', hw := hw k'\<rparr>" using assms by (simp add: quiet_def)
  show "cpus k' = cpus k" "k_ti k' = k_ti k" "k_pi k' = k_pi k" "uniq_tid k' = uniq_tid k" "lock_smp k' = lock_smp k"
    "user_int k' = user_int k" "comm_area k' = comm_area k" "comm_buf k' = comm_buf k"
    by (subst k, simp)+
  show "id_phys (cpu_dev k' c) = id_phys (cpu_dev k c)" "ti_task (cpu_dev k' c) = ti_task (cpu_dev k c)"
    "ti_idle (cpu_dev k' c) = ti_idle (cpu_dev k c)" "cpu_ti (cpu_dev k' c) = cpu_ti (cpu_dev k c)"
    "cpu_regs (cpu_dev k' c) = cpu_regs (cpu_dev k c)" "cpu_lock (cpu_dev k' c) = cpu_lock (cpu_dev k c)"
    "futex (cpu_dev k' c) = futex (cpu_dev k c)"
    by (subst quiet_cpu [OF assms, of c], simp)+
qed

lemma quiet_refl: "quiet k k"
  by (simp add: quiet_def)

lemma quiet_hw: "quiet k (k\<lparr>hw := h\<rparr>)"
  by (simp add: quiet_def)

lemma quiet_trans:
  assumes "quiet k k1" "quiet k1 k2"
  shows "quiet k k2"
proof -
  obtain a b where 1: "k1 = k\<lparr>cpu_dev := a, hw := b\<rparr>" using assms(1) unfolding quiet_def by blast
  obtain a b where 2: "k2 = k1\<lparr>cpu_dev := a, hw := b\<rparr>" using assms(2) unfolding quiet_def by blast
  have "cpu_dev k2 c = (cpu_dev k c)\<lparr>cpu_running := cpu_running (cpu_dev k2 c)\<rparr>" for c
  proof -
    obtain r where "cpu_dev k1 c = (cpu_dev k c)\<lparr>cpu_running := r\<rparr>" using quiet_cpu [OF assms(1)] by blast
    with quiet_cpu [OF assms(2), of c] show ?thesis by simp
  qed
  then show ?thesis using 1 2 by (simp add: quiet_def)
qed

lemma quiet_set_running: "quiet k (k_cpu_set_running c r k)"
  by (simp add: quiet_def k_cpu_set_running_def) (simp add: upd_cpu_def)

lemma quiet_raise_ipi: "quiet k (snd (k_cpu_raise_ipi ops hart c k))"
  by (simp add: k_cpu_raise_ipi_def quiet_refl quiet_hw split: option.split prod.split)

lemma quiet_sleep: "quiet k (snd (k_cpu_sleep ops c k))"
  by (auto simp: k_cpu_sleep_def Let_def quiet_set_running quiet_hw intro: quiet_trans [OF quiet_hw quiet_set_running]
      split: option.split prod.split)

lemma quiet_for_cpus:
  assumes "\<And>c k. quiet k (snd (f c k))"
  shows "quiet k (snd (for_cpus f ops hart ids res k))"
proof (induction ids arbitrary: res k)
  case (Cons i ids)
  show ?case
  proof (cases "k_cpu_get k i")
    case (Some c)
    obtain r1 k1 where f: "f c k = (r1, k1)" by fastforce
    obtain r2 k2 where i: "k_cpu_raise_ipi ops hart c k1 = (r2, k2)" by fastforce
    have "quiet k k2" using assms [of k c] quiet_raise_ipi [of k1 ops hart c] f i by (metis quiet_trans snd_conv)
    then show ?thesis using Some f i Cons.IH [where k = k2] by (auto intro: quiet_trans)
  qed (simp add: Cons.IH)
qed (simp add: quiet_refl)

lemma quiet_sleep_all: "quiet k (snd (k_cpu_sleep_all cfg ops hart k))"
proof -
  obtain r k1 where l: "for_cpus (k_cpu_sleep ops) ops hart [1..int (NUM_CORES cfg) - 1] 0 k = (r, k1)" by fastforce
  then have "quiet k k1" using quiet_for_cpus [of "k_cpu_sleep ops", OF quiet_sleep] by (metis snd_conv)
  then show ?thesis
    by (auto simp: k_cpu_sleep_all_def l intro: quiet_trans quiet_set_running split: option.split)
qed

lemma quiet_unmap_argv: "\<exists>h. unmap_argv ops hart n buf k = k\<lparr>hw := h\<rparr>"
proof (induction n arbitrary: buf k)
  case 0
  show ?case by (simp add: kernel_hw_same)
next
  case (Suc n)
  obtain r h where "k_cpu_cache_flush_range ops (k_cpu_get_current k hart) (buf + 16) (arg_size (comm_buf k) buf) k = (r, k\<lparr>hw := h\<rparr>)"
    using cache_flush_range_frame [of ops "k_cpu_get_current k hart" "buf + 16" "arg_size (comm_buf k) buf" k] by auto
  then show ?case using Suc [of _ "k\<lparr>hw := h\<rparr>"] by (auto simp: Let_def)
qed

lemma fini_args_frame:
  "\<exists>h. fini_args sy ops hart (st AND 0xff) k = k\<lparr>comm_area := reported st (comm_area k), hw := h\<rparr>"
proof (cases "cm_magic (comm_area k) = COMM_MAGIC")
  case True
  let ?ca = "(comm_area k)\<lparr>cm_done := 1, cm_ret_main := st AND 0xff\<rparr>" and ?c = "k_cpu_get_current k hart"
  obtain h1 where u: "unmap_argv ops hart (unat (cm_num_args (comm_area k))) (sym_comm_area sy + 16) k = k\<lparr>hw := h1\<rparr>"
    using quiet_unmap_argv [of ops hart "unat (cm_num_args (comm_area k))" "sym_comm_area sy + 16" k] by auto
  obtain r2 h2 where f2: "k_cpu_cache_flush_range ops ?c (sym_comm_area sy + 12) 4 (k\<lparr>hw := h1, comm_area := ?ca\<rparr>) =
     (r2, k\<lparr>comm_area := ?ca, hw := h2\<rparr>)"
    using cache_flush_range_frame [of ops ?c "sym_comm_area sy + 12" 4 "k\<lparr>hw := h1, comm_area := ?ca\<rparr>"] by auto
  obtain r3 h3 where f3: "k_cpu_cache_flush_range ops ?c (sym_comm_area sy + 8) 4 (k\<lparr>comm_area := ?ca, hw := h2\<rparr>) =
     (r3, k\<lparr>comm_area := ?ca, hw := h3\<rparr>)"
    using cache_flush_range_frame [of ops ?c "sym_comm_area sy + 8" 4 "k\<lparr>comm_area := ?ca, hw := h2\<rparr>"] by auto
  show ?thesis using True u f2 f3 by (auto simp: fini_args_def reported_def Let_def)
next
  case False
  then show ?thesis by (auto simp: fini_args_def reported_def intro: exI [of _ "hw k"])
qed

lemma k_fini_leader_quiet:
  "quiet (k\<lparr>comm_area := reported status (comm_area k)\<rparr>) (k_fini_leader cfg sy ops hart status k)"
proof -
  obtain h where h: "fini_args sy ops hart (status AND 0xff) k = k\<lparr>comm_area := reported status (comm_area k), hw := h\<rparr>"
    using fini_args_frame [of sy ops hart status k] by auto
  have "quiet (k\<lparr>comm_area := reported status (comm_area k)\<rparr>) (k\<lparr>comm_area := reported status (comm_area k), hw := h\<rparr>)"
    using quiet_hw [of "k\<lparr>comm_area := reported status (comm_area k)\<rparr>" h] by simp
  then show ?thesis using quiet_sleep_all quiet_trans unfolding k_fini_leader_def h by blast
qed

lemma ended_simps:
  assumes "t < length (k_ti k)"
  shows "cpus (ended hart c t k) = cpus k" "k_pi (ended hart c t k) = k_pi k" "uniq_tid (ended hart c t k) = uniq_tid k"
    "lock_smp (ended hart c t k) = lock_smp k" "user_int (ended hart c t k) = user_int k"
    "comm_area (ended hart c t k) = comm_area k" "length (k_ti (ended hart c t k)) = length (k_ti k)"
    "k_ti (ended hart c t k) ! t = (k_ti k ! t)\<lparr>ti_cpu := None, running := False, avail := False\<rparr>"
    "u \<noteq> t \<Longrightarrow> k_ti (ended hart c t k) ! u = k_ti k ! u"
    "cpu_dev (ended hart c t k) d = (if d = c then (cpu_dev k c)\<lparr>cpu_lock := \<lparr>lock_val = 1, lock_id = hart\<rparr>, ti_task := None\<rparr>
       else cpu_dev k d)"
  using assms by (simp_all add: ended_def k_cpu_set_thread_task_def)

lemma switched_simps:
  "cpus (switched c i k) = cpus k" "k_pi (switched c i k) = k_pi k" "uniq_tid (switched c i k) = uniq_tid k"
  "lock_smp (switched c i k) = lock_smp k" "user_int (switched c i k) = user_int k"
  "comm_area (switched c i k) = comm_area k" "k_ti (switched c i k) = k_ti k"
  "cpu_dev (switched c i k) d = (if d = c then (cpu_dev k c)\<lparr>cpu_lock := k_spinlock_unlock (cpu_lock (cpu_dev k c)),
     cpu_ti := Some i, cpu_regs := ti_regs (k_ti k ! i)\<rparr> else cpu_dev k d)"
  by (simp_all add: switched_def kernel_ops)

lemma k_sys_exit_run:
  assumes cur: "k_cpu_get_current k hart = Some c" and av: "pi_avail (k_pi k)" and lk: "unlocked (cpu_lock (cpu_dev k c))"
    and task: "ti_task (cpu_dev k c) = Some t" "cpu_ti (cpu_dev k c) = Some t" "ti_idle (cpu_dev k c) = Some i" "t \<noteq> i"
    and ti: "t < length (k_ti k)" "ti_cpu (k_ti k ! t) = Some c" "running (k_ti k ! t)"
    and k3: "k3 = (if leader (k_pi k) = Some t then k_fini_leader cfg sy ops hart status (ended hart c t k) else ended hart c t k)"
    and q: "quiet ((ended hart c t k)\<lparr>comm_area := ca\<rparr>) k3"
    and f: "f \<longleftrightarrow> ti_flags (k_ti k ! t) AND CLONE_CHILD_CLEARTID \<noteq> 0"
    and k6: "k6 = switched c i (if f then k3\<lparr>user_int := (user_int k)(ctid (k_ti k ! t) := 0)\<rparr> else k3)"
  shows "k_sys_exit cfg sy ops hart status k =
    (if f then do { (_, k') \<leftarrow> k_cpu_futex_wake cfg ops hart (ctid (k_ti k ! t)) 1 FUTEX_BITSET_ANY k6;
                    Some (sint (rv_a0 (ti_regs (k_ti k ! i))), k') }
     else Some (sint (rv_a0 (ti_regs (k_ti k ! i))), k6))"
proof -
  let ?e = "ended hart c t k" and ?k4 = "if f then k3\<lparr>user_int := (user_int k)(ctid (k_ti k ! t) := 0)\<rparr> else k3"
  note qs = quiet_simps [OF q]
  have stop: "k_thread_stop t (upd_cpu c (cpu_lock_update (\<lambda>_. \<lparr>lock_val = 1, lock_id = hart\<rparr>)) k) =
     Some (0, upd_ti t (\<lambda>ti. ti\<lparr>ti_cpu := None, running := False\<rparr>)
       (k_cpu_set_thread_task c None (upd_cpu c (cpu_lock_update (\<lambda>_. \<lparr>lock_val = 1, lock_id = hart\<rparr>)) k)))"
    using ti by (simp add: k_thread_stop_def)
  have destroy: "k_thread_destroy t (upd_ti t (\<lambda>ti. ti\<lparr>ti_cpu := None, running := False\<rparr>)
       (k_cpu_set_thread_task c None (upd_cpu c (cpu_lock_update (\<lambda>_. \<lparr>lock_val = 1, lock_id = hart\<rparr>)) k))) = (0, ?e)"
    using ti by (simp add: k_thread_destroy_def ended_def k_cpu_set_thread_task_def)
  have tis: "k_ti ?k4 = k_ti ?e" "k_ti ?e ! i = k_ti k ! i"
    using qs ended_simps(9) [OF ti(1), of i] task(4) by auto
  have cur4: "k_cpu_get_current ?k4 hart = Some c"
    using cur by (subst k_cpu_get_current_cong [of _ k]) (auto simp: qs ended_simps [OF ti(1)])
  have "cpu_ti (cpu_dev ?k4 c) = Some t" "ti_idle (cpu_dev ?k4 c) = Some i" "ti_task (cpu_dev ?k4 c) = None"
    using task by (auto simp: qs ended_simps [OF ti(1)])
  from context_switch_to_idle [OF cur4 this(1,2) task(4) this(3)]
  have sw: "k_thread_context_switch_nolock hart ?k4 =
    Some (0, k_cpu_set_thread c (Some i) (upd_cpu c (cpu_regs_update (\<lambda>_. ti_regs (k_ti ?k4 ! i))) ?k4))" .
  have f': "f \<longleftrightarrow> ti_flags (k_ti k3 ! t) AND CLONE_CHILD_CLEARTID \<noteq> 0" "ctid (k_ti k3 ! t) = ctid (k_ti k ! t)"
    "user_int k3 = user_int k"
    using f by (simp_all add: qs ended_simps [OF ti(1)])
  have v: "retval c (k_cpu_set_thread c (Some i) (upd_cpu c (cpu_regs_update (\<lambda>_. ti_regs (k_ti ?k4 ! i))) ?k4)) =
     sint (rv_a0 (ti_regs (k_ti k ! i)))"
    using tis by (simp add: retval_def k_cpu_set_thread_def)
  have pl: "k_proc_get_leader ?e = leader (k_pi k)" by (simp add: k_proc_get_leader_def ended_simps [OF ti(1)])
  have lock: "k_cpu_lock hart c k = Some (upd_cpu c (cpu_lock_update (\<lambda>_. \<lparr>lock_val = 1, lock_id = hart\<rparr>)) k)"
    using lk by (simp add: k_cpu_lock_def)
  have task0: "k_cpu_get_thread_task (upd_cpu c (cpu_lock_update (\<lambda>_. \<lparr>lock_val = 1, lock_id = hart\<rparr>)) k) c = Some t"
    using task by (simp add: k_cpu_get_thread_task_def)
  have ks: "k_ti (k_cpu_unlock c k') = k_ti k'" "k_ti (k_cpu_set_thread c x k') = k_ti k'" for k' :: "'a kernel" and x
    by (simp_all add: kernel_ops)
  show ?thesis
    using cur av lock task0 stop destroy sw v f' pl unfolding k_sys_exit_def k6
    by (cases f) (simp_all add: k_proc_get_current_def k3 [symmetric] k_fini_child_def switched_def Let_def ks cong: if_cong)
qed

lemma finishes_switched:
  assumes inv: "thread_inv k" and c: "Some c \<in> set (cpus k)" and task: "ti_task (cpu_dev k c) = Some t"
    and q: "quiet ((ended hart c t k)\<lparr>comm_area := ca\<rparr>) k3"
    and k6: "k6 = switched c i (if f then k3\<lparr>user_int := u\<rparr> else k3)"
  shows "finishes k c t k6"
proof -
  have t: "t < length (k_ti k)" using task_invD [OF inv c task] by simp
  show ?thesis
    using c task unfolding finishes_def k6
    by (auto simp: switched_simps quiet_simps [OF q] ended_simps [OF t] same_thread_def)
qed

lemma locks_free_switched:
  assumes lf: "locks_free k" and t: "t < length (k_ti k)" and q: "quiet ((ended hart c t k)\<lparr>comm_area := ca\<rparr>) k3"
    and k6: "k6 = switched c i (if f then k3\<lparr>user_int := u\<rparr> else k3)"
  shows "locks_free k6"
  using lf unfolding locks_free_def k6
  by (auto simp: switched_simps quiet_simps [OF q] ended_simps [OF t]) (simp add: unlocked_def)

lemma finishes_marks: "finishes k c t k6 \<Longrightarrow> marks k6 ws k7 \<Longrightarrow> finishes k c t k7"
  unfolding finishes_def by (simp add: marks_simps)

lemma locks_free_marks: "locks_free k6 \<Longrightarrow> marks k6 ws k7 \<Longrightarrow> locks_free k7"
  unfolding locks_free_def by (simp add: marks_simps)

text \<open>
  C18. The end of a thread.  With the thread invariant, the locks free, CPUs that are all different
  and a working inter-processor interrupt, \<open>k_sys_exit\<close> on a CPU that runs its task \<open>t\<close> releases
  the thread and switches the CPU to its idle thread, with the registers saved for it and the
  result they hold.  The thread invariant and the freedom of the locks are kept.  The leader's
  exit reports the low byte of the status to the host, another thread's exit reports nothing.  A
  thread that asked for it has its id in user space cleared and a CPU that waits for that woken.
\<close>

theorem k_sys_exit_ends:
  assumes inv: "thread_inv k" and lf: "locks_free k" and av: "pi_avail (k_pi k)" and ipi: "ipi_works ops"
    and len: "length (cpus k) = NUM_CORES cfg" and dist: "distinct (present k)"
    and cur: "k_cpu_get_current k hart = Some c" and c: "Some c \<in> set (cpus k)"
    and task: "ti_task (cpu_dev k c) = Some t" "cpu_ti (cpu_dev k c) = Some t" "ti_idle (cpu_dev k c) = Some i"
  shows "\<exists>k'. k_sys_exit cfg sy ops hart status k = Some (sint (rv_a0 (ti_regs (k_ti k ! i))), k') \<and>
    finishes k c t k' \<and> thread_inv k' \<and> locks_free k' \<and>
    cpu_ti (cpu_dev k' c) = Some i \<and> cpu_regs (cpu_dev k' c) = ti_regs (k_ti k ! i) \<and>
    comm_area k' = (if leader (k_pi k) = Some t then reported status (comm_area k) else comm_area k) \<and>
    (ti_flags (k_ti k ! t) AND CLONE_CHILD_CLEARTID \<noteq> 0 \<longrightarrow> user_int k' (ctid (k_ti k ! t)) = 0 \<and>
      (\<forall>w \<in> set (take 1 (fx_waiters k (Some c) (ctid (k_ti k ! t)) FUTEX_BITSET_ANY (present k))).
         fx_wakeup (futex (cpu_dev k' w))))"
proof -
  note ti = task_invD [OF inv c task(1)]
  have "t \<noteq> i" using ti idle_invD [OF inv c task(3)] by auto
  let ?e = "ended hart c t k" and ?ct = "ctid (k_ti k ! t)"
  define ca where "ca = (if leader (k_pi k) = Some t then reported status (comm_area k) else comm_area k)"
  define k3 where "k3 = (if leader (k_pi k) = Some t then k_fini_leader cfg sy ops hart status ?e else ?e)"
  define f where "f \<longleftrightarrow> ti_flags (k_ti k ! t) AND CLONE_CHILD_CLEARTID \<noteq> 0"
  define k6 where "k6 = switched c i (if f then k3\<lparr>user_int := (user_int k)(?ct := 0)\<rparr> else k3)"
  have t: "t < length (k_ti k)" using ti by simp
  have same: "?e\<lparr>comm_area := comm_area k\<rparr> = ?e" by (rule kernel.equality) (simp_all add: ended_simps [OF t])
  have q: "quiet (?e\<lparr>comm_area := ca\<rparr>) k3"
  proof (cases "leader (k_pi k) = Some t")
    case True
    then show ?thesis using k_fini_leader_quiet [of status ?e cfg sy ops hart] by (simp add: k3_def ca_def ended_simps [OF t])
  next
    case False
    then show ?thesis unfolding k3_def ca_def by (simp only: if_False same quiet_refl)
  qed
  have lk: "unlocked (cpu_lock (cpu_dev k c))" using lf c by (simp add: locks_free_def)
  note run = k_sys_exit_run [OF cur av lk task \<open>t \<noteq> i\<close> t _ _ k3_def q f_def k6_def]
  have fin: "finishes k c t k6" and lf6: "locks_free k6"
    using finishes_switched [OF inv c task(1) q k6_def] locks_free_switched [OF lf t q k6_def] .
  have k6s: "cpus k6 = cpus k" "cpu_ti (cpu_dev k6 c) = Some i" "comm_area k6 = ca"
    "cpu_regs (cpu_dev k6 c) = ti_regs (k_ti k ! i)" "f \<Longrightarrow> user_int k6 ?ct = 0"
    "\<And>d. futex (cpu_dev k6 d) = futex (cpu_dev k d)" "\<And>d. id_phys (cpu_dev k6 d) = id_phys (cpu_dev k d)"
    using \<open>t \<noteq> i\<close> by (auto simp: k6_def switched_simps quiet_simps [OF q] ended_simps [OF t])
  show ?thesis
  proof (cases f)
    case True
    let ?ws = "take 1 (fx_waiters k (Some c) ?ct FUTEX_BITSET_ANY (present k))"
    have "k_cpu_get_current k6 hart = Some c" using cur k_cpu_get_current_cong [of k6 k] k6s by simp
    moreover have "present k6 = present k" "fx_waiters k6 = fx_waiters k"
      using k6s by (auto simp: present_def fx_waiters_def fx_match_def fun_eq_iff)
    ultimately obtain k7 where k7: "k_cpu_futex_wake cfg ops hart ?ct 1 FUTEX_BITSET_ANY k6 = Some (int (length ?ws), k7)"
      "marks k6 ?ws k7"
      using futex_wake_spec [of FUTEX_BITSET_ANY ops k6 hart c cfg ?ws 1 ?ct] ipi len dist lf6 k6s(1) by auto
    have "finishes k c t k7" "locks_free k7" using finishes_marks [OF fin k7(2)] locks_free_marks [OF lf6 k7(2)] .
    moreover have "thread_inv k7" using thread_inv_finishes [OF inv] calculation by blast
    ultimately show ?thesis
      using run ti True k7(1) k6s marks_simps [OF k7(2)] by (intro exI [of _ k7]) (auto simp: f_def ca_def)
  next
    case False
    then show ?thesis
      using run ti fin lf6 thread_inv_finishes [OF inv fin] k6s by (intro exI [of _ k6]) (auto simp: f_def ca_def)
  qed
qed

theorem k_sys_exit_ends_witness:
  "\<exists>k'. k_sys_exit (riscv_qemu_virt_64\<lparr>NUM_CORES := 2\<rparr>) example_layout example_ops 0 7 example_kernel = Some (0, k') \<and>
     thread_inv k' \<and> locks_free k' \<and> cpu_ti (cpu_dev k' 0) = Some 1"
proof -
  let ?cfg = "riscv_qemu_virt_64\<lparr>NUM_CORES := 2\<rparr>"
  have "ipi_works example_ops" by (simp add: ipi_works_def example_ops_def)
  moreover have "length (cpus example_kernel) = NUM_CORES ?cfg" by (simp add: example_kernel_def)
  moreover have "distinct (present example_kernel)" by (simp add: present_def map_filter_simps example_kernel_def)
  moreover have "Some 0 \<in> set (cpus example_kernel)" "ti_task (cpu_dev example_kernel 0) = Some 0"
    "cpu_ti (cpu_dev example_kernel 0) = Some 0" "ti_idle (cpu_dev example_kernel 0) = Some 1"
    "k_cpu_get_current example_kernel 0 = Some 0" "pi_avail (k_pi example_kernel)" "locks_free example_kernel"
    by (auto simp: example_kernel_def example_cpu_def k_cpu_get_current_def k_cpu_get_by_physical_id_def phys_entry_def
        locks_free_def)
  ultimately obtain k' where
    "k_sys_exit ?cfg example_layout example_ops 0 7 example_kernel = Some (sint (rv_a0 (ti_regs (k_ti example_kernel ! 1))), k')"
    "thread_inv k'" "locks_free k'" "cpu_ti (cpu_dev k' 0) = Some 1"
    using k_sys_exit_ends [OF example_kernel_inv, of example_ops ?cfg 0 0 0 1 example_layout 7] by blast
  moreover have "sint (rv_a0 (ti_regs (k_ti example_kernel ! 1))) = 0"
    by (simp add: example_kernel_def example_thread_def regs0_def k_arch_user_regs.make_def)
  ultimately show ?thesis by auto
qed

end
