(* ===== verification/Clock.thy ===== *)
theory Clock
  imports Event "HOL-Library.Signed_Division"
begin

section \<open>Clocks\<close>

text \<open>
  \<^verbatim>\<open>sys/clock.c\<close>, the macros of \<^verbatim>\<open>include/bmetal/sys/time.h\<close>, the clock system calls and the
  timer driver \<^verbatim>\<open>driver/timer/sifive/clint_timer.c\<close>.  The fields of \<open>timespec64\<close> are 64-bit words
  read as signed numbers.  The operations of the timer driver act on the state \<open>'h\<close> of the hardware
  and are the parameter \<open>tm\<close>, \<open>None\<close> when there is no default timer; \<open>id\<close> is the hart.  The static
  offset of the real time is passed and returned.  Division by zero and the use of a time that was
  not written have no defined result, \<open>None\<close>.
\<close>

record timespec64 =
  tv_sec :: u64
  tv_nsec :: u64

record timespec32 =
  tv_sec32 :: u32
  tv_nsec32 :: u32

record timeval =
  tval_sec :: u64
  tval_usec :: u64

record 'h k_timer_driver_ops =
  tm_get_freq :: "(int \<Rightarrow> 'h \<Rightarrow> int \<times> u64) option"
  tm_get_raw :: "(int \<Rightarrow> 'h \<Rightarrow> int \<times> u64) option"
  tm_get_trigger :: "(int \<Rightarrow> 'h \<Rightarrow> (int \<times> timespec64 option) option) option"
  tm_set_trigger :: "(int \<Rightarrow> timespec64 \<Rightarrow> 'h \<Rightarrow> int \<times> 'h) option"

abbreviation (input) NSEC :: u64 where "NSEC \<equiv> 1000000000"
abbreviation (input) CLOCK_REALTIME :: int where "CLOCK_REALTIME \<equiv> 0"
abbreviation (input) CLOCK_MONOTONIC :: int where "CLOCK_MONOTONIC \<equiv> 1"

definition timespecadd :: "timespec64 \<Rightarrow> timespec64 \<Rightarrow> timespec64" where
  "timespecadd a b =
     (let s = tv_sec a + tv_sec b; n = tv_nsec a + tv_nsec b
      in if 1000000000 \<le> sint n then \<lparr>tv_sec = s + 1, tv_nsec = n - NSEC\<rparr> else \<lparr>tv_sec = s, tv_nsec = n\<rparr>)"

definition timespecsub :: "timespec64 \<Rightarrow> timespec64 \<Rightarrow> timespec64" where
  "timespecsub a b =
     (let s = tv_sec a - tv_sec b; n = tv_nsec a - tv_nsec b
      in if sint n < 0 then \<lparr>tv_sec = s - 1, tv_nsec = n + NSEC\<rparr> else \<lparr>tv_sec = s, tv_nsec = n\<rparr>)"

definition k_clock_raw_to_timespec :: "u64 \<Rightarrow> u64 \<Rightarrow> timespec64 option" where
  "k_clock_raw_to_timespec count freq =
     (if freq = 0 then None
      else let s = count div freq; rem = count - s * freq
           in Some \<lparr>tv_sec = s, tv_nsec = rem * NSEC div freq\<rparr>)"

definition k_clock_timespec_to_raw :: "timespec64 \<Rightarrow> u64 \<Rightarrow> u64" where
  "k_clock_timespec_to_raw ts freq = tv_sec ts * freq + tv_nsec ts * freq div NSEC"

text \<open>The second component is the time written, \<open>None\<close> when nothing is written.\<close>

definition k_clock_get_monotonic ::
    "'h k_timer_driver_ops option \<Rightarrow> int \<Rightarrow> 'h \<Rightarrow> (int \<times> timespec64 option) option" where
  "k_clock_get_monotonic tm i h =
     (case tm of
        None \<Rightarrow> Some (- ENOTSUP, None)
      | Some ops \<Rightarrow>
          case (tm_get_freq ops, tm_get_raw ops) of
            (Some get_freq, Some get_raw) \<Rightarrow>
              let (r, cnt) = get_raw i h
              in if r \<noteq> 0 then Some (r, None)
                 else let (r, freq) = get_freq i h
                 in if r \<noteq> 0 then Some (r, None)
                 else do { ts \<leftarrow> k_clock_raw_to_timespec cnt freq; Some (0, Some ts) }
          | _ \<Rightarrow> Some (0, None))"

definition k_clock_get_realtime ::
    "'h k_timer_driver_ops option \<Rightarrow> int \<Rightarrow> timespec64 \<Rightarrow> 'h \<Rightarrow> (int \<times> timespec64 option) option" where
  "k_clock_get_realtime tm i off h = do {
     (r, mono) \<leftarrow> k_clock_get_monotonic tm i h;
     if r \<noteq> 0 then Some (r, None) else do { m \<leftarrow> mono; Some (0, Some (timespecadd off m)) }
   }"

text \<open>The result is the error number and the new offset.\<close>

definition k_clock_set_realtime ::
    "'h k_timer_driver_ops option \<Rightarrow> int \<Rightarrow> timespec64 option \<Rightarrow> timespec64 \<Rightarrow> 'h \<Rightarrow> (int \<times> timespec64) option" where
  "k_clock_set_realtime tm i tsp off h =
     (case tsp of
        None \<Rightarrow> Some (- EFAULT, off)
      | Some ts \<Rightarrow> do {
          (r, mono) \<leftarrow> k_clock_get_monotonic tm i h;
          if r \<noteq> 0 then Some (r, off) else do { m \<leftarrow> mono; Some (0, timespecsub ts m) }
        })"

definition k_clock_on_tick :: "kconfig \<Rightarrow> 'h k_timer_driver_ops option \<Rightarrow> int \<Rightarrow> 'h \<Rightarrow> (int \<times> 'h) option" where
  "k_clock_on_tick cfg tm i h =
     (case tm of
        None \<Rightarrow> Some (- ENOTSUP, h)
      | Some ops \<Rightarrow>
          case tm_set_trigger ops of
            None \<Rightarrow> Some (0, h)
          | Some set_trigger \<Rightarrow> do {
              (r, cur) \<leftarrow> k_clock_get_monotonic tm i h;
              if r \<noteq> 0 then Some (r, h)
              else do {
                c \<leftarrow> cur;
                Some (set_trigger i
                  (timespecadd c \<lparr>tv_sec = 0, tv_nsec = NSEC div of_nat (SYSTEM_TIMER_HZ cfg)\<rparr>) h)
              }
            })"

subsection \<open>System calls\<close>

text \<open>A pointer argument is \<open>None\<close> for NULL or the object it points to; the object after the call is returned.\<close>

definition k_sys_clock_gettime64 ::
    "'h k_timer_driver_ops option \<Rightarrow> int \<Rightarrow> timespec64 \<Rightarrow> 'h \<Rightarrow> int \<Rightarrow> timespec64 option \<Rightarrow>
     (int \<times> timespec64 option) option" where
  "k_sys_clock_gettime64 tm i off h clock_id tp =
     (case tp of
        None \<Rightarrow> Some (- EFAULT, None)
      | Some old \<Rightarrow>
          if clock_id = CLOCK_REALTIME then do {
            (r, t) \<leftarrow> k_clock_get_realtime tm i off h;
            Some (r, Some (case t of None \<Rightarrow> old | Some ts \<Rightarrow> ts))
          }
          else if clock_id = CLOCK_MONOTONIC then do {
            (r, t) \<leftarrow> k_clock_get_monotonic tm i h;
            Some (r, Some (case t of None \<Rightarrow> old | Some ts \<Rightarrow> ts))
          }
          else Some (- EINVAL, Some old))"

definition k_sys_clock_settime64 ::
    "'h k_timer_driver_ops option \<Rightarrow> int \<Rightarrow> timespec64 \<Rightarrow> 'h \<Rightarrow> int \<Rightarrow> timespec64 option \<Rightarrow>
     (int \<times> timespec64) option" where
  "k_sys_clock_settime64 tm i off h clock_id tp =
     (if tp = None then Some (- EFAULT, off)
      else if clock_id = CLOCK_REALTIME then k_clock_set_realtime tm i tp off h
      else Some (- EINVAL, off))"

definition ts_of_32 :: "timespec32 \<Rightarrow> timespec64" where
  "ts_of_32 t = \<lparr>tv_sec = scast (tv_sec32 t), tv_nsec = scast (tv_nsec32 t)\<rparr>"

definition ts_to_32 :: "timespec64 \<Rightarrow> timespec32" where
  "ts_to_32 t = \<lparr>tv_sec32 = ucast (tv_sec t), tv_nsec32 = ucast (tv_nsec t)\<rparr>"

definition k_sys_clock_gettime32 ::
    "'h k_timer_driver_ops option \<Rightarrow> int \<Rightarrow> timespec64 \<Rightarrow> 'h \<Rightarrow> int \<Rightarrow> timespec32 option \<Rightarrow>
     (int \<times> timespec32 option) option" where
  "k_sys_clock_gettime32 tm i off h clock_id tp = do {
     (r, t) \<leftarrow> k_sys_clock_gettime64 tm i off h clock_id (map_option ts_of_32 tp);
     Some (r, map_option ts_to_32 t)
   }"

definition k_sys_clock_settime32 ::
    "'h k_timer_driver_ops option \<Rightarrow> int \<Rightarrow> timespec64 \<Rightarrow> 'h \<Rightarrow> int \<Rightarrow> timespec32 option \<Rightarrow>
     (int \<times> timespec64) option" where
  "k_sys_clock_settime32 tm i off h clock_id tp =
     k_sys_clock_settime64 tm i off h clock_id (map_option ts_of_32 tp)"

definition k_sys_gettimeofday ::
    "'h k_timer_driver_ops option \<Rightarrow> int \<Rightarrow> timespec64 \<Rightarrow> 'h \<Rightarrow> timeval option \<Rightarrow> (int \<times> timeval option) option" where
  "k_sys_gettimeofday tm i off h tp =
     (case tp of
        None \<Rightarrow> Some (- EFAULT, None)
      | Some old \<Rightarrow> do {
          (r, t) \<leftarrow> k_clock_get_realtime tm i off h;
          if r \<noteq> 0 then Some (r, Some old)
          else do {
            ts \<leftarrow> t;
            Some (0, Some \<lparr>tval_sec = tv_sec ts, tval_usec = of_int (sint (tv_nsec ts) sdiv 1000)\<rparr>)
          }
        })"

definition k_sys_settimeofday ::
    "'h k_timer_driver_ops option \<Rightarrow> int \<Rightarrow> timespec64 \<Rightarrow> 'h \<Rightarrow> timeval option \<Rightarrow> (int \<times> timespec64) option" where
  "k_sys_settimeofday tm i off h tp =
     (case tp of
        None \<Rightarrow> Some (- EFAULT, off)
      | Some t \<Rightarrow>
          k_clock_set_realtime tm i (Some \<lparr>tv_sec = tval_sec t, tv_nsec = tval_usec t * 1000\<rparr>) off h)"

subsection \<open>CLINT timer\<close>

text \<open>
  The registers are words by their offset; the timer register is read as the value it has during
  the call.  \<open>freq_in\<close> is the input frequency stored in the private data.
\<close>

record clint_timer =
  ct_regs :: "u64 \<Rightarrow> u64"
  freq_in :: u64

abbreviation (input) REG_MTIME :: u64 where "REG_MTIME \<equiv> 0x7ff8"

definition REG_MTIMECMP :: "int \<Rightarrow> u64" where
  "REG_MTIMECMP i = of_int i * 8"

definition timer_clint_get_freq :: "int \<Rightarrow> clint_timer \<Rightarrow> int \<times> u64" where
  "timer_clint_get_freq i h = (if freq_in h = 0 then (- EINVAL, 0) else (0, freq_in h))"

definition timer_clint_get_raw :: "int \<Rightarrow> clint_timer \<Rightarrow> int \<times> u64" where
  "timer_clint_get_raw i h = (0, ct_regs h REG_MTIME)"

definition timer_clint_get_timecmp :: "int \<Rightarrow> clint_timer \<Rightarrow> int \<times> u64" where
  "timer_clint_get_timecmp i h = (0, ct_regs h (REG_MTIMECMP i))"

definition timer_clint_set_timecmp :: "int \<Rightarrow> u64 \<Rightarrow> clint_timer \<Rightarrow> int \<times> clint_timer" where
  "timer_clint_set_timecmp i count h = (0, h\<lparr>ct_regs := (ct_regs h)(REG_MTIMECMP i := count)\<rparr>)"

definition timer_clint_get_trigger :: "int \<Rightarrow> clint_timer \<Rightarrow> (int \<times> timespec64 option) option" where
  "timer_clint_get_trigger i h =
     (let (r, freq) = timer_clint_get_freq i h
      in if r \<noteq> 0 then Some (r, None)
         else let (r, cnt) = timer_clint_get_timecmp i h
         in if r \<noteq> 0 then Some (r, None)
         else do { ts \<leftarrow> k_clock_raw_to_timespec cnt freq; Some (0, Some ts) })"

definition timer_clint_set_trigger :: "int \<Rightarrow> timespec64 \<Rightarrow> clint_timer \<Rightarrow> int \<times> clint_timer" where
  "timer_clint_set_trigger i ts h =
     (let (r, freq) = timer_clint_get_freq i h
      in if r \<noteq> 0 then (r, h) else timer_clint_set_timecmp i (k_clock_timespec_to_raw ts freq) h)"

definition timer_clint_timer_ops :: "clint_timer k_timer_driver_ops" where
  "timer_clint_timer_ops =
     \<lparr>tm_get_freq = Some timer_clint_get_freq, tm_get_raw = Some timer_clint_get_raw,
      tm_get_trigger = Some timer_clint_get_trigger, tm_set_trigger = Some timer_clint_set_trigger\<rparr>"

definition timer_clint_intr ::
    "kconfig \<Rightarrow> 'h k_timer_driver_ops option \<Rightarrow> int \<Rightarrow> 'h \<Rightarrow> (int \<times> 'h) option" where
  "timer_clint_intr cfg tm i h = do {
     (r, h) \<leftarrow> k_clock_on_tick cfg tm i h;
     Some (if r \<noteq> 0 then EVENT_NOT_HANDLED else EVENT_HANDLED, h)
   }"

subsection \<open>Reference definitions\<close>

text \<open>Reference: a time as a number of nanoseconds.\<close>

definition nanos :: "timespec64 \<Rightarrow> int" where
  "nanos ts = sint (tv_sec ts) * 1000000000 + sint (tv_nsec ts)"

text \<open>The nanoseconds are less than a second, and the seconds small enough for sums.\<close>

definition proper :: "timespec64 \<Rightarrow> bool" where
  "proper ts \<longleftrightarrow> 0 \<le> sint (tv_nsec ts) \<and> sint (tv_nsec ts) < 1000000000 \<and> \<bar>sint (tv_sec ts)\<bar> < 2 ^ 60"

text \<open>The seconds and the nanoseconds are small enough for sums; the nanoseconds may be a second or more.\<close>

definition small :: "timespec64 \<Rightarrow> bool" where
  "small ts \<longleftrightarrow> \<bar>sint (tv_sec ts)\<bar> < 2 ^ 60 \<and> \<bar>sint (tv_nsec ts)\<bar> < 2 ^ 60"

definition example_timer :: "u64 \<Rightarrow> clint_timer" where
  "example_timer t = \<lparr>ct_regs = (\<lambda>_. 0)(REG_MTIME := t), freq_in = 10000000\<rparr>"

subsection \<open>Conversions, real time and tick\<close>

lemma unat_u64_lt: "unat (x :: u64) < 2 ^ 64"
  using unsigned_less [of x, where 'a = nat] by simp

text \<open>The largest frequency for which the nanoseconds are computed without wrap-around.\<close>

lemma raw_to_timespec_exact:
  assumes "freq \<noteq> 0" "unat freq * 1000000000 \<le> 2 ^ 64"
  shows "\<exists>ts. k_clock_raw_to_timespec count freq = Some ts \<and> unat (tv_sec ts) = unat count div unat freq \<and>
    unat (tv_nsec ts) = unat count mod unat freq * 1000000000 div unat freq \<and> unat (tv_nsec ts) < 1000000000"
proof -
  let ?rem = "unat count mod unat freq"
  have f: "0 < unat freq" using assms(1) by (simp add: unat_gt_0)
  have rem: "count - count div freq * freq = count mod freq" by (simp add: minus_div_mult_eq_mod)
  have lt: "?rem * 1000000000 < unat freq * 1000000000" using f by simp
  then have "?rem * 1000000000 < 2 ^ 64" using assms(2) by linarith
  then have "unat ((count mod freq) * NSEC) = ?rem * 1000000000"
    by (subst unat_mult_lem [THEN iffD1]) (simp_all add: unat_mod)
  moreover have "?rem * 1000000000 div unat freq < 1000000000"
    using lt by (simp add: less_mult_imp_div_less mult.commute)
  moreover have "k_clock_raw_to_timespec count freq =
      Some \<lparr>tv_sec = count div freq, tv_nsec = (count mod freq) * NSEC div freq\<rparr>"
    using assms(1) unfolding k_clock_raw_to_timespec_def Let_def rem by simp
  ultimately show ?thesis by (simp add: unat_div)
qed

lemma timespec_to_raw_exact:
  assumes "unat (tv_nsec ts) < 2000000000" "unat freq \<le> 1000000000"
    and "unat (tv_sec ts) * unat freq + 2 * unat freq < 2 ^ 64"
  shows "unat (k_clock_timespec_to_raw ts freq) = unat (tv_sec ts) * unat freq + unat (tv_nsec ts) * unat freq div 1000000000"
proof -
  have "unat (tv_nsec ts) * unat freq \<le> 2000000000 * unat freq" using assms(1) by simp
  also have "\<dots> < 2 ^ 64" using assms(2) by simp
  finally have m: "unat (tv_nsec ts * freq) = unat (tv_nsec ts) * unat freq"
    by (simp add: unat_mult_lem [THEN iffD1])
  then have d: "unat (tv_nsec ts * freq div NSEC) = unat (tv_nsec ts) * unat freq div 1000000000"
    by (simp add: unat_div)
  have le: "unat (tv_nsec ts) * unat freq div 1000000000 \<le> 2 * unat freq"
  proof -
    have "unat (tv_nsec ts) * unat freq div 1000000000 \<le> (2 * unat freq) * 1000000000 div 1000000000"
      using assms(1) by (intro div_le_mono) simp
    then show ?thesis by (simp only: nonzero_mult_div_cancel_right)
  qed
  have s: "unat (tv_sec ts * freq) = unat (tv_sec ts) * unat freq"
    using assms(3) by (simp add: unat_mult_lem [THEN iffD1])
  show ?thesis
    unfolding k_clock_timespec_to_raw_def using assms(3) le by (subst unat_add_lem [THEN iffD1]) (simp_all add: s d)
qed

text \<open>Reference: the time of a count in nanoseconds, and the exact conversion back.\<close>

lemma nanos_back:
  fixes c f :: nat
  assumes "0 < f" "f \<le> 1000000000"
  shows "c \<le> c div f * f + (c mod f * 1000000000 div f * f) div 1000000000 + 1"
    and "c div f * f + (c mod f * 1000000000 div f * f) div 1000000000 \<le> c"
proof -
  let ?G = "1000000000 :: nat" and ?m = "c mod f"
  let ?x = "?m * ?G div f * f"
  have "?x \<le> ?m * ?G" by (simp add: div_times_less_eq_dividend)
  then have "?x div ?G \<le> ?m" using div_le_mono [of ?x "?m * ?G" ?G] by simp
  then show "c div f * f + ?x div ?G \<le> c" using mod_div_mult_eq [of c f] by linarith
  have "?m * ?G < ?x + f" using assms(1) by (metis div_mult_mod_eq mod_less_divisor nat_add_left_cancel_less)
  then have "?m * ?G < ?x + ?G" using assms(2) by linarith
  then have "?m * ?G div ?G \<le> (?x + ?G) div ?G" by (intro div_le_mono) simp
  then have "?m \<le> ?x div ?G + 1" by simp
  then show "c \<le> c div f * f + ?x div ?G + 1" using mod_div_mult_eq [of c f] by linarith
qed

text \<open>
  Counts and times.  For a timer of at most one gigahertz and a count that leaves room for two
  more seconds, converting the count of the timer to a time gives the whole seconds and a number
  of nanoseconds below a second, both exact, and converting the time back gives the count or the
  count before it: no product wraps around and the error is at most one.
\<close>

theorem k_clock_raw_round_trip:
  assumes "freq \<noteq> 0" "unat freq \<le> 1000000000" "unat count + 2 * unat freq < 2 ^ 64"
  shows "\<exists>ts. k_clock_raw_to_timespec count freq = Some ts \<and>
    unat (tv_sec ts) = unat count div unat freq \<and>
    unat (tv_nsec ts) = unat count mod unat freq * 1000000000 div unat freq \<and> unat (tv_nsec ts) < 1000000000 \<and>
    (k_clock_timespec_to_raw ts freq = count \<or> k_clock_timespec_to_raw ts freq = count - 1)"
proof -
  have f: "0 < unat freq" using assms(1) by (simp add: unat_gt_0)
  have "unat freq * 1000000000 \<le> 2 ^ 64" using assms(2) by simp
  from raw_to_timespec_exact [OF assms(1) this, of count] obtain ts where
    ts: "k_clock_raw_to_timespec count freq = Some ts" "unat (tv_sec ts) = unat count div unat freq"
      "unat (tv_nsec ts) = unat count mod unat freq * 1000000000 div unat freq" "unat (tv_nsec ts) < 1000000000" by blast
  have "unat count div unat freq * unat freq \<le> unat count" by (simp add: div_times_less_eq_dividend)
  then have "unat (tv_sec ts) * unat freq + 2 * unat freq < 2 ^ 64" unfolding ts(2) using assms(3) by linarith
  then have "unat (k_clock_timespec_to_raw ts freq) =
     unat (tv_sec ts) * unat freq + unat (tv_nsec ts) * unat freq div 1000000000"
    using ts assms(2) by (intro timespec_to_raw_exact) simp_all
  with nanos_back [OF f assms(2), of "unat count"] ts(2,3)
  have "unat (k_clock_timespec_to_raw ts freq) = unat count \<or> unat (k_clock_timespec_to_raw ts freq) + 1 = unat count"
    by simp linarith
  then have "k_clock_timespec_to_raw ts freq = count \<or> k_clock_timespec_to_raw ts freq = count - 1"
  proof
    assume "unat (k_clock_timespec_to_raw ts freq) + 1 = unat count"
    then have "of_nat (unat (k_clock_timespec_to_raw ts freq) + 1) = (of_nat (unat count) :: u64)" by simp
    then show ?thesis by (simp add: algebra_simps)
  qed (simp add: word_unat_eq_iff)
  with ts show ?thesis by blast
qed

theorem k_clock_raw_round_trip_witness:
  "\<exists>ts. k_clock_raw_to_timespec 25000003 10000000 = Some ts \<and> unat (tv_nsec ts) = 500000300"
  using k_clock_raw_round_trip [of 10000000 25000003] by auto

lemma sint_add_u64: "- (2 ^ 63) \<le> sint x + sint y \<Longrightarrow> sint x + sint y < 2 ^ 63 \<Longrightarrow> sint (x + y :: u64) = sint x + sint y"
  by (simp add: sint_word_ariths signed_take_bit_int_eq_self)

lemma sint_sub_u64: "- (2 ^ 63) \<le> sint x - sint y \<Longrightarrow> sint x - sint y < 2 ^ 63 \<Longrightarrow> sint (x - y :: u64) = sint x - sint y"
  by (simp add: sint_word_ariths signed_take_bit_int_eq_self)

lemma timespecadd_nanos:
  assumes "proper b" "\<bar>sint (tv_nsec a)\<bar> < 2 ^ 61" "\<bar>sint (tv_sec a)\<bar> < 2 ^ 62"
  shows "nanos (timespecadd a b) = nanos a + nanos b"
    and "0 \<le> sint (tv_nsec a) \<and> sint (tv_nsec a) < 1000000000 \<Longrightarrow> 0 \<le> sint (tv_nsec (timespecadd a b)) \<and> sint (tv_nsec (timespecadd a b)) < 1000000000"
proof -
  have b: "sint (tv_sec a) < 2 ^ 62" "- (2 ^ 62) < sint (tv_sec a)" "sint (tv_sec b) < 2 ^ 60" "- (2 ^ 60) < sint (tv_sec b)"
    "sint (tv_nsec a) < 2 ^ 61" "- (2 ^ 61) < sint (tv_nsec a)" "0 \<le> sint (tv_nsec b)" "sint (tv_nsec b) < 1000000000"
    using assms by (auto simp: proper_def)
  have s: "sint (tv_sec a + tv_sec b) = sint (tv_sec a) + sint (tv_sec b)"
    and n: "sint (tv_nsec a + tv_nsec b) = sint (tv_nsec a) + sint (tv_nsec b)"
    using b by (intro sint_add_u64; simp)+
  have s1: "sint (tv_sec a + tv_sec b + 1) = sint (tv_sec a) + sint (tv_sec b) + 1"
    using sint_add_u64 [of "tv_sec a + tv_sec b" 1] b s by simp
  have n1: "1000000000 \<le> sint (tv_nsec a + tv_nsec b) \<Longrightarrow>
     sint (tv_nsec a + tv_nsec b - NSEC) = sint (tv_nsec a) + sint (tv_nsec b) - 1000000000"
    using sint_sub_u64 [of "tv_nsec a + tv_nsec b" NSEC] b n by simp
  show "nanos (timespecadd a b) = nanos a + nanos b"
    "0 \<le> sint (tv_nsec a) \<and> sint (tv_nsec a) < 1000000000 \<Longrightarrow>
       0 \<le> sint (tv_nsec (timespecadd a b)) \<and> sint (tv_nsec (timespecadd a b)) < 1000000000"
    using s n s1 n1 b by (auto simp: timespecadd_def nanos_def Let_def)
qed

lemma timespecsub_nanos:
  assumes "small a" "proper b"
  shows "nanos (timespecsub a b) = nanos a - nanos b"
    and "proper a \<Longrightarrow> 0 \<le> sint (tv_nsec (timespecsub a b)) \<and> sint (tv_nsec (timespecsub a b)) < 1000000000"
    and "\<bar>sint (tv_sec (timespecsub a b))\<bar> < 2 ^ 62" "\<bar>sint (tv_nsec (timespecsub a b))\<bar> < 2 ^ 61"
proof -
  have b: "sint (tv_sec a) < 2 ^ 60" "- (2 ^ 60) < sint (tv_sec a)" "sint (tv_sec b) < 2 ^ 60" "- (2 ^ 60) < sint (tv_sec b)"
    "sint (tv_nsec a) < 2 ^ 60" "- (2 ^ 60) < sint (tv_nsec a)" "0 \<le> sint (tv_nsec b)" "sint (tv_nsec b) < 1000000000"
    using assms by (auto simp: proper_def small_def)
  have s: "sint (tv_sec a - tv_sec b) = sint (tv_sec a) - sint (tv_sec b)"
    and n: "sint (tv_nsec a - tv_nsec b) = sint (tv_nsec a) - sint (tv_nsec b)"
    using b by (intro sint_sub_u64; simp)+
  have s1: "sint (tv_sec a - tv_sec b - 1) = sint (tv_sec a) - sint (tv_sec b) - 1"
    using sint_sub_u64 [of "tv_sec a - tv_sec b" 1] b s by simp
  have n1: "sint (tv_nsec a - tv_nsec b) < 0 \<Longrightarrow>
     sint (tv_nsec a - tv_nsec b + NSEC) = sint (tv_nsec a) - sint (tv_nsec b) + 1000000000"
    using sint_add_u64 [of "tv_nsec a - tv_nsec b" NSEC] b n by simp
  show "nanos (timespecsub a b) = nanos a - nanos b"
    "proper a \<Longrightarrow> 0 \<le> sint (tv_nsec (timespecsub a b)) \<and> sint (tv_nsec (timespecsub a b)) < 1000000000"
    "\<bar>sint (tv_sec (timespecsub a b))\<bar> < 2 ^ 62" "\<bar>sint (tv_nsec (timespecsub a b))\<bar> < 2 ^ 61"
    using s n s1 n1 b by (auto simp: timespecsub_def nanos_def Let_def proper_def)
qed

text \<open>
  C19. Setting the real time.  Let the monotonic clock give \<open>m\<close> when the real time is set to \<open>t\<close>, and \<open>m'\<close>
  when it is read, both with less than a second of nanoseconds, and let the seconds, and the
  nanoseconds of \<open>t\<close>, be below \<open>2 ^ 60\<close>.  Then the time read is \<open>t\<close> plus the time passed between \<open>m\<close> and
  \<open>m'\<close>, to the nanosecond.  The nanoseconds of \<open>t\<close> are not checked: when they are less than a
  second so are those of the time read; when they are three seconds or more the time read has a second or more of nanoseconds.
\<close>

theorem k_clock_realtime_advances:
  assumes "k_clock_get_monotonic tm i h = Some (0, Some m)" "k_clock_get_monotonic tm i h' = Some (0, Some m')"
    and "small t" "proper m" "proper m'"
  shows "\<exists>off ts. k_clock_set_realtime tm i (Some t) off0 h = Some (0, off) \<and>
    k_clock_get_realtime tm i off h' = Some (0, Some ts) \<and>
    nanos ts = nanos t + (nanos m' - nanos m) \<and>
    (proper t \<longrightarrow> 0 \<le> sint (tv_nsec ts) \<and> sint (tv_nsec ts) < 1000000000) \<and>
    (3000000000 \<le> sint (tv_nsec t) \<longrightarrow> 1000000000 \<le> sint (tv_nsec ts))"
proof -
  let ?off = "timespecsub t m"
  note sub = timespecsub_nanos [OF assms(3,4)]
  note add = timespecadd_nanos [OF assms(5) sub(4,3)]
  have b: "sint (tv_nsec t) < 2 ^ 60" "0 \<le> sint (tv_nsec m)" "sint (tv_nsec m) < 1000000000" "0 \<le> sint (tv_nsec m')" "sint (tv_nsec m') < 1000000000"
    using assms(3-5) by (auto simp: small_def proper_def)
  have "1000000000 \<le> sint (tv_nsec (timespecadd ?off m'))" if big: "3000000000 \<le> sint (tv_nsec t)"
  proof -
    have "sint (tv_nsec t - tv_nsec m) = sint (tv_nsec t) - sint (tv_nsec m)"
      using b big by (intro sint_sub_u64) simp_all
    then have o: "sint (tv_nsec ?off) = sint (tv_nsec t) - sint (tv_nsec m)" using b big by (simp add: timespecsub_def Let_def)
    then have a: "sint (tv_nsec ?off + tv_nsec m') = sint (tv_nsec ?off) + sint (tv_nsec m')"
      using b big by (intro sint_add_u64) simp_all
    then have "sint (tv_nsec ?off + tv_nsec m' - NSEC) = sint (tv_nsec ?off) + sint (tv_nsec m') - 1000000000"
      using sint_sub_u64 [of "tv_nsec ?off + tv_nsec m'" NSEC] b o big by simp
    then show ?thesis using a b o big by (simp add: timespecadd_def Let_def)
  qed
  then show ?thesis
    using assms(1,2) add sub(1,2) by (simp add: k_clock_set_realtime_def k_clock_get_realtime_def)
qed

lemma example_timer_monotonic:
  "k_clock_get_monotonic (Some timer_clint_timer_ops) 0 (example_timer 25000000) = Some (0, Some \<lparr>tv_sec = 2, tv_nsec = 500000000\<rparr>)"
  "k_clock_get_monotonic (Some timer_clint_timer_ops) 0 (example_timer 38000000) = Some (0, Some \<lparr>tv_sec = 3, tv_nsec = 800000000\<rparr>)"
  by (simp_all add: k_clock_get_monotonic_def timer_clint_timer_ops_def timer_clint_get_raw_def timer_clint_get_freq_def
      example_timer_def k_clock_raw_to_timespec_def)

theorem k_clock_realtime_advances_witness:
  "\<exists>off ts. k_clock_set_realtime (Some timer_clint_timer_ops) 0 (Some \<lparr>tv_sec = 100, tv_nsec = 900000000\<rparr>)
      \<lparr>tv_sec = 0, tv_nsec = 0\<rparr> (example_timer 25000000) = Some (0, off) \<and>
    k_clock_get_realtime (Some timer_clint_timer_ops) 0 off (example_timer 38000000) = Some (0, Some ts) \<and>
    nanos ts = 102200000000"
  using k_clock_realtime_advances [OF example_timer_monotonic, of "\<lparr>tv_sec = 100, tv_nsec = 900000000\<rparr>"
      "\<lparr>tv_sec = 0, tv_nsec = 0\<rparr>"]
  by (auto simp: proper_def small_def nanos_def)

lemma tick_bounds:
  fixes c f T :: nat
  assumes "0 < f" "f \<le> 1000000000"
  defines "n \<equiv> c mod f * 1000000000 div f"
  shows "c + T * f div 1000000000 \<le> c div f * f + (n + T) * f div 1000000000 + 1"
    and "c div f * f + (n + T) * f div 1000000000 \<le> c + T * f div 1000000000 + 1"
proof -
  let ?G = "1000000000 :: nat"
  have "(n * f + T * f) div ?G = n * f div ?G + T * f div ?G + (n * f mod ?G + T * f mod ?G) div ?G"
    by (rule div_add1_eq)
  moreover have "n * f mod ?G < ?G" "T * f mod ?G < ?G" by simp_all
  then have "n * f mod ?G + T * f mod ?G < 2 * ?G" by linarith
  then have "(n * f mod ?G + T * f mod ?G) div ?G < 2" by (rule less_mult_imp_div_less)
  ultimately have "n * f div ?G + T * f div ?G \<le> (n + T) * f div ?G" "(n + T) * f div ?G \<le> n * f div ?G + T * f div ?G + 1"
    by (simp_all add: add_mult_distrib)
  with nanos_back [OF assms(1,2), of c]
  show "c + T * f div ?G \<le> c div f * f + (n + T) * f div ?G + 1" "c div f * f + (n + T) * f div ?G \<le> c + T * f div ?G + 1"
    unfolding n_def by linarith+
qed

lemma timespecadd_to_raw:
  assumes n: "unat n < 1000000000" "unat d \<le> 1000000000" and f: "unat freq \<le> 1000000000"
    and s: "unat s * unat freq + 3 * unat freq < 2 ^ 64" "unat s + 1 < 2 ^ 64"
  shows "unat (k_clock_timespec_to_raw (timespecadd \<lparr>tv_sec = s, tv_nsec = n\<rparr> \<lparr>tv_sec = 0, tv_nsec = d\<rparr>) freq) =
    unat s * unat freq + (unat n + unat d) * unat freq div 1000000000"
proof -
  have nd: "unat (n + d) = unat n + unat d" using n by (intro unat_add_lem [THEN iffD1]) simp
  then have "sint (n + d) = int (unat n + unat d)" using n by (subst sint_small) simp_all
  then have si: "1000000000 \<le> sint (n + d) \<longleftrightarrow> 1000000000 \<le> unat n + unat d" by linarith
  show ?thesis
  proof (cases "1000000000 \<le> unat n + unat d")
    case True
    then have "NSEC \<le> n + d" by (simp add: word_le_nat_alt nd)
    then have sub: "unat (n + d - NSEC) = unat n + unat d - 1000000000" by (simp add: unat_sub nd)
    have s1: "unat (s + 1) = unat s + 1" using unat_add_lem [of s 1] s(2) by simp
    have "timespecadd \<lparr>tv_sec = s, tv_nsec = n\<rparr> \<lparr>tv_sec = 0, tv_nsec = d\<rparr> = \<lparr>tv_sec = s + 1, tv_nsec = n + d - NSEC\<rparr>"
      using True si by (simp add: timespecadd_def)
    moreover have "unat (k_clock_timespec_to_raw \<lparr>tv_sec = s + 1, tv_nsec = n + d - NSEC\<rparr> freq) =
       (unat s + 1) * unat freq + (unat n + unat d - 1000000000) * unat freq div 1000000000"
      by (subst timespec_to_raw_exact) (use n s f sub s1 in \<open>simp_all add: add_mult_distrib\<close>)
    moreover have "(unat n + unat d) * unat freq = (unat n + unat d - 1000000000) * unat freq + unat freq * 1000000000"
      using True by (simp add: diff_mult_distrib)
    ultimately show ?thesis by simp
  next
    case False
    then have "timespecadd \<lparr>tv_sec = s, tv_nsec = n\<rparr> \<lparr>tv_sec = 0, tv_nsec = d\<rparr> = \<lparr>tv_sec = s, tv_nsec = n + d\<rparr>"
      using si by (simp add: timespecadd_def)
    then show ?thesis by (simp only:) (subst timespec_to_raw_exact; use n s f nd False in simp)
  qed
qed

text \<open>
  The periodic tick.  On a CLINT timer of at most one gigahertz, with a count that leaves room
  for three more seconds, \<open>k_clock_on_tick\<close> changes only the comparator of the hart, and sets it to
  the current count plus one period of the configured rate, up to one count.
\<close>

theorem k_clock_on_tick_programs:
  assumes "0 < unat (freq_in h)" "unat (freq_in h) \<le> 1000000000"
    and "unat (ct_regs h REG_MTIME) + 3 * unat (freq_in h) < 2 ^ 64"
    and "0 < SYSTEM_TIMER_HZ cfg" "SYSTEM_TIMER_HZ cfg < 2 ^ 64"
    and "period = 1000000000 div SYSTEM_TIMER_HZ cfg * unat (freq_in h) div 1000000000"
  shows "\<exists>c. k_clock_on_tick cfg (Some timer_clint_timer_ops) i h =
      Some (0, h\<lparr>ct_regs := (ct_regs h)(REG_MTIMECMP i := c)\<rparr>) \<and>
    unat (ct_regs h REG_MTIME) + period \<le> unat c + 1 \<and> unat c \<le> unat (ct_regs h REG_MTIME) + period + 1"
proof -
  let ?f = "freq_in h" and ?c = "ct_regs h REG_MTIME" and ?d = "NSEC div of_nat (SYSTEM_TIMER_HZ cfg) :: u64"
  have f0: "?f \<noteq> 0" using assms(1) by auto
  have "unat ?f * 1000000000 \<le> 2 ^ 64" using assms(2) by simp
  from raw_to_timespec_exact [OF f0 this, of ?c] obtain ts where
    ts: "k_clock_raw_to_timespec ?c ?f = Some ts" "unat (tv_sec ts) = unat ?c div unat ?f"
      "unat (tv_nsec ts) = unat ?c mod unat ?f * 1000000000 div unat ?f" "unat (tv_nsec ts) < 1000000000" by blast
  have d: "unat ?d = 1000000000 div SYSTEM_TIMER_HZ cfg"
    using assms(5) by (simp add: unat_div unat_of_nat)
  have same: "\<lparr>tv_sec = tv_sec ts, tv_nsec = tv_nsec ts\<rparr> = ts" by simp
  define c where "c = k_clock_timespec_to_raw (timespecadd ts \<lparr>tv_sec = 0, tv_nsec = ?d\<rparr>) ?f"
  have le: "unat ?c div unat ?f * unat ?f \<le> unat ?c" "unat ?c div unat ?f \<le> unat ?c"
    by (simp_all add: div_times_less_eq_dividend)
  have "unat (tv_sec ts) * unat ?f + 3 * unat ?f < 2 ^ 64" "unat (tv_sec ts) + 1 < 2 ^ 64"
    unfolding ts(2) using le assms(1,3) by linarith+
  then have "unat c = unat (tv_sec ts) * unat ?f + (unat (tv_nsec ts) + unat ?d) * unat ?f div 1000000000"
    using timespecadd_to_raw [of "tv_nsec ts" ?d ?f "tv_sec ts", unfolded same] ts(4) assms(2) d by (simp add: c_def)
  then have "unat ?c + period \<le> unat c + 1" "unat c \<le> unat ?c + period + 1"
    using tick_bounds [OF assms(1,2), of "unat ?c" "unat ?d"] ts(2,3) d assms(6) by simp_all
  moreover have "k_clock_on_tick cfg (Some timer_clint_timer_ops) i h = Some (0, h\<lparr>ct_regs := (ct_regs h)(REG_MTIMECMP i := c)\<rparr>)"
    using f0 ts(1) by (simp add: k_clock_on_tick_def k_clock_get_monotonic_def timer_clint_timer_ops_def
        timer_clint_get_raw_def timer_clint_get_freq_def timer_clint_set_trigger_def timer_clint_set_timecmp_def c_def)
  ultimately show ?thesis by blast
qed

theorem k_clock_on_tick_programs_witness:
  "\<exists>c. k_clock_on_tick riscv_qemu_virt_64 (Some timer_clint_timer_ops) 1 (example_timer 25000000) =
     Some (0, (example_timer 25000000)\<lparr>ct_regs := (ct_regs (example_timer 25000000))(REG_MTIMECMP 1 := c)\<rparr>) \<and>
     25039999 \<le> unat c \<and> unat c \<le> 25040001"
  using k_clock_on_tick_programs [of "example_timer 25000000" riscv_qemu_virt_64 40000 1]
  by (auto simp: example_timer_def riscv_qemu_virt_64_def)

end
