(* ===== verification/Vsprintf.thy ===== *)
theory Vsprintf
  imports Kbase "HOL-Library.Monad_Syntax"
begin

section \<open>Formatted output\<close>

text \<open>
  \<^verbatim>\<open>sys/vsprintf.c\<close> without the conversions of floating-point numbers.  Characters are \<open>char\<close>;
  the type \<open>char\<close> of the compiler is unsigned.  Every call of the output function in the source
  passes the running index and increments it, so the parts of the formatter return the list of the
  characters they emit, and \<open>k_vsnprintf_inner\<close> passes them on with their index.  A format is the
  list of its characters before the terminating NUL, an argument a 64-bit register or the string a
  pointer refers to.  Reading behind the end of the format, an argument that is missing or of the
  wrong sort, and a floating-point conversion have no result, \<open>None\<close>.
\<close>

datatype va_arg = Va_word u64 | Va_str string

abbreviation (input) FLAGS_ZEROPAD :: u32 where "FLAGS_ZEROPAD \<equiv> 0x1"
abbreviation (input) FLAGS_LEFT :: u32 where "FLAGS_LEFT \<equiv> 0x2"
abbreviation (input) FLAGS_PLUS :: u32 where "FLAGS_PLUS \<equiv> 0x4"
abbreviation (input) FLAGS_SPACE :: u32 where "FLAGS_SPACE \<equiv> 0x8"
abbreviation (input) FLAGS_HASH :: u32 where "FLAGS_HASH \<equiv> 0x10"
abbreviation (input) FLAGS_UPPERCASE :: u32 where "FLAGS_UPPERCASE \<equiv> 0x20"
abbreviation (input) FLAGS_CHAR :: u32 where "FLAGS_CHAR \<equiv> 0x40"
abbreviation (input) FLAGS_SHORT :: u32 where "FLAGS_SHORT \<equiv> 0x80"
abbreviation (input) FLAGS_LONG :: u32 where "FLAGS_LONG \<equiv> 0x100"
abbreviation (input) FLAGS_LONG_LONG :: u32 where "FLAGS_LONG_LONG \<equiv> 0x200"
abbreviation (input) FLAGS_PRECISION :: u32 where "FLAGS_PRECISION \<equiv> 0x400"

abbreviation (input) NTOA_BUFFER_SIZE :: nat where "NTOA_BUFFER_SIZE \<equiv> 32"
abbreviation (input) NUL :: char where "NUL \<equiv> CHR 0x00"

definition has :: "u32 \<Rightarrow> u32 \<Rightarrow> bool" where
  "has flags bits \<longleftrightarrow> flags AND bits \<noteq> 0"

subsection \<open>Output functions\<close>

type_synonym 's out_fct = "char \<Rightarrow> 's \<Rightarrow> nat \<Rightarrow> nat \<Rightarrow> 's"

definition k_pri_out_buffer :: "(nat \<Rightarrow> char) out_fct" where
  "k_pri_out_buffer c buffer idx maxlen = (if idx < maxlen then buffer(idx := c) else buffer)"

definition k_pri_out_null :: "'s out_fct" where
  "k_pri_out_null c buffer idx maxlen = buffer"

text \<open>\<open>put\<close> is \<open>k_putchar_nolock\<close>.\<close>

definition k_pri_out_char :: "(char \<Rightarrow> 's \<Rightarrow> 's) \<Rightarrow> 's out_fct" where
  "k_pri_out_char put c buffer idx maxlen = (if c \<noteq> NUL then put c buffer else buffer)"

fun out_all :: "'s out_fct \<Rightarrow> 's \<Rightarrow> nat \<Rightarrow> nat \<Rightarrow> string \<Rightarrow> 's" where
  "out_all out buffer idx maxlen [] = buffer"
| "out_all out buffer idx maxlen (c # cs) = out_all out (out c buffer idx maxlen) (idx + 1) maxlen cs"

subsection \<open>Digits\<close>

definition is_digit :: "char \<Rightarrow> bool" where
  "is_digit c \<longleftrightarrow> (48 :: nat) \<le> of_char c \<and> of_char c \<le> (57 :: nat)"

fun atoi_loop :: "string \<Rightarrow> u32 \<Rightarrow> u32 \<times> string" where
  "atoi_loop [] i = (i, [])"
| "atoi_loop (c # cs) i =
     (if is_digit c then atoi_loop cs (i * 10 + of_nat (of_char c - 48)) else (i, c # cs))"

definition atoi :: "string \<Rightarrow> u32 \<times> string" where
  "atoi str = atoi_loop str 0"

definition strnlen_s :: "string \<Rightarrow> nat \<Rightarrow> nat" where
  "strnlen_s str maxsize = min (length str) maxsize"

definition digit_char :: "bool \<Rightarrow> nat \<Rightarrow> char" where
  "digit_char upper d = char_of (if d < 10 then 48 + d else (if upper then 65 else 97) + d - 10)"

text \<open>The digits of a value, lowest first, at most \<open>n\<close> of them: the \<open>do\<close> loop with the room left in the buffer.\<close>

fun ntoa_digits :: "nat \<Rightarrow> u64 \<Rightarrow> u64 \<Rightarrow> bool \<Rightarrow> string" where
  "ntoa_digits 0 v base upper = []"
| "ntoa_digits (Suc n) v base upper =
     digit_char upper (unat (v mod base)) #
       (if v div base \<noteq> 0 then ntoa_digits n (v div base) base upper else [])"

subsection \<open>Conversion of integers\<close>

definition k_pri_out_rev :: "string \<Rightarrow> nat \<Rightarrow> u32 \<Rightarrow> string" where
  "k_pri_out_rev buf width flags =
     (let pre = (if \<not> has flags FLAGS_LEFT \<and> \<not> has flags FLAGS_ZEROPAD
                 then replicate (width - length buf) CHR '' '' else []);
          text = pre @ rev buf
      in text @ (if has flags FLAGS_LEFT then replicate (width - length text) CHR '' '' else []))"

definition push :: "char \<Rightarrow> string \<Rightarrow> string" where
  "push c buf = (if length buf < NTOA_BUFFER_SIZE then buf @ [c] else buf)"

definition fill_zeros :: "nat \<Rightarrow> string \<Rightarrow> string" where
  "fill_zeros n buf = buf @ replicate (min n NTOA_BUFFER_SIZE - length buf) CHR ''0''"

definition ntoa_hash :: "u64 \<Rightarrow> nat \<Rightarrow> nat \<Rightarrow> u32 \<Rightarrow> string \<Rightarrow> string" where
  "ntoa_hash base prec width flags buf =
     (let len = length buf;
          buf = (if \<not> has flags FLAGS_PRECISION \<and> buf \<noteq> [] \<and> (len = prec \<or> len = width)
                 then (let buf = butlast buf in if buf \<noteq> [] \<and> base = 16 then butlast buf else buf)
                 else buf);
          buf = (if base = 16 \<and> \<not> has flags FLAGS_UPPERCASE then push CHR ''x'' buf
                 else if base = 16 \<and> has flags FLAGS_UPPERCASE then push CHR ''X'' buf
                 else if base = 2 then push CHR ''b'' buf else buf)
      in push CHR ''0'' buf)"

definition ntoa_format :: "string \<Rightarrow> bool \<Rightarrow> u64 \<Rightarrow> nat \<Rightarrow> nat \<Rightarrow> u32 \<Rightarrow> nat \<times> string" where
  "ntoa_format buf negative base prec width flags =
     (let width = (if \<not> has flags FLAGS_LEFT \<and> width \<noteq> 0 \<and> has flags FLAGS_ZEROPAD \<and>
                      (negative \<or> has flags (FLAGS_PLUS OR FLAGS_SPACE))
                   then width - 1 else width);
          buf = (if has flags FLAGS_LEFT then buf
                 else let buf = fill_zeros prec buf
                      in if has flags FLAGS_ZEROPAD then fill_zeros width buf else buf);
          buf = (if has flags FLAGS_HASH then ntoa_hash base prec width flags buf else buf);
          buf = (if negative then push CHR ''-'' buf
                 else if has flags FLAGS_PLUS then push CHR ''+'' buf
                 else if has flags FLAGS_SPACE then push CHR '' '' buf else buf)
      in (width, buf))"

text \<open>The buffer of a conversion after the digits and \<open>ntoa_format\<close>, with the width that is left.\<close>

definition ntoa_buffer :: "u64 \<Rightarrow> bool \<Rightarrow> u64 \<Rightarrow> nat \<Rightarrow> nat \<Rightarrow> u32 \<Rightarrow> nat \<times> string" where
  "ntoa_buffer value negative base prec width flags =
     (let buf = (if \<not> has flags FLAGS_PRECISION \<or> value \<noteq> 0
                 then ntoa_digits NTOA_BUFFER_SIZE value base (has flags FLAGS_UPPERCASE) else [])
      in ntoa_format buf negative base prec width flags)"

definition ntoa_long :: "u64 \<Rightarrow> bool \<Rightarrow> u64 \<Rightarrow> nat \<Rightarrow> nat \<Rightarrow> u32 \<Rightarrow> string" where
  "ntoa_long value negative base prec width flags =
     (let flags = (if value = 0 then flags AND NOT FLAGS_HASH else flags);
          (width, buf) = ntoa_buffer value negative base prec width flags
      in k_pri_out_rev buf width flags)"

definition ntoa_long_long :: "u64 \<Rightarrow> bool \<Rightarrow> u64 \<Rightarrow> nat \<Rightarrow> nat \<Rightarrow> u32 \<Rightarrow> string" where
  "ntoa_long_long = ntoa_long"

subsection \<open>Parts of a conversion\<close>

fun eval_flags :: "string \<Rightarrow> u32 \<Rightarrow> u32 \<times> string" where
  "eval_flags [] flags = (flags, [])"
| "eval_flags (c # cs) flags =
     (if c = CHR ''0'' then eval_flags cs (flags OR FLAGS_ZEROPAD)
      else if c = CHR ''-'' then eval_flags cs (flags OR FLAGS_LEFT)
      else if c = CHR ''+'' then eval_flags cs (flags OR FLAGS_PLUS)
      else if c = CHR '' '' then eval_flags cs (flags OR FLAGS_SPACE)
      else if c = CHR ''#'' then eval_flags cs (flags OR FLAGS_HASH)
      else (flags, c # cs))"

text \<open>The current character, NUL at the end of the format.\<close>

definition cur :: "string \<Rightarrow> char" where
  "cur fmt = (case fmt of [] \<Rightarrow> NUL | c # _ \<Rightarrow> c)"

fun va_word :: "va_arg list \<Rightarrow> (u64 \<times> va_arg list) option" where
  "va_word (Va_word w # va) = Some (w, va)"
| "va_word _ = None"

fun va_str :: "va_arg list \<Rightarrow> (string \<times> va_arg list) option" where
  "va_str (Va_str s # va) = Some (s, va)"
| "va_str _ = None"

definition va_int :: "va_arg list \<Rightarrow> (u32 \<times> va_arg list) option" where
  "va_int va = do { (w, va) \<leftarrow> va_word va; Some (ucast w, va) }"

definition eval_width ::
    "string \<Rightarrow> u32 \<Rightarrow> va_arg list \<Rightarrow> (u32 \<times> u32 \<times> string \<times> va_arg list) option" where
  "eval_width fmt flags va =
     (if is_digit (cur fmt) then let (w, fmt) = atoi fmt in Some (w, flags, fmt, va)
      else if cur fmt = CHR ''*'' then do {
        (w, va) \<leftarrow> va_int va;
        if sint w < 0 then Some (- w, flags OR FLAGS_LEFT, tl fmt, va) else Some (w, flags, tl fmt, va)
      }
      else Some (0, flags, fmt, va))"

definition eval_precision ::
    "string \<Rightarrow> u32 \<Rightarrow> va_arg list \<Rightarrow> (u32 \<times> u32 \<times> string \<times> va_arg list) option" where
  "eval_precision fmt flags va =
     (if cur fmt = CHR ''.'' then
        let flags = flags OR FLAGS_PRECISION; fmt = tl fmt in
        if is_digit (cur fmt) then let (p, fmt) = atoi fmt in Some (p, flags, fmt, va)
        else if cur fmt = CHR ''*'' then do {
          (p, va) \<leftarrow> va_int va;
          Some (if 0 < sint p then p else 0, flags, tl fmt, va)
        }
        else Some (0, flags, fmt, va)
      else Some (0, flags, fmt, va))"

text \<open>The types \<open>long\<close>, \<open>ptrdiff_t\<close>, \<open>intmax_t\<close> and \<open>size_t\<close> have 64 bits.\<close>

definition eval_length :: "string \<Rightarrow> u32 \<Rightarrow> u32 \<times> string" where
  "eval_length fmt flags =
     (if cur fmt = CHR ''l'' then
        let flags = flags OR FLAGS_LONG; fmt = tl fmt
        in if cur fmt = CHR ''l'' then (flags OR FLAGS_LONG_LONG, tl fmt) else (flags, fmt)
      else if cur fmt = CHR ''h'' then
        let flags = flags OR FLAGS_SHORT; fmt = tl fmt
        in if cur fmt = CHR ''h'' then (flags OR FLAGS_CHAR, tl fmt) else (flags, fmt)
      else if cur fmt = CHR ''t'' \<or> cur fmt = CHR ''j'' \<or> cur fmt = CHR ''z'' then (flags OR FLAGS_LONG, tl fmt)
      else (flags, fmt))"

subsection \<open>Conversions\<close>

definition spec_base :: "char \<Rightarrow> u64" where
  "spec_base c =
     (if c = CHR ''x'' \<or> c = CHR ''X'' then 16 else if c = CHR ''o'' then 8 else if c = CHR ''b'' then 2 else 10)"

definition is_signed :: "char \<Rightarrow> bool" where
  "is_signed c \<longleftrightarrow> c = CHR ''i'' \<or> c = CHR ''d''"

definition int_flags :: "char \<Rightarrow> u32 \<Rightarrow> u32" where
  "int_flags c flags =
     (let flags = (if spec_base c = 10 then flags AND NOT FLAGS_HASH else flags);
          flags = (if c = CHR ''X'' then flags OR FLAGS_UPPERCASE else flags);
          flags = (if \<not> is_signed c then flags AND NOT (FLAGS_PLUS OR FLAGS_SPACE) else flags)
      in if has flags FLAGS_PRECISION then flags AND NOT FLAGS_ZEROPAD else flags)"

text \<open>A signed value of 32 or 64 bits as its magnitude and its sign.\<close>

definition magnitude64 :: "u64 \<Rightarrow> u64 \<times> bool" where
  "magnitude64 w = (if 0 < sint w then w else 0 - w, sint w < 0)"

definition magnitude32 :: "u32 \<Rightarrow> u64 \<times> bool" where
  "magnitude32 w = (ucast (if 0 < sint w then w else 0 - w), sint w < 0)"

definition narrow_signed :: "u32 \<Rightarrow> u32 \<Rightarrow> u32" where
  "narrow_signed flags w =
     (if has flags FLAGS_CHAR then ucast (ucast w :: u8)
      else if has flags FLAGS_SHORT then scast (ucast w :: u16) else w)"

definition narrow_unsigned :: "u32 \<Rightarrow> u32 \<Rightarrow> u32" where
  "narrow_unsigned flags w =
     (if has flags FLAGS_CHAR then ucast (ucast w :: u8)
      else if has flags FLAGS_SHORT then ucast (ucast w :: u16) else w)"

definition conv_int :: "char \<Rightarrow> nat \<Rightarrow> nat \<Rightarrow> u32 \<Rightarrow> va_arg list \<Rightarrow> (string \<times> va_arg list) option" where
  "conv_int c prec width flags va =
     (let base = spec_base c; flags = int_flags c flags in
      if is_signed c then
        if has flags FLAGS_LONG_LONG then do {
          (w, va) \<leftarrow> va_word va;
          let (v, neg) = magnitude64 w in Some (ntoa_long_long v neg base prec width flags, va)
        }
        else if has flags FLAGS_LONG then do {
          (w, va) \<leftarrow> va_word va;
          let (v, neg) = magnitude64 w in Some (ntoa_long v neg base prec width flags, va)
        }
        else do {
          (w, va) \<leftarrow> va_int va;
          let (v, neg) = magnitude32 (narrow_signed flags w) in Some (ntoa_long v neg base prec width flags, va)
        }
      else
        if has flags FLAGS_LONG_LONG then do {
          (w, va) \<leftarrow> va_word va;
          Some (ntoa_long_long w False base prec width flags, va)
        }
        else if has flags FLAGS_LONG then do {
          (w, va) \<leftarrow> va_word va;
          Some (ntoa_long w False base prec width flags, va)
        }
        else do {
          (w, va) \<leftarrow> va_int va;
          Some (ntoa_long (ucast (narrow_unsigned flags w)) False base prec width flags, va)
        })"

definition pad_around :: "nat \<Rightarrow> nat \<Rightarrow> u32 \<Rightarrow> string \<Rightarrow> string" where
  "pad_around l width flags text =
     (let pad = replicate (width - l) CHR '' ''
      in if has flags FLAGS_LEFT then text @ pad else pad @ text)"

definition conv_char :: "nat \<Rightarrow> u32 \<Rightarrow> va_arg list \<Rightarrow> (string \<times> va_arg list) option" where
  "conv_char width flags va = do {
     (w, va) \<leftarrow> va_int va;
     Some (pad_around 1 width flags [char_of (unat (ucast w :: u8))], va)
   }"

definition conv_str :: "nat \<Rightarrow> nat \<Rightarrow> u32 \<Rightarrow> va_arg list \<Rightarrow> (string \<times> va_arg list) option" where
  "conv_str prec width flags va = do {
     (p, va) \<leftarrow> va_str va;
     let l = strnlen_s p (if prec \<noteq> 0 then prec else 2 ^ 64 - 1) mod 2 ^ 32;
         l = (if has flags FLAGS_PRECISION then min l prec else l);
         text = (if has flags FLAGS_PRECISION then take prec p else p)
     in Some (pad_around l width flags text, va)
   }"

definition conv_ptr :: "nat \<Rightarrow> u32 \<Rightarrow> va_arg list \<Rightarrow> (string \<times> va_arg list) option" where
  "conv_ptr prec flags va = do {
     (w, va) \<leftarrow> va_word va;
     Some (ntoa_long_long w False 16 prec 16 (flags OR (FLAGS_ZEROPAD OR FLAGS_UPPERCASE)), va)
   }"

definition conv_spec :: "char \<Rightarrow> nat \<Rightarrow> nat \<Rightarrow> u32 \<Rightarrow> va_arg list \<Rightarrow> (string \<times> va_arg list) option" where
  "conv_spec c prec width flags va =
     (if c \<in> set ''diuxXob'' then conv_int c prec width flags va
      else if c \<in> set ''fFeEgG'' then None
      else if c = CHR ''c'' then conv_char width flags va
      else if c = CHR ''s'' then conv_str prec width flags va
      else if c = CHR ''p'' then conv_ptr prec flags va
      else if c = CHR ''%'' then Some (''%'', va)
      else Some ([c], va))"

text \<open>One conversion behind the percent sign: what it emits, the rest of the format and of the arguments.\<close>

definition conv_one :: "string \<Rightarrow> va_arg list \<Rightarrow> (string \<times> string \<times> va_arg list) option" where
  "conv_one fmt va =
     (let (flags, fmt) = eval_flags fmt 0 in do {
        (width, flags, fmt, va) \<leftarrow> eval_width fmt flags va;
        (prec, flags, fmt, va) \<leftarrow> eval_precision fmt flags va;
        let (flags, fmt) = eval_length fmt flags
        in case fmt of
             [] \<Rightarrow> None
           | c # fmt \<Rightarrow> do {
               (text, va) \<leftarrow> conv_spec c (unat prec) (unat width) flags va;
               Some (text, fmt, va)
             }
      })"

lemma eval_flags_length: "length (snd (eval_flags fmt flags)) \<le> length fmt"
  by (induction fmt flags rule: eval_flags.induct) (auto intro: le_SucI)

lemma atoi_loop_length: "length (snd (atoi_loop fmt i)) \<le> length fmt"
  by (induction fmt i rule: atoi_loop.induct) (auto intro: le_SucI)

lemma eval_width_length: "eval_width fmt flags va = Some (w, f, fmt', va') \<Longrightarrow> length fmt' \<le> length fmt"
  using atoi_loop_length [of fmt 0]
  by (auto simp: eval_width_def atoi_def bind_eq_Some_conv split: if_splits prod.splits)

lemma eval_precision_length: "eval_precision fmt flags va = Some (p, f, fmt', va') \<Longrightarrow> length fmt' \<le> length fmt"
  using atoi_loop_length [of "tl fmt" 0]
  by (auto simp: eval_precision_def atoi_def bind_eq_Some_conv Let_def split: if_splits prod.splits)

lemma eval_length_length: "length (snd (eval_length fmt flags)) \<le> length fmt"
  by (auto simp: eval_length_def Let_def)

lemma conv_one_length:
  assumes "conv_one fmt va = Some (text, fmt', va')"
  shows "length fmt' < length fmt"
proof -
  obtain f1 fmt1 where 1: "eval_flags fmt 0 = (f1, fmt1)" by fastforce
  with assms obtain w f2 fmt2 va2 p f3 fmt3 va3 where
    2: "eval_width fmt1 f1 va = Some (w, f2, fmt2, va2)" and 3: "eval_precision fmt2 f2 va2 = Some (p, f3, fmt3, va3)"
    by (auto simp: conv_one_def bind_eq_Some_conv)
  obtain f4 fmt4 where 4: "eval_length fmt3 f3 = (f4, fmt4)" by fastforce
  have "fmt4 \<noteq> [] \<and> fmt' = tl fmt4"
    using assms 1 2 3 4 by (auto simp: conv_one_def bind_eq_Some_conv split: list.splits)
  moreover have "length fmt4 \<le> length fmt"
    using eval_flags_length [of fmt 0] eval_width_length [OF 2] eval_precision_length [OF 3]
      eval_length_length [of fmt3 f3] 1 4 by simp
  ultimately show ?thesis by (cases fmt4) auto
qed

function vformat :: "string \<Rightarrow> va_arg list \<Rightarrow> string option" where
  "vformat [] va = Some []"
| "vformat (c # fmt) va =
     (if c \<noteq> CHR ''%'' then map_option ((#) c) (vformat fmt va)
      else case conv_one fmt va of
        None \<Rightarrow> None
      | Some (text, fmt', va') \<Rightarrow> map_option ((@) text) (vformat fmt' va'))"
  by pat_completeness auto
termination
  by (relation "measure (\<lambda>(fmt, va). length fmt)") (auto dest: conv_one_length)

text \<open>The result is converted to \<open>int\<close>; \<open>null\<close> says that the buffer pointer is NULL.\<close>

definition k_vsnprintf_inner ::
    "'s out_fct \<Rightarrow> bool \<Rightarrow> 's \<Rightarrow> nat \<Rightarrow> string \<Rightarrow> va_arg list \<Rightarrow> (int \<times> 's) option" where
  "k_vsnprintf_inner out null buffer maxlen fmt va = do {
     text \<leftarrow> vformat fmt va;
     let out = (if null then k_pri_out_null else out);
         idx = length text;
         buffer = out_all out buffer 0 maxlen text;
         buffer = out NUL buffer (if idx < maxlen then idx else (maxlen + 2 ^ 64 - 1) mod 2 ^ 64) maxlen
     in Some (sint (of_nat idx :: u32), buffer)
   }"

definition k_vprintf_nolock :: "(char \<Rightarrow> 's \<Rightarrow> 's) \<Rightarrow> string \<Rightarrow> va_arg list \<Rightarrow> 's \<Rightarrow> (int \<times> 's) option" where
  "k_vprintf_nolock put fmt va s = k_vsnprintf_inner (k_pri_out_char put) False s (2 ^ 64 - 1) fmt va"

definition k_vsnprintf_nolock ::
    "bool \<Rightarrow> (nat \<Rightarrow> char) \<Rightarrow> nat \<Rightarrow> string \<Rightarrow> va_arg list \<Rightarrow> (int \<times> (nat \<Rightarrow> char)) option" where
  "k_vsnprintf_nolock null buffer count fmt va = k_vsnprintf_inner k_pri_out_buffer null buffer count fmt va"

subsection \<open>Reference definitions\<close>

text \<open>Reference: the digits of a number, lowest first, and its notation.\<close>

function nat_digits :: "nat \<Rightarrow> nat \<Rightarrow> nat list" where
  "nat_digits b n = (if b < 2 then [n] else n mod b # (if n div b = 0 then [] else nat_digits b (n div b)))"
  by pat_completeness auto
termination
  by (relation "measure snd") (auto simp: div_greater_zero_iff)

definition digits_value :: "nat \<Rightarrow> nat list \<Rightarrow> nat" where
  "digits_value b ds = foldr (\<lambda>d a. d + b * a) ds 0"

definition num_string :: "bool \<Rightarrow> nat \<Rightarrow> nat \<Rightarrow> string" where
  "num_string upper b n = map (digit_char upper) (rev (nat_digits b n))"

subsection \<open>Numbers, bounds and ends\<close>

declare nat_digits.simps [simp del]

lemma nat_digits_value: "2 \<le> b \<Longrightarrow> digits_value b (nat_digits b n) = n"
proof (induction b n rule: nat_digits.induct)
  case (1 b n)
  then show ?case
    by (cases "n div b = 0") (simp_all add: nat_digits.simps [of b n] digits_value_def div_eq_0_iff)
qed

lemma nat_digits_less: "2 \<le> b \<Longrightarrow> d \<in> set (nat_digits b n) \<Longrightarrow> d < b"
proof (induction b n rule: nat_digits.induct)
  case (1 b n)
  then show ?case by (subst (asm) (2) nat_digits.simps) (auto split: if_splits)
qed

lemma ntoa_digits_nat:
  assumes "2 \<le> unat base" "unat v < unat base ^ n" "0 < n"
  shows "ntoa_digits n v base upper = map (digit_char upper) (nat_digits (unat base) (unat v))"
  using assms
proof (induction n arbitrary: v)
  case (Suc n)
  let ?b = "unat base"
  have step: "nat_digits ?b (unat v) = unat v mod ?b # (if unat v div ?b = 0 then [] else nat_digits ?b (unat v div ?b))"
    using Suc.prems(1) by (subst nat_digits.simps) simp
  have zero: "v div base = 0 \<longleftrightarrow> unat v div ?b = 0" by (simp add: word_unat_eq_iff unat_div)
  show ?case
  proof (cases "v div base = 0")
    case False
    then have pos: "unat v div ?b \<noteq> 0" using zero by simp
    have lt: "unat v div ?b < ?b ^ n"
      using Suc.prems(1,2) by (simp add: less_mult_imp_div_less mult.commute)
    have "0 < n" using lt pos by (cases n) auto
    then have "ntoa_digits n (v div base) base upper = map (digit_char upper) (nat_digits ?b (unat v div ?b))"
      using Suc.IH [of "v div base"] Suc.prems(1) lt by (simp add: unat_div)
    then show ?thesis using False pos by (simp add: step unat_mod)
  qed (use zero in \<open>simp add: step unat_mod\<close>)
qed simp

lemma ntoa_digits_u64:
  assumes "4 \<le> unat base"
  shows "ntoa_digits NTOA_BUFFER_SIZE v base upper = map (digit_char upper) (nat_digits (unat base) (unat v))"
proof (rule ntoa_digits_nat)
  have "(4 :: nat) ^ 32 \<le> unat base ^ 32" using assms by (rule power_mono) simp
  then show "unat v < unat base ^ NTOA_BUFFER_SIZE"
    using unsigned_less [of v, where 'a = nat] by simp
qed (use assms in simp_all)

lemma has_0 [simp]: "\<not> has 0 bits"
  by (simp add: has_def)

lemma nat_digits_length:
  assumes "2 \<le> b" "n < b ^ k" "0 < k"
  shows "length (nat_digits b n) \<le> k"
  using assms
proof (induction k arbitrary: n)
  case (Suc k)
  have lt: "n div b < b ^ k" using Suc.prems(1,2) by (simp add: less_mult_imp_div_less mult.commute)
  show ?case
  proof (cases "n div b = 0")
    case False
    then have "0 < k" using lt by (cases k) auto
    then show ?thesis using Suc.IH [of "n div b"] Suc.prems(1) lt by (subst nat_digits.simps) auto
  qed (subst nat_digits.simps, simp)
qed simp

lemma nat_digits_length_u64:
  assumes "8 \<le> b"
  shows "length (nat_digits b (unat (v :: u64))) < 32"
proof -
  have "(8 :: nat) ^ 22 \<le> b ^ 22" using assms by (rule power_mono) simp
  then have "unat v < b ^ 22" using unsigned_less [of v, where 'a = nat] by simp
  then show ?thesis using nat_digits_length [of b "unat v" 22] assms by simp
qed

lemma ntoa_long_plain:
  assumes "8 \<le> unat base" "flags = 0 \<or> flags = FLAGS_UPPERCASE"
  shows "ntoa_long v neg base 0 0 flags =
    (if neg then ''-'' else []) @ num_string (flags = FLAGS_UPPERCASE) (unat base) (unat v)"
proof -
  have f: "\<not> has flags FLAGS_LEFT" "\<not> has flags FLAGS_ZEROPAD" "\<not> has flags FLAGS_PRECISION" "\<not> has flags FLAGS_HASH"
    "\<not> has flags FLAGS_PLUS" "\<not> has flags FLAGS_SPACE" "flags AND NOT FLAGS_HASH = flags"
    "has flags FLAGS_UPPERCASE \<longleftrightarrow> flags = FLAGS_UPPERCASE"
    using assms(2) by (auto simp: has_def)
  have d: "ntoa_digits 32 v base (flags = FLAGS_UPPERCASE) =
      map (digit_char (flags = FLAGS_UPPERCASE)) (nat_digits (unat base) (unat v))"
    by (rule ntoa_digits_u64) (use assms(1) in simp)
  show ?thesis
    unfolding ntoa_long_def ntoa_buffer_def ntoa_format_def Let_def f(7) if_cancel
    using f nat_digits_length_u64 [OF assms(1), of v]
    by (simp add: d fill_zeros_def push_def k_pri_out_rev_def num_string_def rev_map)
qed

lemma has_int_flags_plain: "int_flags c 0 = (if c = CHR ''X'' then FLAGS_UPPERCASE else 0)"
  by (simp add: int_flags_def has_def)

lemma spec_base_plain: "c \<in> set ''diuxXo'' \<Longrightarrow> 8 \<le> unat (spec_base c)"
  by (auto simp: spec_base_def)

lemma unat_of_int_u32:
  assumes "0 \<le> k" "k < 2 ^ 32"
  shows "unat (word_of_int k :: u32) = nat k"
  using assms by (simp add: unat_eq_nat_uint uint_word_of_int take_bit_int_eq_self)

lemma sint_range_u32: "- (2 ^ 31) \<le> sint (w :: u32)" "sint (w :: u32) < 2 ^ 31"
  using sint_greater_eq [of w] sint_less [of w] by simp_all

lemma unat_ucast_32_64: "unat (ucast x :: u64) = unat (x :: u32)"
proof -
  have "unat x < 2 ^ 64" using unsigned_less [of x, where 'a = nat] by simp
  then show ?thesis by (simp add: unsigned_ucast_eq take_bit_nat_eq_self)
qed

lemma magnitude32_nat: "unat (fst (magnitude32 w)) = nat \<bar>sint w\<bar>" "snd (magnitude32 w) \<longleftrightarrow> sint w < 0"
proof -
  have "unat (if 0 < sint w then w else 0 - w) = nat \<bar>sint w\<bar>"
  proof (cases "0 < sint w")
    case True
    then show ?thesis using unat_of_int_u32 [of "sint w"] sint_range_u32 [of w] by simp
  next
    case False
    have "word_of_int (- sint w) = 0 - w" by simp
    then show ?thesis using unat_of_int_u32 [of "- sint w"] sint_range_u32 [of w] False by simp
  qed
  then show "unat (fst (magnitude32 w)) = nat \<bar>sint w\<bar>" by (simp only: magnitude32_def fst_conv unat_ucast_32_64)
qed (simp add: magnitude32_def)

lemma conv_int_plain:
  assumes "c \<in> set ''diuxXo''"
  shows "conv_int c 0 0 0 (Va_word w # va) =
    Some ((if is_signed c \<and> sint (ucast w :: u32) < 0 then ''-'' else []) @
      num_string (c = CHR ''X'') (unat (spec_base c))
        (if is_signed c then nat \<bar>sint (ucast w :: u32)\<bar> else unat (ucast w :: u32)), va)"
proof -
  let ?f = "int_flags c 0"
  have f: "?f = 0 \<or> ?f = FLAGS_UPPERCASE" "?f = FLAGS_UPPERCASE \<longleftrightarrow> c = CHR ''X''"
    by (simp_all add: has_int_flags_plain)
  then have nf: "\<not> has ?f FLAGS_LONG_LONG" "\<not> has ?f FLAGS_LONG" "narrow_signed ?f = (\<lambda>w. w)" "narrow_unsigned ?f = (\<lambda>w. w)"
    by (auto simp: has_def narrow_signed_def narrow_unsigned_def fun_eq_iff)
  note plain = ntoa_long_plain [OF spec_base_plain [OF assms] f(1)]
  show ?thesis
    unfolding conv_int_def Let_def
    using nf plain f(2) magnitude32_nat [of "ucast w"] unat_ucast_32_64 [of "ucast w"]
    by (cases "magnitude32 (ucast w)") (simp add: va_int_def)
qed

lemma plain_char:
  "c \<in> set ''diuxXobcsp%'' \<Longrightarrow> \<not> is_digit c"
  "c \<in> set ''diuxXobcsp%'' \<Longrightarrow> c \<notin> set ''0-+ #*.lhtjz''"
  by (simp; elim disjE; simp add: is_digit_def)+

lemma conv_one_plain:
  assumes "c \<in> set ''diuxXobcsp%''"
  shows "conv_one (c # fmt) va = do { (text, va) \<leftarrow> conv_spec c 0 0 0 va; Some (text, fmt, va) }"
proof -
  have "eval_flags (c # fmt) 0 = (0, c # fmt)" "eval_width (c # fmt) 0 va = Some (0, 0, c # fmt, va)"
    "eval_precision (c # fmt) 0 va = Some (0, 0, c # fmt, va)" "eval_length (c # fmt) 0 = (0, c # fmt)"
    using plain_char [OF assms] by (simp_all add: eval_width_def eval_precision_def eval_length_def cur_def)
  then show ?thesis by (simp add: conv_one_def)
qed

lemma conv_spec_int: "c \<in> set ''diuxXob'' \<Longrightarrow> conv_spec c prec width flags va = conv_int c prec width flags va"
  by (simp add: conv_spec_def)

lemma of_char_digit: "d < 10 \<Longrightarrow> of_char (digit_char upper d) = 48 + d"
  by (simp add: digit_char_def)

lemma atoi_loop_digits:
  "\<forall>d \<in> set ds. d < 10 \<Longrightarrow>
   atoi_loop (map (digit_char upper) ds @ rest) i = atoi_loop rest (fold (\<lambda>d a. a * 10 + of_nat d) ds i)"
  by (induction ds arbitrary: i) (simp_all add: is_digit_def of_char_digit)

lemma fold_digits_value: "fold (\<lambda>d a. a * 10 + of_nat d) (rev ds) (0 :: u32) = of_nat (digits_value 10 ds)"
proof -
  have "foldr (\<lambda>d a. a * 10 + of_nat d) ds (0 :: u32) = of_nat (digits_value 10 ds)"
    by (induction ds) (simp_all add: digits_value_def)
  then show ?thesis by (simp add: foldr_conv_fold)
qed

lemma atoi_num_string:
  assumes "rest = [] \<or> \<not> is_digit (hd rest)"
  shows "atoi (num_string upper 10 n @ rest) = (of_nat n, rest)"
proof -
  have "atoi_loop (map (digit_char upper) (rev (nat_digits 10 n)) @ rest) 0 = atoi_loop rest (of_nat n)"
    using nat_digits_less [of 10 _ n] by (subst atoi_loop_digits) (auto simp: fold_digits_value nat_digits_value)
  moreover have "atoi_loop rest (of_nat n) = (of_nat n, rest)" using assms by (cases rest) auto
  ultimately show ?thesis by (simp add: atoi_def num_string_def)
qed

lemma vformat_conv_int:
  assumes "c \<in> set ''diuxXo''"
  shows "vformat (CHR ''%'' # c # fmt) (Va_word w # va) =
    map_option ((@) ((if is_signed c \<and> sint (ucast w :: u32) < 0 then ''-'' else []) @
      num_string (c = CHR ''X'') (unat (spec_base c))
        (if is_signed c then nat \<bar>sint (ucast w :: u32)\<bar> else unat (ucast w :: u32)))) (vformat fmt va)"
proof -
  have "c \<in> set ''diuxXobcsp%''" "c \<in> set ''diuxXob''" using assms by auto
  then have "conv_one (c # fmt) (Va_word w # va) = do { (text, va) \<leftarrow> conv_int c 0 0 0 (Va_word w # va); Some (text, fmt, va) }"
    by (simp only: conv_one_plain conv_spec_int)
  then show ?thesis by (simp add: conv_int_plain [OF assms])
qed

text \<open>
  C20. Integer conversions.  A plain conversion \<open>%d\<close>, \<open>%i\<close>, \<open>%u\<close>, \<open>%x\<close>, \<open>%X\<close> or \<open>%o\<close> takes one
  argument, prints its low 32 bits, read as signed for \<open>%d\<close> and \<open>%i\<close>, as a minus sign for a
  negative number and the digits of the magnitude in the base of the conversion, all of them and
  highest first, and continues with the rest of the format and of the arguments.
\<close>

theorem vformat_int:
  assumes "c \<in> set ''diuxXo''"
  shows "vformat (CHR ''%'' # c # fmt) (Va_word w # va) =
    map_option ((@) ((if is_signed c \<and> sint (ucast w :: u32) < 0 then ''-'' else []) @
      num_string (c = CHR ''X'') (unat (spec_base c))
        (if is_signed c then nat \<bar>sint (ucast w :: u32)\<bar> else unat (ucast w :: u32)))) (vformat fmt va)"
  using assms by (rule vformat_conv_int)

theorem vformat_int_witness:
  "vformat ''%d'' [Va_word 0xfffffff6] = Some ''-10'' \<and> vformat ''%x'' [Va_word 0xbeef] = Some ''beef''"
proof
  have "num_string False 10 10 = ''10''" by (simp add: num_string_def nat_digits.simps digit_char_def char_of_def bit_0)
  then show "vformat ''%d'' [Va_word 0xfffffff6] = Some ''-10''"
    using vformat_int [of "CHR ''d''" "[]" "0xfffffff6" "[]"] by (simp add: is_signed_def spec_base_def)
  have "num_string False 16 0xbeef = ''beef''" by (simp add: num_string_def nat_digits.simps digit_char_def char_of_def bit_0)
  then show "vformat ''%x'' [Va_word 0xbeef] = Some ''beef''"
    using vformat_int [of "CHR ''x''" "[]" "0xbeef" "[]"] by (simp add: is_signed_def spec_base_def)
qed

lemma word_of_nat_nat_abs: "word_of_nat (nat \<bar>sint x\<bar>) = (if sint x < 0 then - x else (x :: u32))"
proof -
  have "word_of_nat (nat \<bar>sint x\<bar>) = (word_of_int \<bar>sint x\<bar> :: u32)" by (simp only: of_nat_nat [symmetric] abs_ge_zero of_int_of_nat_eq)
  also have "\<dots> = (if sint x < 0 then word_of_int (- sint x) else word_of_int (sint x))" by (cases "sint x < 0") (simp_all only: abs_if if_True if_False)
  finally show ?thesis by simp
qed

text \<open>
  C21. Printing and parsing.  The number parser of the formatter reads back what the formatter prints:
  for every argument, \<open>%u\<close> prints a string from which \<open>_atoi\<close> reads the low 32 bits of the argument
  and leaves nothing, and so does \<open>%d\<close> for the magnitude behind the sign.
\<close>

theorem print_parse_int:
  "\<exists>s t. vformat ''%u'' [Va_word w] = Some s \<and> atoi s = (ucast w, []) \<and>
     vformat ''%d'' [Va_word w] = Some ((if sint (ucast w :: u32) < 0 then ''-'' else []) @ t) \<and>
     atoi t = (if sint (ucast w :: u32) < 0 then - ucast w else ucast w, [])"
proof -
  let ?w = "ucast w :: u32"
  have m: "word_of_nat (nat \<bar>sint ?w\<bar>) = (if sint ?w < 0 then - ?w else ?w)"
    by (simp add: word_of_nat_nat_abs)
  have u: "vformat ''%u'' [Va_word w] = Some (num_string False 10 (unat ?w))"
    using vformat_conv_int [of "CHR ''u''" "[]" w "[]"] by (simp add: is_signed_def spec_base_def)
  have d: "vformat ''%d'' [Va_word w] = Some ((if sint ?w < 0 then ''-'' else []) @ num_string False 10 (nat \<bar>sint ?w\<bar>))"
    using vformat_conv_int [of "CHR ''d''" "[]" w "[]"] by (simp add: is_signed_def spec_base_def)
  show ?thesis
    using u d atoi_num_string [of "[]" False "unat ?w"] atoi_num_string [of "[]" False "nat \<bar>sint ?w\<bar>"] m
    by (intro exI conjI) (assumption | simp)+
qed

lemma out_all_buffer:
  "out_all k_pri_out_buffer buffer idx maxlen str i =
     (if idx \<le> i \<and> i < idx + length str \<and> i < maxlen then str ! (i - idx) else buffer i)"
proof (induction str arbitrary: buffer idx)
  case (Cons c str)
  then show ?case by (cases "i = idx") (auto simp: k_pri_out_buffer_def nth_Cons' Suc_diff_le)
qed auto

text \<open>
  C22. The contract of \<open>snprintf\<close>. When the format has a result of less than 2 ^ 31
  characters, \<open>k_vsnprintf_nolock\<close> returns the length of the whole text, also when it does
  not fit. Of a buffer of \<open>count\<close> bytes, with \<open>count\<close> not 0, it writes the
  first \<open>count - 1\<close> characters of the text, or all of them if they are fewer, and a NUL
  behind them, and no byte outside; with \<open>count\<close> 0 it writes nothing.
\<close>

theorem k_vsnprintf_bounded:
  assumes "vformat fmt va = Some text" "count < 2 ^ 64" "length text < 2 ^ 31"
  shows "\<exists>buffer'. k_vsnprintf_nolock False buffer count fmt va = Some (int (length text), buffer') \<and>
    (0 < count \<longrightarrow> map buffer' [0..<Suc (min (length text) (count - 1))] = take (count - 1) text @ [NUL]) \<and>
    (\<forall>i. count \<le> i \<or> length text < i \<longrightarrow> buffer' i = buffer i)"
proof -
  let ?n = "min (length text) (count - 1)"
  let ?b = "out_all k_pri_out_buffer buffer 0 count text"
  define buffer' where "buffer' =
     k_pri_out_buffer NUL ?b (if length text < count then length text else (count + 2 ^ 64 - 1) mod 2 ^ 64) count"
  have len: "sint (of_nat (length text) :: u32) = int (length text)"
    using assms(3) by (simp add: sint_uint signed_take_bit_int_eq_self unsigned_of_nat take_bit_nat_eq_self)
  have pos: "(count + 2 ^ 64 - 1) mod 2 ^ 64 = count - 1" if "0 < count"
    using assms(2) that by (simp add: mod_if)
  have nul: "0 < count \<Longrightarrow> buffer' = ?b(?n := NUL)"
    using pos by (auto simp: buffer'_def k_pri_out_buffer_def min_def)
  have zero: "count = 0 \<Longrightarrow> buffer' = ?b" by (simp add: buffer'_def k_pri_out_buffer_def)
  have "map buffer' [0..<Suc ?n] = take (count - 1) text @ [NUL]" if "0 < count"
    using that by (intro nth_equalityI) (auto simp: nul out_all_buffer nth_append min_def)
  moreover have "buffer' i = buffer i" if "count \<le> i \<or> length text < i" for i
    using that zero nul by (cases "count = 0") (auto simp: out_all_buffer min_def)
  moreover have "k_vsnprintf_nolock False buffer count fmt va = Some (int (length text), buffer')"
    using assms(1) len by (simp add: k_vsnprintf_nolock_def k_vsnprintf_inner_def buffer'_def Let_def)
  ultimately show ?thesis by blast
qed

theorem k_vsnprintf_bounded_witness:
  "\<exists>buffer'. k_vsnprintf_nolock False (\<lambda>_. CHR ''*'') 4 ''abcdef'' [] = Some (6, buffer') \<and>
     map buffer' [0..<4] = ''abc'' @ [NUL] \<and> buffer' 4 = CHR ''*''"
proof -
  have v: "vformat ''abcdef'' [] = Some ''abcdef''" by simp
  have c: "(4 :: nat) < 2 ^ 64" "length ''abcdef'' < 2 ^ 31" by simp_all
  have n: "Suc (min (length ''abcdef'') (4 - 1)) = 4" "take (4 - 1) ''abcdef'' = ''abc''" by (simp_all add: min_def)
  from k_vsnprintf_bounded [OF v c, of "\<lambda>_. CHR ''*''", unfolded n] obtain buffer' where
    "k_vsnprintf_nolock False (\<lambda>_. CHR ''*'') 4 ''abcdef'' [] = Some (int (length ''abcdef''), buffer')"
    "map buffer' [0..<4] = ''abc'' @ [NUL]" "buffer' 4 = CHR ''*''"
    by auto
  then show ?thesis by (intro exI [of _ buffer'] conjI) simp_all
qed

text \<open>
  The end of the format.  A percent sign that ends the format has no defined result: the formatter
  takes the terminating NUL as a conversion, steps over it and reads on behind the format.
\<close>

theorem vformat_trailing_percent:
  assumes "CHR ''%'' \<notin> set fmt"
  shows "vformat (fmt @ ''%'') va = None"
proof -
  have "conv_one [] va = None" by (simp add: conv_one_def eval_width_def eval_precision_def eval_length_def cur_def is_digit_def)
  then show ?thesis using assms by (induction fmt) auto
qed

theorem vformat_trailing_percent_witness: "vformat ''100%'' [] = None"
  using vformat_trailing_percent [of "''100''" "[]"] by simp

lemma length_push: "length buf \<le> 32 \<Longrightarrow> length (push c buf) \<le> 32"
  by (simp add: push_def)

lemma length_fill_zeros: "length buf \<le> 32 \<Longrightarrow> length (fill_zeros n buf) \<le> 32"
  by (simp add: fill_zeros_def)

lemma length_ntoa_hash: "length buf \<le> 32 \<Longrightarrow> length (ntoa_hash base prec width flags buf) \<le> 32"
  by (simp add: ntoa_hash_def Let_def length_push)

lemma length_ntoa_digits: "length (ntoa_digits n v base upper) \<le> n"
  by (induction n arbitrary: v) auto

lemma length_ntoa_format: "length buf \<le> 32 \<Longrightarrow> length (snd (ntoa_format buf negative base prec width flags)) \<le> 32"
  by (simp add: ntoa_format_def Let_def length_push length_fill_zeros length_ntoa_hash)

lemma ntoa_digits_binary:
  assumes "2 ^ n \<le> unat v"
  shows "ntoa_digits n v 2 upper = map (\<lambda>i. digit_char upper (of_bool (bit v i))) [0..<n]"
  using assms
proof (induction n arbitrary: v)
  case (Suc n)
  have half: "2 ^ n \<le> unat (v div 2)" using Suc.prems by (simp add: unat_div)
  then have nz: "v div 2 \<noteq> 0" by (metis not_one_le_zero one_le_numeral one_le_power order_trans unsigned_0)
  have b0: "unat (v mod 2) = of_bool (bit v 0)" by (simp add: bit_0 odd_iff_mod_2_eq_one)
  have bs: "bit (v div 2) i = bit v (Suc i)" for i by (simp add: bit_Suc)
  have "[0..<Suc n] = 0 # map Suc [0..<n]" by (simp add: map_Suc_upt upt_conv_Cons del: upt_Suc)
  then show ?case using Suc.IH [OF half] nz by (simp only: ntoa_digits.simps b0 bs list.map map_map o_def) simp
qed simp

text \<open>
  C23. The conversion buffer.  No conversion of an integer writes behind the 32 bytes of its buffer,
  whatever value, base, precision, width and flags are: the digits fit, and filling with zeros,
  the prefix and the sign keep to what is left.  In base 2, though, the buffer is too small for the digits of
  a value of \<open>2 ^ 32\<close> or more, which loses its high digits: its plain conversion prints its low 32 bits.
\<close>

theorem ntoa_buffer_bound:
  "length (snd (ntoa_buffer v negative base prec width flags)) \<le> NTOA_BUFFER_SIZE \<and>
   (2 ^ 32 \<le> unat w \<longrightarrow>
      ntoa_long w False 2 0 0 0 = map (\<lambda>i. if bit w i then CHR ''1'' else CHR ''0'') (rev [0..<32]))"
proof
  show "length (snd (ntoa_buffer v negative base prec width flags)) \<le> NTOA_BUFFER_SIZE"
    using length_ntoa_format length_ntoa_digits [of NTOA_BUFFER_SIZE] by (simp add: ntoa_buffer_def)
  have c: "digit_char False (of_bool p) = (if p then CHR ''1'' else CHR ''0'')" for p
    by (cases p) (simp_all add: digit_char_def char_of_def bit_0)
  show "2 ^ 32 \<le> unat w \<longrightarrow>
      ntoa_long w False 2 0 0 0 = map (\<lambda>i. if bit w i then CHR ''1'' else CHR ''0'') (rev [0..<32])"
    using ntoa_digits_binary [of 32 w False]
    by (auto simp: ntoa_long_def ntoa_buffer_def ntoa_format_def fill_zeros_def k_pri_out_rev_def c rev_map simp del: upt_Suc)
qed

theorem ntoa_buffer_bound_witness:
  "ntoa_long 0x100000005 False 2 0 0 0 = map (\<lambda>i. if bit (5 :: u64) i then CHR ''1'' else CHR ''0'') (rev [0..<32])"
proof -
  have "map (\<lambda>i. if bit (0x100000005 :: u64) i then CHR ''1'' else CHR ''0'') (rev [0..<32]) =
      map (\<lambda>i. if bit (5 :: u64) i then CHR ''1'' else CHR ''0'') (rev [0..<32])" by code_simp
  then show ?thesis using ntoa_buffer_bound [of 0 False 2 0 0 0 "0x100000005"] by simp
qed

end
