(* ===== verification/Device.thy ===== *)
theory Device
  imports Kstring "HOL-Library.Monad_Syntax"
begin

section \<open>Devices, buses and drivers\<close>

text \<open>
  \<^verbatim>\<open>driver/device.c\<close>, \<^verbatim>\<open>driver/io.c\<close> and the start of the drivers in \<^verbatim>\<open>sys/init.c\<close>: the list of
  drivers, the tree of devices and buses, attaching and probing, finding a device by name and
  reading its configuration.  A table of configuration entries is the list before its terminator, each
  entry with its array of 32 words.  An operation \<open>mmap\<close> is given the device and the address: the other
  arguments are passed on unused by every driver.  Objects are numbers in stores, NULL is \<open>None\<close>.  The operations a
  driver provides are the parameter \<open>ops\<close>; they may change the whole state.  Loops over linked
  lists and the probing of the tree need not end, which is the result \<open>None\<close>, as is following a
  NULL pointer.
\<close>

type_synonym devptr = nat
type_synonym busptr = nat
type_synonym drvptr = nat

record k_driver =
  drv_vendor :: "string option"
  drv_type :: "string option"
  drv_next :: "drvptr option"

record k_device_config =
  cf_name :: string
  cf_count :: int
  cf_val :: "u64 list"

record k_device =
  dev_name :: "string option"
  dev_vendor :: string
  dev_type :: string
  dev_conf :: "k_device_config list option"
  dev_drv :: "drvptr option"
  bus_parent :: "busptr option"
  bus_child :: "busptr option"
  dev_next :: "devptr option"
  io_addr :: u64
  io_size :: u64
  dev_virt :: u64
  dev_probed :: bool
  dev_failed :: bool

record k_bus =
  bus_name :: "string option"
  bus_vendor :: string
  bus_type :: string
  bus_drv :: "drvptr option"
  dev_parent :: "devptr option"
  dev_child :: "devptr option"
  bus_next :: "busptr option"
  bus_probed :: bool
  bus_failed :: bool

record 'h dstate =
  devs :: "devptr \<Rightarrow> k_device"
  buses :: "busptr \<Rightarrow> k_bus"
  drvs :: "drvptr \<Rightarrow> k_driver"
  probe_all_enabled :: bool
  dhw :: 'h

record 'h drv_ops =
  op_dev_add :: "drvptr \<Rightarrow> (devptr \<Rightarrow> 'h dstate \<Rightarrow> int \<times> 'h dstate) option"
  op_bus_add :: "drvptr \<Rightarrow> (busptr \<Rightarrow> 'h dstate \<Rightarrow> int \<times> 'h dstate) option"
  op_dev_mmap :: "drvptr \<Rightarrow> ('h dstate \<Rightarrow> devptr \<Rightarrow> u64 \<Rightarrow> u64) option"
  op_bus_mmap :: "drvptr \<Rightarrow> ('h dstate \<Rightarrow> busptr \<Rightarrow> u64 \<Rightarrow> u64) option"

text \<open>The static objects: the head of the drivers, the root drivers, the root device and the root bus.\<close>

abbreviation (input) drv_head :: drvptr where "drv_head \<equiv> 0"
abbreviation (input) drv_root_dev :: drvptr where "drv_root_dev \<equiv> 1"
abbreviation (input) drv_root_bus :: drvptr where "drv_root_bus \<equiv> 2"
abbreviation (input) dev_root :: devptr where "dev_root \<equiv> 0"
abbreviation (input) bus_root :: busptr where "bus_root \<equiv> 0"

definition upd_dev :: "devptr \<Rightarrow> (k_device \<Rightarrow> k_device) \<Rightarrow> 'h dstate \<Rightarrow> 'h dstate" where
  "upd_dev d f s = s\<lparr>devs := (devs s)(d := f (devs s d))\<rparr>"

definition upd_bus :: "busptr \<Rightarrow> (k_bus \<Rightarrow> k_bus) \<Rightarrow> 'h dstate \<Rightarrow> 'h dstate" where
  "upd_bus b f s = s\<lparr>buses := (buses s)(b := f (buses s b))\<rparr>"

subsection \<open>Drivers\<close>

definition drv_match :: "k_driver \<Rightarrow> string \<Rightarrow> string \<Rightarrow> bool" where
  "drv_match d vendor typ =
     (case (drv_vendor d, drv_type d) of
        (Some v, Some t) \<Rightarrow> k_strcmp v vendor = 0 \<and> k_strcmp t typ = 0
      | _ \<Rightarrow> False)"

partial_function (option) find_driver ::
    "(drvptr \<Rightarrow> k_driver) \<Rightarrow> drvptr option \<Rightarrow> string \<Rightarrow> string \<Rightarrow> drvptr option option" where
  "find_driver ds p vendor typ =
     (case p of
        None \<Rightarrow> Some None
      | Some d \<Rightarrow> if drv_match (ds d) vendor typ then Some (Some d) else find_driver ds (drv_next (ds d)) vendor typ)"

definition bus_attach_driver :: "busptr \<Rightarrow> 'h dstate \<Rightarrow> (int \<times> 'h dstate) option" where
  "bus_attach_driver b s = do {
     drv \<leftarrow> find_driver (drvs s) (Some drv_head) (bus_vendor (buses s b)) (bus_type (buses s b));
     if drv = Some drv_head \<or> drv = None then Some (- EAGAIN, s)
     else Some (0, upd_bus b (bus_drv_update (\<lambda>_. drv)) s)
   }"

definition device_attach_driver :: "devptr \<Rightarrow> 'h dstate \<Rightarrow> (int \<times> 'h dstate) option" where
  "device_attach_driver d s = do {
     drv \<leftarrow> find_driver (drvs s) (Some drv_head) (dev_vendor (devs s d)) (dev_type (devs s d));
     if drv = Some drv_head \<or> drv = None then Some (- EAGAIN, s)
     else Some (0, upd_dev d (dev_drv_update (\<lambda>_. drv)) s)
   }"

subsection \<open>Probing\<close>

text \<open>The call of a driver's \<open>add\<close> operation, or success when it has none.\<close>

definition device_call_add :: "'h drv_ops \<Rightarrow> devptr \<Rightarrow> drvptr \<Rightarrow> 'h dstate \<Rightarrow> int \<times> 'h dstate" where
  "device_call_add ops d drv s =
     (case op_dev_add ops drv of
        None \<Rightarrow> (0, upd_dev d (dev_probed_update (\<lambda>_. True)) s)
      | Some f \<Rightarrow>
          let (r, s) = f d s
          in if r = 0 then (0, upd_dev d (dev_probed_update (\<lambda>_. True)) s)
             else if r = - EAGAIN then (r, s)
             else (r, upd_dev d (dev_failed_update (\<lambda>_. True)) s))"

definition bus_call_add :: "'h drv_ops \<Rightarrow> busptr \<Rightarrow> drvptr \<Rightarrow> 'h dstate \<Rightarrow> int \<times> 'h dstate" where
  "bus_call_add ops b drv s =
     (case op_bus_add ops drv of
        None \<Rightarrow> (0, upd_bus b (bus_probed_update (\<lambda>_. True)) s)
      | Some f \<Rightarrow>
          let (r, s) = f b s
          in if r = 0 then (0, upd_bus b (bus_probed_update (\<lambda>_. True)) s)
             else if r = - EAGAIN then (r, s)
             else (r, upd_bus b (bus_failed_update (\<lambda>_. True)) s))"

definition device_prepare :: "'h drv_ops \<Rightarrow> devptr \<Rightarrow> 'h dstate \<Rightarrow> (int \<times> 'h dstate) option" where
  "device_prepare ops d s = do {
     s \<leftarrow> (if dev_drv (devs s d) = None then map_option snd (device_attach_driver d s) else Some s);
     Some (case dev_drv (devs s d) of
       None \<Rightarrow> (- EAGAIN, s)
     | Some drv \<Rightarrow> if dev_probed (devs s d) then (0, s) else device_call_add ops d drv s)
   }"

definition bus_prepare :: "'h drv_ops \<Rightarrow> busptr \<Rightarrow> 'h dstate \<Rightarrow> (int \<times> 'h dstate) option" where
  "bus_prepare ops b s = do {
     s \<leftarrow> (if bus_drv (buses s b) = None then map_option snd (bus_attach_driver b s) else Some s);
     Some (case bus_drv (buses s b) of
       None \<Rightarrow> (0, s)
     | Some drv \<Rightarrow> if bus_probed (buses s b) then (0, s) else bus_call_add ops b drv s)
   }"

text \<open>
  \<open>device_probe\<close>, \<open>bus_probe\<close> and the loop over the devices of a bus call each other: one function
  with a case for each, the loop with the next device and the result so far.
\<close>

datatype probe_call = P_device devptr | P_bus busptr | P_loop "devptr option" int

partial_function (option) probe ::
    "'h drv_ops \<Rightarrow> probe_call \<Rightarrow> 'h dstate \<Rightarrow> (int \<times> 'h dstate) option" where
  "probe ops c s =
     (case c of
        P_device d \<Rightarrow> do {
          (r, s) \<leftarrow> device_prepare ops d s;
          if r \<noteq> 0 then Some (r, s)
          else if dev_probed (devs s d)
          then (case bus_child (devs s d) of None \<Rightarrow> Some (0, s) | Some b \<Rightarrow> probe ops (P_bus b) s)
          else Some (0, s)
        }
      | P_bus b \<Rightarrow> do {
          (r, s) \<leftarrow> bus_prepare ops b s;
          if r \<noteq> 0 then Some (r, s)
          else probe ops (P_loop (dev_child (buses s b)) 0) s
        }
      | P_loop p r \<Rightarrow>
          (case p of
             None \<Rightarrow> Some (r, s)
           | Some d \<Rightarrow> do {
               (q, s) \<leftarrow> probe ops (P_device d) s;
               if IS_ERROR q then Some (q, s)
               else probe ops (P_loop (dev_next (devs s d)) (if q = - EAGAIN then - EAGAIN else r)) s
             }))"

definition device_probe :: "'h drv_ops \<Rightarrow> devptr \<Rightarrow> 'h dstate \<Rightarrow> (int \<times> 'h dstate) option" where
  "device_probe ops d = probe ops (P_device d)"

definition bus_probe :: "'h drv_ops \<Rightarrow> busptr \<Rightarrow> 'h dstate \<Rightarrow> (int \<times> 'h dstate) option" where
  "bus_probe ops b = probe ops (P_bus b)"

definition k_device_probe_all :: "'h drv_ops \<Rightarrow> 'h dstate \<Rightarrow> (int \<times> 'h dstate) option" where
  "k_device_probe_all ops s =
     (if \<not> probe_all_enabled s then Some (- EAGAIN, s) else device_probe ops dev_root s)"

subsection \<open>Registration\<close>

text \<open>The scan of \<open>k_driver_add\<close>: the last driver of the list, or \<open>None\<close> when the type is registered.\<close>

partial_function (option) scan_drivers ::
    "(drvptr \<Rightarrow> k_driver) \<Rightarrow> string \<Rightarrow> string \<Rightarrow> drvptr \<Rightarrow> drvptr option option" where
  "scan_drivers ds vendor typ d =
     (if drv_match (ds d) vendor typ then Some None
      else case drv_next (ds d) of None \<Rightarrow> Some (Some d) | Some e \<Rightarrow> scan_drivers ds vendor typ e)"

definition k_driver_add :: "'h drv_ops \<Rightarrow> drvptr \<Rightarrow> 'h dstate \<Rightarrow> (int \<times> 'h dstate) option" where
  "k_driver_add ops d s =
     (case (drv_vendor (drvs s d), drv_type (drvs s d)) of
        (Some v, Some t) \<Rightarrow> do {
          last \<leftarrow> scan_drivers (drvs s) v t drv_head;
          case last of
            None \<Rightarrow> Some (- EINVAL, s)
          | Some l \<Rightarrow> do {
              (_, s) \<leftarrow> k_device_probe_all ops (s\<lparr>drvs := (drvs s)(l := (drvs s l)\<lparr>drv_next := Some d\<rparr>)\<rparr>);
              Some (0, s)
            }
        }
      | _ \<Rightarrow> Some (- EINVAL, s))"

partial_function (option) last_device :: "(devptr \<Rightarrow> k_device) \<Rightarrow> devptr \<Rightarrow> devptr option" where
  "last_device dv d = (case dev_next (dv d) of None \<Rightarrow> Some d | Some e \<Rightarrow> last_device dv e)"

partial_function (option) last_bus :: "(busptr \<Rightarrow> k_bus) \<Rightarrow> busptr \<Rightarrow> busptr option" where
  "last_bus bv b = (case bus_next (bv b) of None \<Rightarrow> Some b | Some e \<Rightarrow> last_bus bv e)"

definition link_device :: "devptr \<Rightarrow> busptr \<Rightarrow> 'h dstate \<Rightarrow> 'h dstate option" where
  "link_device d b s = do {
     s \<leftarrow> (case dev_child (buses s b) of
            None \<Rightarrow> Some (upd_bus b (dev_child_update (\<lambda>_. Some d)) s)
          | Some c \<Rightarrow> do {
              l \<leftarrow> last_device (devs s) c;
              Some (upd_dev l (dev_next_update (\<lambda>_. Some d)) s)
            });
     Some (upd_dev d (bus_parent_update (\<lambda>_. Some b)) s)
   }"

definition k_device_add ::
    "'h drv_ops \<Rightarrow> devptr option \<Rightarrow> busptr option \<Rightarrow> 'h dstate \<Rightarrow> (int \<times> 'h dstate) option" where
  "k_device_add ops dev parent s =
     (case (dev, parent) of
        (Some d, Some b) \<Rightarrow>
          if dev_name (devs s d) = None \<or> bus_parent (devs s d) \<noteq> None then Some (- EINVAL, s)
          else do {
            s \<leftarrow> link_device d b s;
            (_, s) \<leftarrow> k_device_probe_all ops s;
            Some (0, s)
          }
      | _ \<Rightarrow> Some (- EINVAL, s))"

definition k_device_remove :: "devptr option \<Rightarrow> int" where
  "k_device_remove dev = (if dev = None then - EINVAL else - ENOTSUP)"

definition link_bus :: "busptr \<Rightarrow> devptr \<Rightarrow> 'h dstate \<Rightarrow> 'h dstate option" where
  "link_bus b d s = do {
     s \<leftarrow> (case bus_child (devs s d) of
            None \<Rightarrow> Some (upd_dev d (bus_child_update (\<lambda>_. Some b)) s)
          | Some c \<Rightarrow> do {
              l \<leftarrow> last_bus (buses s) c;
              Some (upd_bus l (bus_next_update (\<lambda>_. Some b)) s)
            });
     Some (upd_bus b (dev_parent_update (\<lambda>_. Some d)) s)
   }"

definition k_bus_add ::
    "'h drv_ops \<Rightarrow> busptr option \<Rightarrow> devptr option \<Rightarrow> 'h dstate \<Rightarrow> (int \<times> 'h dstate) option" where
  "k_bus_add ops bus parent s =
     (case (bus, parent) of
        (Some b, Some d) \<Rightarrow>
          if bus_name (buses s b) = None \<or> dev_parent (buses s b) \<noteq> None then Some (- EINVAL, s)
          else do {
            s \<leftarrow> link_bus b d s;
            (_, s) \<leftarrow> k_device_probe_all ops s;
            Some (0, s)
          }
      | _ \<Rightarrow> Some (- EINVAL, s))"

definition k_bus_remove :: "busptr option \<Rightarrow> int" where
  "k_bus_remove bus = (if bus = None then - EINVAL else - ENOTSUP)"

text \<open>The registration of the roots.\<close>

definition bus_init :: "'h drv_ops \<Rightarrow> 'h dstate \<Rightarrow> (int \<times> 'h dstate) option" where
  "bus_init ops s = do {
     (_, s) \<leftarrow> k_driver_add ops drv_root_bus s;
     (_, s) \<leftarrow> k_bus_add ops (Some bus_root) (Some dev_root) s;
     (_, s) \<leftarrow> k_driver_add ops drv_root_dev s;
     Some (0, s)
   }"

subsection \<open>Lookup and configuration\<close>

partial_function (option) find_in :: "'h dstate \<Rightarrow> string \<Rightarrow> devptr option \<Rightarrow> (int \<times> devptr option) option" where
  "find_in s name p =
     (case p of
        None \<Rightarrow> Some (- ENODEV, None)
      | Some d \<Rightarrow>
          (case dev_name (devs s d) of
             None \<Rightarrow> None
           | Some n \<Rightarrow>
               if k_strcasecmp name n = 0
               then Some (if dev_probed (devs s d) then (0, Some d) else (- EAGAIN, None))
               else
                 (case (if dev_probed (devs s d) then bus_child (devs s d) else None) of
                    Some b \<Rightarrow> find_in s name (dev_child (buses s b))
                  | None \<Rightarrow> find_in s name (dev_next (devs s d)))))"

definition k_bus_find_device :: "'h dstate \<Rightarrow> busptr option \<Rightarrow> string option \<Rightarrow> (int \<times> devptr option) option" where
  "k_bus_find_device s bus name =
     (case (bus, name) of
        (Some b, Some n) \<Rightarrow> find_in s n (dev_child (buses s b))
      | _ \<Rightarrow> Some (- EINVAL, None))"

fun find_conf_loop :: "string \<Rightarrow> k_device_config list \<Rightarrow> int \<Rightarrow> int" where
  "find_conf_loop name [] i = - 1"
| "find_conf_loop name (c # cs) i = (if k_strcasecmp name (cf_name c) = 0 then i else find_conf_loop name cs (i + 1))"

definition device_find_conf :: "k_device option \<Rightarrow> string option \<Rightarrow> int" where
  "device_find_conf dev name =
     (case (dev, name) of
        (Some d, Some n) \<Rightarrow> (case dev_conf d of None \<Rightarrow> - EINVAL | Some cs \<Rightarrow> find_conf_loop n cs 0)
      | _ \<Rightarrow> - EINVAL)"

definition conf_entry :: "k_device option \<Rightarrow> int \<Rightarrow> k_device_config" where
  "conf_entry dev i = the (dev_conf (the dev)) ! nat i"

definition k_device_get_conf_length :: "k_device option \<Rightarrow> string option \<Rightarrow> int \<times> int option" where
  "k_device_get_conf_length dev name =
     (let i = device_find_conf dev name
      in if i < 0 then (- EINVAL, None) else (0, Some (cf_count (conf_entry dev i))))"

text \<open>
  The value read, as the address-sized word of the table; a negative index reads outside of the
  table, which has no defined result.  A string is such a word, the address of its first character.
\<close>

definition read_conf :: "k_device option \<Rightarrow> string option \<Rightarrow> int \<Rightarrow> (int \<times> u64 option) option" where
  "read_conf dev name index =
     (let i = device_find_conf dev name; c = conf_entry dev i
      in if i < 0 then Some (- EINVAL, None)
         else if cf_count c \<le> index then Some (- EINVAL, None)
         else if 0 \<le> index \<and> nat index < length (cf_val c) then Some (0, Some (cf_val c ! nat index))
         else None)"

definition k_device_read_conf_u32 :: "k_device option \<Rightarrow> string option \<Rightarrow> int \<Rightarrow> (int \<times> u32 option) option" where
  "k_device_read_conf_u32 dev name index = do {
     (r, v) \<leftarrow> read_conf dev name index;
     Some (r, map_option ucast v)
   }"

definition k_device_read_conf_u64 :: "k_device option \<Rightarrow> string option \<Rightarrow> int \<Rightarrow> (int \<times> u64 option) option" where
  "k_device_read_conf_u64 = read_conf"

definition k_device_read_conf_str :: "k_device option \<Rightarrow> string option \<Rightarrow> int \<Rightarrow> (int \<times> u64 option) option" where
  "k_device_read_conf_str = read_conf"

text \<open>A reference to a device and a number, the entries \<open>2 * index\<close> and \<open>2 * index + 1\<close> of a table.\<close>

definition conf_ref ::
    "(u64 \<Rightarrow> string) \<Rightarrow> string \<Rightarrow> 'd dstate \<Rightarrow> k_device \<Rightarrow> int \<Rightarrow> (int \<times> (devptr \<times> u32) option) option" where
  "conf_ref cstr key s dev index = do {
     (r, a) \<leftarrow> k_device_read_conf_str (Some dev) (Some key) (index * 2);
     if r \<noteq> 0 then Some (- EINVAL, None)
     else do {
       (r, v) \<leftarrow> k_device_read_conf_u32 (Some dev) (Some key) (index * 2 + 1);
       if r \<noteq> 0 then Some (- EINVAL, None)
       else do {
         a \<leftarrow> a;
         (r, t) \<leftarrow> k_bus_find_device s (Some bus_root) (Some (cstr a));
         if r = - EAGAIN then Some (- EAGAIN, None)
         else if r \<noteq> 0 then Some (- EINVAL, None)
         else do { t \<leftarrow> t; v \<leftarrow> v; Some (0, Some (t, v)) }
       }
     }
   }"

subsection \<open>Mapping of registers\<close>

abbreviation (input) K_IO_MAP_FAILED :: u64 where "K_IO_MAP_FAILED \<equiv> - 1"

definition k_device_driver_mmap :: "'h drv_ops \<Rightarrow> 'h dstate \<Rightarrow> devptr option \<Rightarrow> u64 \<Rightarrow> u64" where
  "k_device_driver_mmap ops s dev off =
     (case dev of
        None \<Rightarrow> K_IO_MAP_FAILED
      | Some d \<Rightarrow>
          (case bus_parent (devs s d) of
             None \<Rightarrow> off
           | Some b \<Rightarrow>
               (case bus_drv (buses s b) of
                  None \<Rightarrow> off
                | Some drv \<Rightarrow> (case op_bus_mmap ops drv of None \<Rightarrow> off | Some f \<Rightarrow> f s b off))))"

definition k_bus_driver_mmap :: "'h drv_ops \<Rightarrow> 'h dstate \<Rightarrow> busptr option \<Rightarrow> u64 \<Rightarrow> u64" where
  "k_bus_driver_mmap ops s bus off =
     (case bus of
        None \<Rightarrow> K_IO_MAP_FAILED
      | Some b \<Rightarrow>
          (case dev_parent (buses s b) of
             None \<Rightarrow> off
           | Some d \<Rightarrow>
               (case dev_drv (devs s d) of
                  None \<Rightarrow> off
                | Some drv \<Rightarrow> (case op_dev_mmap ops drv of None \<Rightarrow> off | Some f \<Rightarrow> f s d off))))"

definition k_io_mmap_device :: "'h drv_ops \<Rightarrow> devptr \<Rightarrow> 'h dstate \<Rightarrow> (int \<times> 'h dstate) option" where
  "k_io_mmap_device ops d s = do {
     (r, reg) \<leftarrow> k_device_read_conf_u64 (Some (devs s d)) (Some ''reg'') 0;
     if r \<noteq> 0 then Some (- EINVAL, s)
     else do {
       reg \<leftarrow> reg;
       (r, size0) \<leftarrow> k_device_read_conf_u64 (Some (devs s d)) (Some ''reg-size'') 0;
       if r \<noteq> 0 then Some (- EINVAL, s)
       else do {
         size0 \<leftarrow> size0;
         let s' = upd_dev d (\<lambda>x. x\<lparr>io_addr := reg, io_size := size0\<rparr>) s;
             virt = (case dev_drv (devs s' d) of
                       None \<Rightarrow> K_IO_MAP_FAILED
                     | Some drv \<Rightarrow> (case op_dev_mmap ops drv of None \<Rightarrow> K_IO_MAP_FAILED | Some f \<Rightarrow> f s' d reg))
         in if virt = K_IO_MAP_FAILED then Some (- EIO, upd_dev d (dev_virt_update (\<lambda>_. 0)) s')
            else Some (0, upd_dev d (dev_virt_update (\<lambda>_. virt)) s')
       }
     }
   }"

subsection \<open>Start of the drivers\<close>

fun run_initcalls :: "('h dstate \<Rightarrow> (int \<times> 'h dstate) option) list \<Rightarrow> int \<Rightarrow> 'h dstate \<Rightarrow> (int \<times> 'h dstate) option" where
  "run_initcalls [] res s = Some (res, s)"
| "run_initcalls (f # fs) res s = do { (r, s) \<leftarrow> f s; run_initcalls fs (if r \<noteq> 0 then r else res) s }"

partial_function (option) probe_until :: "'h drv_ops \<Rightarrow> int \<Rightarrow> 'h dstate \<Rightarrow> (int \<times> 'h dstate) option" where
  "probe_until ops res s = do {
     (r, s) \<leftarrow> k_device_probe_all ops s;
     if IS_ERROR r then Some (r, s)
     else if r = - EAGAIN then probe_until ops res s
     else Some (res, s)
   }"

definition init_drivers ::
    "'h drv_ops \<Rightarrow> ('h dstate \<Rightarrow> (int \<times> 'h dstate) option) list \<Rightarrow> 'h dstate \<Rightarrow> (int \<times> 'h dstate) option" where
  "init_drivers ops calls s = do {
     (res, s) \<leftarrow> run_initcalls calls 0 (s\<lparr>probe_all_enabled := False\<rparr>);
     probe_until ops res (s\<lparr>probe_all_enabled := True\<rparr>)
   }"

subsection \<open>The tree of devices, and what drivers promise\<close>

text \<open>The tree below a device, the reference for the linked structure.\<close>

datatype dev_tree = Leaf devptr | Node devptr busptr "dev_tree list"

fun tree_dev :: "dev_tree \<Rightarrow> devptr" where
  "tree_dev (Leaf d) = d"
| "tree_dev (Node d b ts) = d"

fun tree_devs :: "dev_tree \<Rightarrow> devptr list" where
  "tree_devs (Leaf d) = [d]"
| "tree_devs (Node d b ts) = d # concat (map tree_devs ts)"

fun rep_dev :: "'h dstate \<Rightarrow> dev_tree \<Rightarrow> bool" and
    rep_list :: "'h dstate \<Rightarrow> devptr option \<Rightarrow> dev_tree list \<Rightarrow> bool" where
  "rep_dev s (Leaf d) \<longleftrightarrow> bus_child (devs s d) = None"
| "rep_dev s (Node d b ts) \<longleftrightarrow> bus_child (devs s d) = Some b \<and> rep_list s (dev_child (buses s b)) ts"
| "rep_list s p [] \<longleftrightarrow> p = None"
| "rep_list s p (t # ts) \<longleftrightarrow>
     p = Some (tree_dev t) \<and> rep_dev s t \<and> rep_list s (dev_next (devs s (tree_dev t))) ts"

fun drv_chain :: "(drvptr \<Rightarrow> k_driver) \<Rightarrow> drvptr option \<Rightarrow> drvptr list \<Rightarrow> bool" where
  "drv_chain dv p [] \<longleftrightarrow> p = None"
| "drv_chain dv p (d # ds) \<longleftrightarrow> p = Some d \<and> drv_chain dv (drv_next (dv d)) ds"

text \<open>A driver other than the head of the list is registered for the device.\<close>

definition attachable :: "(drvptr \<Rightarrow> k_driver) \<Rightarrow> drvptr list \<Rightarrow> k_device \<Rightarrow> bool" where
  "attachable dv ds x \<longleftrightarrow>
     (case find (\<lambda>p. drv_match (dv p) (dev_vendor x) (dev_type x)) ds of None \<Rightarrow> False | Some p \<Rightarrow> p \<noteq> drv_head)"

text \<open>What probing keeps: the links and names; a driver stays attached, a probed device stays probed.\<close>

definition dev_keep :: "(drvptr \<Rightarrow> k_driver) \<Rightarrow> drvptr list \<Rightarrow> k_device \<Rightarrow> k_device \<Rightarrow> bool" where
  "dev_keep dv ds x y \<longleftrightarrow>
     bus_child y = bus_child x \<and> dev_next y = dev_next x \<and> dev_name y = dev_name x \<and> dev_conf y = dev_conf x \<and>
     dev_vendor y = dev_vendor x \<and> dev_type y = dev_type x \<and>
     (dev_probed x \<longrightarrow> dev_probed y) \<and> (dev_drv x \<noteq> None \<longrightarrow> dev_drv y \<noteq> None) \<and>
     (dev_drv y \<noteq> None \<longrightarrow> dev_drv x \<noteq> None \<or> attachable dv ds x)"

definition keeps :: "drvptr list \<Rightarrow> 'h dstate \<Rightarrow> 'h dstate \<Rightarrow> bool" where
  "keeps ds s s' \<longleftrightarrow>
     drvs s' = drvs s \<and> probe_all_enabled s' = probe_all_enabled s \<and>
     (\<forall>d. dev_keep (drvs s) ds (devs s d) (devs s' d)) \<and>
     (\<forall>b. dev_child (buses s' b) = dev_child (buses s b))"

text \<open>What an \<open>add\<close> operation may change: its hardware and the mapped registers of devices.\<close>

definition frame :: "'h dstate \<Rightarrow> 'h dstate \<Rightarrow> bool" where
  "frame s s' \<longleftrightarrow>
     drvs s' = drvs s \<and> probe_all_enabled s' = probe_all_enabled s \<and> buses s' = buses s \<and>
     (\<forall>d. \<exists>a n v. devs s' d = (devs s d)\<lparr>io_addr := a, io_size := n, dev_virt := v\<rparr>)"

definition calm :: "'h drv_ops \<Rightarrow> bool" where
  "calm ops \<longleftrightarrow>
     (\<forall>p f. op_dev_add ops p = Some f \<longrightarrow> (\<forall>d s. frame s (snd (f d s)))) \<and>
     (\<forall>p f. op_bus_add ops p = Some f \<longrightarrow> (\<forall>b s. frame s (snd (f b s))))"

definition willing :: "'h drv_ops \<Rightarrow> bool" where
  "willing ops \<longleftrightarrow>
     (\<forall>p f. op_dev_add ops p = Some f \<longrightarrow> (\<forall>d s. fst (f d s) = 0)) \<and>
     (\<forall>p f. op_bus_add ops p = Some f \<longrightarrow> (\<forall>b s. fst (f b s) = 0))"

definition up :: "'h dstate \<Rightarrow> devptr \<Rightarrow> bool" where
  "up s d \<longleftrightarrow> dev_probed (devs s d) \<and> dev_drv (devs s d) \<noteq> None"

definition served :: "drvptr list \<Rightarrow> 'h dstate \<Rightarrow> devptr \<Rightarrow> bool" where
  "served ds s d \<longleftrightarrow> dev_drv (devs s d) \<noteq> None \<or> attachable (drvs s) ds (devs s d)"

text \<open>Probing a tree ends; it returns 0 only when every device is up, and does so when every device is served.\<close>

definition probe_result :: "'h drv_ops \<Rightarrow> drvptr list \<Rightarrow> 'h dstate \<Rightarrow> devptr list \<Rightarrow> int \<Rightarrow> (int \<times> 'h dstate) option \<Rightarrow> bool" where
  "probe_result ops ds s us r0 res \<longleftrightarrow>
     (\<exists>r s'. res = Some (r, s') \<and> keeps ds s s' \<and> (r = 0 \<longrightarrow> r0 = 0 \<and> (\<forall>d \<in> set us. up s' d)) \<and>
       (willing ops \<longrightarrow> r0 = 0 \<longrightarrow> (\<forall>d \<in> set us. served ds s d) \<longrightarrow> r = 0) \<and>
       (willing ops \<longrightarrow> r0 \<in> {0, - EAGAIN} \<longrightarrow> r \<in> {0, - EAGAIN}))"

subsection \<open>Probing\<close>

lemma find_driver_chain:
  assumes "drv_chain dv p ds"
  shows "find_driver dv p v t = Some (find (\<lambda>d. drv_match (dv d) v t) ds)"
  using assms by (induction dv p ds rule: drv_chain.induct) (simp_all add: find_driver.simps)

lemma attach_eq:
  assumes "drv_chain (drvs s) (Some drv_head) ds"
  shows "device_attach_driver d s =
    (let f = find (\<lambda>p. drv_match (drvs s p) (dev_vendor (devs s d)) (dev_type (devs s d))) ds
     in if attachable (drvs s) ds (devs s d) then Some (0, upd_dev d (dev_drv_update (\<lambda>_. f)) s)
        else Some (- EAGAIN, s))"
  unfolding device_attach_driver_def attachable_def Let_def find_driver_chain [OF assms]
  by (auto split: option.splits)

lemma dev_keep_refl [simp]: "dev_keep dv ds x x"
  by (simp add: dev_keep_def)

lemma dev_keep_trans: "dev_keep dv ds x y \<Longrightarrow> dev_keep dv ds y z \<Longrightarrow> dev_keep dv ds x z"
  by (auto simp: dev_keep_def attachable_def)

lemma keeps_refl [simp]: "keeps ds s s"
  by (simp add: keeps_def)

lemma keeps_trans: "keeps ds s s' \<Longrightarrow> keeps ds s' s'' \<Longrightarrow> keeps ds s s''"
  unfolding keeps_def by (auto intro: dev_keep_trans)

lemma frame_keeps:
  assumes "frame s s'"
  shows "keeps ds s s'"
proof -
  have "dev_keep (drvs s) ds (devs s d) (devs s' d)" for d
  proof -
    obtain a n v where "devs s' d = (devs s d)\<lparr>io_addr := a, io_size := n, dev_virt := v\<rparr>"
      using assms unfolding frame_def by blast
    then show ?thesis by (auto simp: dev_keep_def)
  qed
  then show ?thesis using assms by (simp add: keeps_def frame_def)
qed

lemma keeps_upd_dev:
  assumes "dev_keep (drvs s) ds (devs s d) (f (devs s d))"
  shows "keeps ds s (upd_dev d f s)"
  using assms by (simp add: keeps_def upd_dev_def)

lemma keeps_upd_bus:
  assumes "dev_child (f (buses s b)) = dev_child (buses s b)"
  shows "keeps ds s (upd_bus b f s)"
  using assms by (simp add: keeps_def upd_bus_def)

lemma keeps_rep:
  assumes "keeps ds s s'"
  shows "rep_dev s' t = rep_dev s t" and "rep_list s' p ts = rep_list s p ts"
  using assms
  by (induction s t and s p ts rule: rep_dev_rep_list.induct) (auto simp: keeps_def dev_keep_def)

lemma keeps_up: "keeps ds s s' \<Longrightarrow> up s d \<Longrightarrow> up s' d"
  by (auto simp: keeps_def dev_keep_def up_def)

lemma keeps_served: "keeps ds s s' \<Longrightarrow> served ds s' d = served ds s d"
  by (auto simp: keeps_def dev_keep_def served_def attachable_def)

lemma frame_dev: "frame s s' \<Longrightarrow> dev_drv (devs s' d) = dev_drv (devs s d) \<and> dev_probed (devs s' d) = dev_probed (devs s d)"
  unfolding frame_def by (elim conjE allE [of _ d] exE) simp

text \<open>One step of probing a device, for drivers that keep to the contract.\<close>

lemma device_call_add_spec:
  assumes "calm ops" "dev_drv (devs s d) = Some drv" "device_call_add ops d drv s = (r, s')"
  shows "keeps ds s s'" and "dev_drv (devs s' d) \<noteq> None" and "r = 0 \<Longrightarrow> dev_probed (devs s' d)"
    and "willing ops \<Longrightarrow> r = 0"
proof -
  have fr: "frame s (snd (f d s))" if "op_dev_add ops drv = Some f" for f
    using assms(1) that by (auto simp: calm_def)
  have *: "keeps ds s s' \<and> dev_drv (devs s' d) \<noteq> None \<and> (r = 0 \<longrightarrow> dev_probed (devs s' d)) \<and> (willing ops \<longrightarrow> r = 0)"
  proof (cases "op_dev_add ops drv")
    case None
    then show ?thesis
      using assms(2,3) by (auto simp: device_call_add_def upd_dev_def keeps_def dev_keep_def split: if_splits)
  next
    case (Some f)
    obtain q s1 where q: "f d s = (q, s1)" by fastforce
    have 1: "keeps ds s s1" "dev_drv (devs s1 d) = Some drv"
      using fr [OF Some] frame_keeps frame_dev [of s s1 d] assms(2) by (auto simp: q)
    have 2: "keeps ds s1 (upd_dev d (dev_probed_update (\<lambda>_. True)) s1)" "keeps ds s1 (upd_dev d (dev_failed_update (\<lambda>_. True)) s1)"
      by (rule keeps_upd_dev, simp add: dev_keep_def)+
    have 3: "willing ops \<Longrightarrow> q = 0" using Some q unfolding willing_def by (metis fst_conv)
    show ?thesis
      using assms(3) 1 3 keeps_trans [OF 1(1) 2(1)] keeps_trans [OF 1(1) 2(2)]
      by (auto simp: device_call_add_def Some q upd_dev_def split: if_splits)
  qed
  then show "keeps ds s s'" "dev_drv (devs s' d) \<noteq> None" "r = 0 \<Longrightarrow> dev_probed (devs s' d)" "willing ops \<Longrightarrow> r = 0"
    by blast+
qed

lemma device_attach_spec:
  assumes "drv_chain (drvs s) (Some drv_head) ds"
  shows "\<exists>s1. (if dev_drv (devs s d) = None then map_option snd (device_attach_driver d s) else Some s) = Some s1 \<and>
    keeps ds s s1 \<and> (served ds s d \<longrightarrow> dev_drv (devs s1 d) \<noteq> None)"
proof -
  let ?f = "find (\<lambda>p. drv_match (drvs s p) (dev_vendor (devs s d)) (dev_type (devs s d))) ds"
  consider "dev_drv (devs s d) \<noteq> None" | "dev_drv (devs s d) = None" "attachable (drvs s) ds (devs s d)"
    | "dev_drv (devs s d) = None" "\<not> attachable (drvs s) ds (devs s d)" by blast
  then show ?thesis
  proof cases
    case 2
    then have "?f \<noteq> None" by (auto simp: attachable_def split: option.splits)
    with 2 have "keeps ds s (upd_dev d (dev_drv_update (\<lambda>_. ?f)) s)"
      by (intro keeps_upd_dev) (simp add: dev_keep_def)
    with 2 \<open>?f \<noteq> None\<close> show ?thesis by (simp add: attach_eq [OF assms] Let_def upd_dev_def)
  qed (auto simp: attach_eq [OF assms] Let_def served_def)
qed

lemma bus_attach_spec:
  assumes "drv_chain (drvs s) (Some drv_head) ds"
  shows "\<exists>s1. (if bus_drv (buses s b) = None then map_option snd (bus_attach_driver b s) else Some s) = Some s1 \<and> keeps ds s s1"
  by (simp add: bus_attach_driver_def find_driver_chain [OF assms] keeps_upd_bus)

lemma device_prepare_spec:
  assumes "calm ops" "drv_chain (drvs s) (Some drv_head) ds"
  obtains r s' where "device_prepare ops d s = Some (r, s')" "keeps ds s s'" "r = 0 \<longrightarrow> up s' d"
    "willing ops \<and> served ds s d \<longrightarrow> r = 0" "willing ops \<longrightarrow> r \<in> {0, - EAGAIN}"
proof -
  obtain s1 where s1: "(if dev_drv (devs s d) = None then map_option snd (device_attach_driver d s) else Some s) = Some s1"
      "keeps ds s s1" "served ds s d \<Longrightarrow> dev_drv (devs s1 d) \<noteq> None"
    using device_attach_spec [OF assms(2), of d] by blast
  show thesis
  proof (cases "dev_drv (devs s1 d)")
    case None
    then show thesis using that [of "- EAGAIN" s1] s1 by (auto simp: device_prepare_def)
  next
    case (Some drv)
    show thesis
    proof (cases "dev_probed (devs s1 d)")
      case True
      then show thesis using that [of 0 s1] s1 Some by (auto simp: device_prepare_def up_def)
    next
      case False
      obtain r s2 where 2: "device_call_add ops d drv s1 = (r, s2)" by fastforce
      note c = device_call_add_spec [OF assms(1) Some 2]
      show thesis
        using that [of r s2] s1 Some False c 2 keeps_trans [OF s1(2) c(1)]
        by (auto simp: device_prepare_def up_def)
    qed
  qed
qed

lemma bus_call_add_spec:
  assumes "calm ops" "bus_call_add ops b drv s = (r, s')"
  shows "keeps ds s s'" and "willing ops \<Longrightarrow> r = 0"
proof -
  have *: "keeps ds s s' \<and> (willing ops \<longrightarrow> r = 0)"
  proof (cases "op_bus_add ops drv")
    case None
    then show ?thesis using assms(2) by (auto simp: bus_call_add_def upd_bus_def keeps_def)
  next
    case (Some f)
    obtain q s1 where q: "f b s = (q, s1)" by fastforce
    have "frame s s1" using assms(1) Some q unfolding calm_def by (metis snd_conv)
    then have 1: "keeps ds s s1" by (rule frame_keeps)
    have 2: "keeps ds s1 (upd_bus b (bus_probed_update (\<lambda>_. True)) s1)" "keeps ds s1 (upd_bus b (bus_failed_update (\<lambda>_. True)) s1)"
      by (rule keeps_upd_bus, simp)+
    have 3: "willing ops \<Longrightarrow> q = 0" using Some q unfolding willing_def by (metis fst_conv)
    show ?thesis
      using assms(2) 1 3 keeps_trans [OF 1 2(1)] keeps_trans [OF 1 2(2)]
      by (auto simp: bus_call_add_def Some q split: if_splits)
  qed
  then show "keeps ds s s'" "willing ops \<Longrightarrow> r = 0" by blast+
qed

lemma bus_prepare_spec:
  assumes "calm ops" "drv_chain (drvs s) (Some drv_head) ds"
  obtains r s' where "bus_prepare ops b s = Some (r, s')" "keeps ds s s'" "willing ops \<longrightarrow> r = 0"
proof -
  obtain s1 where s1: "(if bus_drv (buses s b) = None then map_option snd (bus_attach_driver b s) else Some s) = Some s1"
      "keeps ds s s1"
    using bus_attach_spec [OF assms(2), of b] by blast
  show thesis
  proof (cases "bus_drv (buses s1 b)")
    case None
    then show thesis using that [of 0 s1] s1 by (auto simp: bus_prepare_def)
  next
    case (Some drv)
    obtain r s2 where 2: "bus_call_add ops b drv s1 = (r, s2)" by fastforce
    show thesis
      using that [of 0 s1] that [of r s2] s1 Some 2 bus_call_add_spec [OF assms(1) 2]
        keeps_trans [OF s1(2) bus_call_add_spec(1) [OF assms(1) 2]]
      by (cases "bus_probed (buses s1 b)") (auto simp: bus_prepare_def)
  qed
qed

lemma probe_list:
  assumes "\<And>t s. t \<in> set ts \<Longrightarrow> rep_dev s t \<Longrightarrow> drv_chain (drvs s) (Some drv_head) ds \<Longrightarrow>
      probe_result ops ds s (tree_devs t) 0 (probe ops (P_device (tree_dev t)) s)"
    and "rep_list s p ts" "drv_chain (drvs s) (Some drv_head) ds"
  shows "probe_result ops ds s (concat (map tree_devs ts)) r0 (probe ops (P_loop p r0) s)"
  using assms
proof (induction ts arbitrary: s p r0)
  case Nil
  then show ?case by (simp add: probe.simps [of _ "P_loop _ _"] probe_result_def)
next
  case (Cons t ts)
  have rep: "p = Some (tree_dev t)" "rep_dev s t" "rep_list s (dev_next (devs s (tree_dev t))) ts"
    using Cons.prems(2) by simp_all
  obtain q s1 where q: "probe ops (P_device (tree_dev t)) s = Some (q, s1)" "keeps ds s s1"
      "q = 0 \<Longrightarrow> \<forall>d \<in> set (tree_devs t). up s1 d"
      "willing ops \<Longrightarrow> \<forall>d \<in> set (tree_devs t). served ds s d \<Longrightarrow> q = 0" "willing ops \<Longrightarrow> q \<in> {0, - EAGAIN}"
    using Cons.prems(1) [of t, OF _ rep(2) Cons.prems(3)] unfolding probe_result_def by auto
  show ?case
  proof (cases "IS_ERROR q")
    case True
    then have "probe ops (P_loop p r0) s = Some (q, s1)"
      using q(1) rep(1) by (simp add: probe.simps [of _ "P_loop _ _"])
    then show ?thesis using True q unfolding probe_result_def IS_ERROR_def by auto
  next
    case False
    let ?q = "if q = - EAGAIN then - EAGAIN else r0"
    have eq: "probe ops (P_loop p r0) s = probe ops (P_loop (dev_next (devs s (tree_dev t))) ?q) s1"
      using q(1,2) rep(1) False by (simp add: probe.simps [of _ "P_loop (Some _) _"] keeps_def dev_keep_def)
    have "probe_result ops ds s1 (concat (map tree_devs ts)) ?q (probe ops (P_loop p r0) s)"
      unfolding eq
    proof (rule Cons.IH)
      show "rep_list s1 (dev_next (devs s (tree_dev t))) ts" using keeps_rep(2) [OF q(2)] rep(3) by simp
      show "drv_chain (drvs s1) (Some drv_head) ds" using q(2) Cons.prems(3) by (simp add: keeps_def)
    qed (use Cons.prems(1) in auto)
    then obtain r s2 where r: "probe ops (P_loop p r0) s = Some (r, s2)" "keeps ds s1 s2"
        "r = 0 \<Longrightarrow> ?q = 0 \<and> (\<forall>d \<in> set (concat (map tree_devs ts)). up s2 d)"
        "willing ops \<Longrightarrow> ?q = 0 \<Longrightarrow> \<forall>d \<in> set (concat (map tree_devs ts)). served ds s1 d \<Longrightarrow> r = 0"
        "willing ops \<Longrightarrow> ?q \<in> {0, - EAGAIN} \<Longrightarrow> r \<in> {0, - EAGAIN}"
      unfolding probe_result_def by blast
    have up: "r = 0 \<Longrightarrow> r0 = 0 \<and> (\<forall>d \<in> set (concat (map tree_devs (t # ts))). up s2 d)"
      using r(3) q(3) False keeps_up [OF r(2)] by (auto simp: IS_ERROR_def split: if_splits)
    have "willing ops \<Longrightarrow> r0 = 0 \<Longrightarrow> \<forall>d \<in> set (concat (map tree_devs (t # ts))). served ds s d \<Longrightarrow> r = 0"
      using r(4) q(4) keeps_served [OF q(2)] by auto
    then show ?thesis
      unfolding probe_result_def using r(1,5) keeps_trans [OF q(2) r(2)] up by auto
  qed
qed

lemma probe_tree:
  assumes "calm ops" "rep_dev s t" "drv_chain (drvs s) (Some drv_head) ds"
  shows "probe_result ops ds s (tree_devs t) 0 (probe ops (P_device (tree_dev t)) s)"
  using assms(2,3)
proof (induction t arbitrary: s)
  case (Leaf d)
  obtain r s1 where p: "device_prepare ops d s = Some (r, s1)" "keeps ds s s1" "r = 0 \<longrightarrow> up s1 d"
    "willing ops \<and> served ds s d \<longrightarrow> r = 0" "willing ops \<longrightarrow> r \<in> {0, - EAGAIN}"
    by (rule device_prepare_spec [OF assms(1) Leaf.prems(2), of d])
  have "bus_child (devs s1 d) = None" using p(2) Leaf.prems(1) by (simp add: keeps_def dev_keep_def)
  then have "probe ops (P_device d) s = Some (r, s1)" using p(1) by (simp add: probe.simps [of _ "P_device _"])
  then show ?case unfolding probe_result_def using p by auto
next
  case (Node d b ts)
  obtain r s1 where p: "device_prepare ops d s = Some (r, s1)" "keeps ds s s1" "r = 0 \<longrightarrow> up s1 d"
    "willing ops \<and> served ds s d \<longrightarrow> r = 0" "willing ops \<longrightarrow> r \<in> {0, - EAGAIN}"
    by (rule device_prepare_spec [OF assms(1) Node.prems(2), of d])
  have c1: "drv_chain (drvs s1) (Some drv_head) ds" using p(2) Node.prems(2) by (simp add: keeps_def)
  obtain q s2 where b: "bus_prepare ops b s1 = Some (q, s2)" "keeps ds s1 s2" "willing ops \<longrightarrow> q = 0"
    by (rule bus_prepare_spec [OF assms(1) c1, of b])
  have k: "keeps ds s s2" using keeps_trans [OF p(2) b(2)] .
  have bc: "bus_child (devs s1 d) = Some b" using p(2) Node.prems(1) by (simp add: keeps_def dev_keep_def)
  have res: "probe_result ops ds s2 (concat (map tree_devs ts)) 0 (probe ops (P_loop (dev_child (buses s2 b)) 0) s2)"
  proof (rule probe_list)
    show "rep_list s2 (dev_child (buses s2 b)) ts"
      using keeps_rep(1) [OF k, of "Node d b ts"] Node.prems(1) by simp
    show "drv_chain (drvs s2) (Some drv_head) ds" using b(2) c1 by (simp add: keeps_def)
  qed (rule Node.IH)
  consider "r \<noteq> 0" | "r = 0" "q \<noteq> 0" | "r = 0" "q = 0" by blast
  then show ?case
  proof cases
    case 1
    then have "probe ops (P_device d) s = Some (r, s1)" using p(1) by (simp add: probe.simps [of _ "P_device _"])
    then show ?thesis unfolding probe_result_def using p 1 by auto
  next
    case 2
    then have "probe ops (P_device d) s = Some (q, s2)"
      using p(1,3) b(1) bc by (simp add: probe.simps [of _ "P_device _"] probe.simps [of _ "P_bus _"] up_def)
    then show ?thesis unfolding probe_result_def using k b(3) 2 by auto
  next
    case 3
    then have "probe ops (P_device d) s = probe ops (P_loop (dev_child (buses s2 b)) 0) s2"
      using p(1,3) b(1) bc by (simp add: probe.simps [of _ "P_device _"] probe.simps [of _ "P_bus _"] up_def)
    then obtain q' s3 where e: "probe ops (P_device d) s = Some (q', s3)" "keeps ds s2 s3"
        "q' = 0 \<longrightarrow> (\<forall>d \<in> set (concat (map tree_devs ts)). up s3 d)"
        "willing ops \<longrightarrow> (\<forall>d \<in> set (concat (map tree_devs ts)). served ds s2 d) \<longrightarrow> q' = 0"
        "willing ops \<longrightarrow> q' \<in> {0, - EAGAIN}"
      using res unfolding probe_result_def by auto
    have "up s3 d" using keeps_up [OF keeps_trans [OF b(2) e(2)]] p(3) 3 by blast
    then have "q' = 0 \<longrightarrow> (\<forall>d \<in> set (tree_devs (Node d b ts)). up s3 d)" using e(3) by simp
    moreover have "willing ops \<longrightarrow> (\<forall>d \<in> set (tree_devs (Node d b ts)). served ds s d) \<longrightarrow> q' = 0"
      using e(4) by (simp add: keeps_served [OF k])
    ultimately show ?thesis
      unfolding probe_result_def using e(1,5) keeps_trans [OF k e(2)] by simp
  qed
qed

subsection \<open>States of the proofs\<close>

text \<open>The loop of \<open>init_drivers\<close> is left only when every device is served.\<close>

definition rooted :: "drvptr list \<Rightarrow> dev_tree \<Rightarrow> 'h dstate \<Rightarrow> bool" where
  "rooted ds t s \<longleftrightarrow> rep_dev s t \<and> tree_dev t = dev_root \<and> drv_chain (drvs s) (Some drv_head) ds \<and> probe_all_enabled s"

text \<open>The devices linked from a first one.\<close>

fun dev_chain :: "'h dstate \<Rightarrow> devptr option \<Rightarrow> devptr list \<Rightarrow> bool" where
  "dev_chain s p [] \<longleftrightarrow> p = None"
| "dev_chain s p (d # ds) \<longleftrightarrow> p = Some d \<and> dev_chain s (dev_next (devs s d)) ds"

text \<open>What a search of a list of trees may return.\<close>

definition found :: "'h dstate \<Rightarrow> string \<Rightarrow> devptr list \<Rightarrow> (int \<times> devptr option) option \<Rightarrow> bool" where
  "found s n us res \<longleftrightarrow>
     (\<exists>r o'. res = Some (r, o') \<and>
       (case o' of None \<Rightarrow> r = - ENODEV \<or> r = - EAGAIN
        | Some d \<Rightarrow> r = 0 \<and> d \<in> set us \<and> dev_probed (devs s d) \<and> k_strcasecmp n (the (dev_name (devs s d))) = 0))"

text \<open>A root device whose bus has a device with a bus of its own, and one after it.\<close>

definition wit_device :: "string \<Rightarrow> string \<Rightarrow> busptr option \<Rightarrow> devptr option \<Rightarrow> k_device" where
  "wit_device n typ b nx = \<lparr>dev_name = Some n, dev_vendor = ''none'', dev_type = typ, dev_conf = None, dev_drv = None,
     bus_parent = None, bus_child = b, dev_next = nx, io_addr = 0, io_size = 0, dev_virt = 0,
     dev_probed = False, dev_failed = False\<rparr>"

definition wit_bus :: "string \<Rightarrow> devptr option \<Rightarrow> k_bus" where
  "wit_bus typ c = \<lparr>bus_name = Some typ, bus_vendor = ''none'', bus_type = typ, bus_drv = None, dev_parent = None,
     dev_child = c, bus_next = None, bus_probed = False, bus_failed = False\<rparr>"

definition wit_state :: "nat dstate" where
  "wit_state = \<lparr>devs = (\<lambda>d. if d = 0 then wit_device ''root'' ''dev_root'' (Some 0) None
       else if d = 1 then wit_device ''soc'' ''soc'' (Some 1) (Some 2)
       else if d = 2 then wit_device ''uart0'' ''uart'' None None
       else wit_device ''clk0'' ''clk'' None None),
     buses = (\<lambda>b. if b = 0 then wit_bus ''bus_root'' (Some 1) else wit_bus ''bus_soc'' (Some 3)),
     drvs = (\<lambda>p. if p = 0 then \<lparr>drv_vendor = Some ''none'', drv_type = Some ''none'', drv_next = Some 1\<rparr>
       else if p = 1 then \<lparr>drv_vendor = Some ''none'', drv_type = Some ''dev_root'', drv_next = Some 3\<rparr>
       else if p = 3 then \<lparr>drv_vendor = Some ''none'', drv_type = Some ''soc'', drv_next = Some 4\<rparr>
       else if p = 4 then \<lparr>drv_vendor = Some ''none'', drv_type = Some ''uart'', drv_next = Some 5\<rparr>
       else \<lparr>drv_vendor = Some ''none'', drv_type = Some ''clk'', drv_next = None\<rparr>),
     probe_all_enabled = True, dhw = 0\<rparr>"

definition wit_ops :: "nat drv_ops" where
  "wit_ops = \<lparr>op_dev_add = (\<lambda>p. if p = 4 then Some (\<lambda>d s. (0, s\<lparr>dhw := Suc (dhw s)\<rparr>)) else None),
     op_bus_add = (\<lambda>_. None), op_dev_mmap = (\<lambda>_. None), op_bus_mmap = (\<lambda>_. None)\<rparr>"

definition wit_tree :: dev_tree where
  "wit_tree = Node 0 0 [Node 1 1 [Leaf 3], Leaf 2]"

definition wit_missing :: "nat dstate" where
  "wit_missing = wit_state\<lparr>drvs := (drvs wit_state)(4 := (drvs wit_state 4)\<lparr>drv_type := Some ''spi''\<rparr>)\<rparr>"

definition wit_probed :: "nat dstate" where
  "wit_probed = wit_state\<lparr>devs := (\<lambda>d. (devs wit_state d)\<lparr>dev_probed := True\<rparr>)\<rparr>"

subsection \<open>Start, registration and search\<close>

lemma keeps_up_served:
  assumes "keeps ds s s'" "up s' d"
  shows "served ds s d"
  using assms unfolding keeps_def dev_keep_def up_def served_def by blast

lemma probe_all_tree:
  assumes "calm ops" "rep_dev s t" "tree_dev t = dev_root" "drv_chain (drvs s) (Some drv_head) ds" "probe_all_enabled s"
  shows "probe_result ops ds s (tree_devs t) 0 (k_device_probe_all ops s)"
  using probe_tree [OF assms(1,2,4)] assms(3,5) by (simp add: k_device_probe_all_def device_probe_def)

lemma rooted_keeps: "keeps ds s s' \<Longrightarrow> rooted ds t s' = rooted ds t s"
  using keeps_rep(1) [of ds s s' t] by (auto simp: rooted_def keeps_def)

lemma rooted_probe:
  assumes "calm ops" "rooted ds t s"
  shows "probe_result ops ds s (tree_devs t) 0 (k_device_probe_all ops s)"
  using probe_all_tree [OF assms(1)] assms(2) by (simp add: rooted_def)

lemma probe_until_served:
  assumes "probe_until ops res s = Some y"
  shows "calm ops \<longrightarrow> willing ops \<longrightarrow> rooted ds t s \<longrightarrow> (\<forall>d \<in> set (tree_devs t). served ds s d)"
proof (rule probe_until.raw_induct [OF _ assms], intro impI)
  fix f :: "'a drv_ops \<Rightarrow> int \<Rightarrow> 'a dstate \<Rightarrow> (int \<times> 'a dstate) option" and ops res s y
  assume IH: "\<And>ops res s y. f ops res s = Some y \<Longrightarrow>
      calm ops \<longrightarrow> willing ops \<longrightarrow> rooted ds t s \<longrightarrow> (\<forall>d \<in> set (tree_devs t). served ds s d)"
    and body: "(k_device_probe_all ops s \<bind>
      (\<lambda>(r, s). if IS_ERROR r then Some (r, s) else if r = - EAGAIN then f ops res s else Some (res, s))) = Some y"
    and hyps: "calm ops" "willing ops" "rooted ds t s"
  obtain r s' where r: "k_device_probe_all ops s = Some (r, s')" "keeps ds s s'"
      "r = 0 \<longrightarrow> (\<forall>d \<in> set (tree_devs t). up s' d)" "r \<in> {0, - EAGAIN}"
    using rooted_probe [OF hyps(1,3)] hyps(2) unfolding probe_result_def by auto
  show "\<forall>d \<in> set (tree_devs t). served ds s d"
  proof (cases "r = 0")
    case True
    then show ?thesis using r(3) keeps_up_served [OF r(2)] by blast
  next
    case False
    then have "f ops res s' = Some y" using body r(1,4) by (auto simp: IS_ERROR_def)
    from IH [OF this] show ?thesis
      using hyps by (simp add: rooted_keeps [OF r(2)] keeps_served [OF r(2)])
  qed
qed

lemma probe_until_done:
  assumes "calm ops" "willing ops" "rooted ds t s" "\<forall>d \<in> set (tree_devs t). served ds s d"
  shows "\<exists>s'. probe_until ops res s = Some (res, s') \<and> (\<forall>d \<in> set (tree_devs t). up s' d)"
proof -
  obtain s' where "k_device_probe_all ops s = Some (0, s')" "\<forall>d \<in> set (tree_devs t). up s' d"
    using rooted_probe [OF assms(1,3)] assms(2,4) unfolding probe_result_def by auto
  then show ?thesis by (simp add: probe_until.simps IS_ERROR_def)
qed

text \<open>
  C24. Probing a device whose tree of devices is finite and whose drivers keep to their contract ends.  It
  returns 0 only when every device of the tree has a driver and is probed, it does return 0 when there
  is a driver for each of them and no driver refuses, and it never takes a device down.
\<close>

theorem device_probe_tree:
  assumes "calm ops" "rep_dev s t" "drv_chain (drvs s) (Some drv_head) ds"
  shows "\<exists>r s'. device_probe ops (tree_dev t) s = Some (r, s') \<and>
    (r = 0 \<longrightarrow> (\<forall>d \<in> set (tree_devs t). up s' d)) \<and>
    (willing ops \<longrightarrow> (\<forall>d \<in> set (tree_devs t). served ds s d) \<longrightarrow> r = 0) \<and>
    (\<forall>d. up s d \<longrightarrow> up s' d) \<and> rep_dev s' t"
proof -
  obtain r s' where "device_probe ops (tree_dev t) s = Some (r, s')" "keeps ds s s'"
      "r = 0 \<longrightarrow> (\<forall>d \<in> set (tree_devs t). up s' d)"
      "willing ops \<longrightarrow> (\<forall>d \<in> set (tree_devs t). served ds s d) \<longrightarrow> r = 0"
    using probe_tree [OF assms] unfolding probe_result_def device_probe_def by auto
  then show ?thesis using keeps_up keeps_rep(1) assms(2) by blast
qed

text \<open>
  C25. With drivers that keep to their contract (their \<open>add\<close> changes only hardware and the mapped
  registers of devices) and never refuse, initcalls that return and a finite tree of devices, the start
  of the drivers ends exactly when a driver is registered for every device of the tree, and then every
  device is up; otherwise its loop runs for ever.
\<close>

theorem init_drivers_ends_iff:
  assumes "calm ops" "willing ops"
    and "run_initcalls calls 0 (s\<lparr>probe_all_enabled := False\<rparr>) = Some (res, s1)"
    and "rooted ds t (s1\<lparr>probe_all_enabled := True\<rparr>)"
  shows "((\<exists>y. init_drivers ops calls s = Some y) \<longleftrightarrow> (\<forall>d \<in> set (tree_devs t). served ds s1 d)) \<and>
    (\<forall>r s'. init_drivers ops calls s = Some (r, s') \<longrightarrow> r = res \<and> (\<forall>d \<in> set (tree_devs t). up s' d))"
proof -
  let ?s = "s1\<lparr>probe_all_enabled := True\<rparr>"
  have sv: "served ds ?s d = served ds s1 d" for d by (simp add: served_def)
  have eq: "init_drivers ops calls s = probe_until ops res ?s" by (simp add: init_drivers_def assms(3))
  have 1: "\<forall>d \<in> set (tree_devs t). served ds s1 d" if "probe_until ops res ?s = Some y" for y
    using probe_until_served [OF that, of ds t] assms(1,2,4) by (simp add: sv)
  have 2: "\<exists>s'. probe_until ops res ?s = Some (res, s') \<and> (\<forall>d \<in> set (tree_devs t). up s' d)"
    if "\<forall>d \<in> set (tree_devs t). served ds s1 d"
    by (rule probe_until_done [OF assms(1,2,4)]) (use that in \<open>simp add: sv\<close>)
  show ?thesis unfolding eq using 1 2 by fastforce
qed

lemma last_device_chain:
  assumes "dev_chain s (Some d) ds"
  shows "last_device (devs s) d = Some (last ds)"
  using assms
proof (induction ds arbitrary: d)
  case (Cons e ds)
  then show ?case by (cases ds) (auto simp: last_device.simps [of _ e])
qed simp

lemma dev_chain_frame:
  assumes "dev_chain s p ds" "\<And>e. e \<in> set ds \<Longrightarrow> dev_next (devs s' e) = dev_next (devs s e)"
  shows "dev_chain s' p ds"
  using assms by (induction s p ds rule: dev_chain.induct) auto

lemma dev_chain_append:
  assumes "dev_chain s p ds" "ds \<noteq> []" "distinct ds" "d \<notin> set ds"
    and "dev_next (devs s' (last ds)) = Some d" "dev_next (devs s' d) = None"
    and "\<And>e. e \<in> set ds \<Longrightarrow> e \<noteq> last ds \<Longrightarrow> dev_next (devs s' e) = dev_next (devs s e)"
  shows "dev_chain s' p (ds @ [d])"
  using assms
proof (induction ds arbitrary: p)
  case (Cons e ds)
  show ?case
  proof (cases "ds = []")
    case False
    then have "e \<noteq> last ds" using Cons.prems(3) last_in_set by fastforce
    then have "dev_next (devs s' e) = dev_next (devs s e)" using Cons.prems(7) [of e] False by simp
    moreover have "dev_chain s' (dev_next (devs s e)) (ds @ [d])"
      using Cons.prems False by (intro Cons.IH) auto
    ultimately show ?thesis using Cons.prems(1) by simp
  qed (use Cons.prems in auto)
qed simp

text \<open>
  Before probing is enabled, adding a named device that is on no bus appends it to the devices of
  the bus, touches no other bus and no other device, and adding it again is refused.
\<close>

theorem k_device_add_appends:
  assumes "dev_chain s (dev_child (buses s b)) ds" "distinct ds" "d \<notin> set ds"
    and "dev_name (devs s d) \<noteq> None" "bus_parent (devs s d) = None" "dev_next (devs s d) = None"
    and "\<not> probe_all_enabled s"
  shows "\<exists>s'. k_device_add ops (Some d) (Some b) s = Some (0, s') \<and>
    dev_chain s' (dev_child (buses s' b)) (ds @ [d]) \<and> bus_parent (devs s' d) = Some b \<and>
    (\<forall>b'. b' \<noteq> b \<longrightarrow> buses s' b' = buses s b') \<and> (\<forall>e. e \<notin> set ds \<and> e \<noteq> d \<longrightarrow> devs s' e = devs s e) \<and>
    (\<forall>e. \<exists>p n. devs s' e = (devs s e)\<lparr>bus_parent := p, dev_next := n\<rparr>) \<and> drvs s' = drvs s \<and> \<not> probe_all_enabled s' \<and>
    k_device_add ops (Some d) (Some b) s' = Some (- EINVAL, s')"
proof -
  define l where "l = last ds"
  define s' where "s' = upd_dev d (bus_parent_update (\<lambda>_. Some b))
    (if ds = [] then upd_bus b (dev_child_update (\<lambda>_. Some d)) s else upd_dev l (dev_next_update (\<lambda>_. Some d)) s)"
  have l: "l \<in> set ds" if "ds \<noteq> []" using that by (simp add: l_def)
  have link: "link_device d b s = Some s'"
  proof (cases ds)
    case (Cons c cs)
    then have "dev_child (buses s b) = Some c" "last_device (devs s) c = Some l"
      using assms(1) last_device_chain [of s c ds] by (simp_all add: l_def)
    then show ?thesis using Cons by (simp add: link_device_def s'_def)
  qed (use assms(1) in \<open>simp add: link_device_def s'_def\<close>)
  have chain: "dev_chain s' (dev_child (buses s' b)) (ds @ [d])"
  proof (cases "ds = []")
    case False
    then have "d \<noteq> l" using l assms(3) by blast
    then have "dev_chain s' (dev_child (buses s b)) (ds @ [d])"
      using False assms(3,6) by (intro dev_chain_append [OF assms(1) False assms(2,3)])
        (auto simp: s'_def upd_dev_def l_def)
    then show ?thesis using False by (simp add: s'_def upd_dev_def)
  qed (use assms(6) in \<open>simp add: s'_def upd_dev_def upd_bus_def\<close>)
  have "k_device_add ops (Some d) (Some b) s = Some (0, s')"
    using assms(4,5,7) link by (simp add: k_device_add_def k_device_probe_all_def s'_def upd_dev_def upd_bus_def)
  moreover have "bus_parent (devs s' d) = Some b" "\<forall>b'. b' \<noteq> b \<longrightarrow> buses s' b' = buses s b'"
    "\<forall>e. e \<notin> set ds \<and> e \<noteq> d \<longrightarrow> devs s' e = devs s e"
    using l by (auto simp: s'_def upd_dev_def upd_bus_def)
  moreover then have "k_device_add ops (Some d) (Some b) s' = Some (- EINVAL, s')"
    by (simp add: k_device_add_def)
  moreover have "\<exists>p n. devs s' e = (devs s e)\<lparr>bus_parent := p, dev_next := n\<rparr>" for e
    by (cases "devs s e") (auto simp: s'_def upd_dev_def upd_bus_def)
  moreover have "drvs s' = drvs s" "\<not> probe_all_enabled s'"
    using assms(7) by (simp_all add: s'_def upd_dev_def upd_bus_def)
  ultimately show ?thesis using chain by blast
qed

lemma found_mono: "found s n us res \<Longrightarrow> set us \<subseteq> set vs \<Longrightarrow> found s n vs res"
  unfolding found_def by (elim exE conjE, intro exI conjI, assumption) (auto split: option.splits)

lemma find_in_tree:
  "rep_dev s t \<Longrightarrow> \<forall>d \<in> set (tree_devs t). dev_name (devs s d) \<noteq> None \<Longrightarrow>
     (case t of Leaf d \<Rightarrow> True | Node d b ts \<Rightarrow> found s n (concat (map tree_devs ts)) (find_in s n (dev_child (buses s b))))"
  "rep_list s p ts \<Longrightarrow> \<forall>d \<in> set (concat (map tree_devs ts)). dev_name (devs s d) \<noteq> None \<Longrightarrow>
     found s n (concat (map tree_devs ts)) (find_in s n p)"
proof (induction s t and s p ts rule: rep_dev_rep_list.induct)
  case (3 s p)
  then show ?case by (simp add: find_in.simps found_def)
next
  case (4 s p t ts)
  let ?d = "tree_dev t"
  have in_t: "?d \<in> set (tree_devs t)" by (cases t) auto
  then obtain m where m: "dev_name (devs s ?d) = Some m" using 4(4) by auto
  have p: "p = Some ?d" using 4(3) by simp
  have ts: "found s n (concat (map tree_devs ts)) (find_in s n (dev_next (devs s ?d)))"
    using 4 by simp
  consider "k_strcasecmp n m = 0" | "k_strcasecmp n m \<noteq> 0" "dev_probed (devs s ?d)" "bus_child (devs s ?d) \<noteq> None"
    | "k_strcasecmp n m \<noteq> 0" "\<not> (dev_probed (devs s ?d) \<and> bus_child (devs s ?d) \<noteq> None)" by blast
  then show ?case
  proof cases
    case 1
    then show ?thesis using in_t m p by (simp add: find_in.simps found_def)
  next
    case 2
    then obtain b us where t: "t = Node ?d b us" using 4(3) by (cases t) auto
    have "rep_dev s t" "\<forall>d \<in> set (tree_devs t). dev_name (devs s d) \<noteq> None" using 4(3,4) by auto
    from 4(1) [OF this] have "found s n (concat (map tree_devs us)) (find_in s n (dev_child (buses s b)))"
      by (subst (asm) t) simp
    moreover have "find_in s n p = find_in s n (dev_child (buses s b))"
      using 2 m p 4(3) t by (subst find_in.simps) (cases t, auto)
    moreover have "set (concat (map tree_devs us)) \<subseteq> set (concat (map tree_devs (t # ts)))"
      using arg_cong [OF t, of tree_devs] by auto
    ultimately show ?thesis using found_mono by metis
  next
    case 3
    then have "find_in s n p = find_in s n (dev_next (devs s ?d))"
      using m p by (subst find_in.simps) (auto split: option.splits)
    then show ?thesis using found_mono [OF ts] by simp
  qed
qed simp_all

text \<open>
  The search for a device ends; a device it returns is in the tree below the bus, is probed and has
  the given name up to case, and otherwise the result is \<open>-ENODEV\<close> or \<open>-EAGAIN\<close>.
\<close>

theorem k_bus_find_device_sound:
  assumes "rep_list s (dev_child (buses s b)) ts" "\<forall>d \<in> set (concat (map tree_devs ts)). dev_name (devs s d) \<noteq> None"
  shows "\<exists>r o'. k_bus_find_device s (Some b) (Some n) = Some (r, o') \<and>
    (o' = None \<longrightarrow> r = - ENODEV \<or> r = - EAGAIN) \<and>
    (\<forall>d. o' = Some d \<longrightarrow> r = 0 \<and> d \<in> set (concat (map tree_devs ts)) \<and> dev_probed (devs s d) \<and>
       k_strcasecmp n (the (dev_name (devs s d))) = 0)"
  using find_in_tree(2) [OF assms, of n] by (auto simp: found_def k_bus_find_device_def split: option.splits)

lemma frame_hw: "frame s (s\<lparr>dhw := h\<rparr>)"
proof -
  have "devs s d = (devs s d)\<lparr>io_addr := io_addr (devs s d), io_size := io_size (devs s d), dev_virt := dev_virt (devs s d)\<rparr>" for d
    by simp
  then have "\<forall>d. \<exists>a n v. devs s d = (devs s d)\<lparr>io_addr := a, io_size := n, dev_virt := v\<rparr>" by blast
  then show ?thesis by (simp add: frame_def)
qed

lemma wit_calm: "calm wit_ops" "willing wit_ops"
  by (auto simp: calm_def willing_def wit_ops_def frame_hw split: if_splits)

lemma wit_rep:
  "rep_dev wit_state wit_tree" "drv_chain (drvs wit_state) (Some drv_head) [0, 1, 3, 4, 5]"
  "\<forall>d \<in> set (tree_devs wit_tree). served [0, 1, 3, 4, 5] wit_state d"
  by (simp_all add: wit_state_def wit_tree_def wit_device_def wit_bus_def served_def attachable_def drv_match_def k_strcmp_zero)

theorem device_probe_tree_witness:
  "\<exists>s'. device_probe wit_ops 0 wit_state = Some (0, s') \<and> (\<forall>d \<in> {0, 1, 2, 3}. up s' d)"
  using device_probe_tree [OF wit_calm(1) wit_rep(1,2)] wit_calm(2) wit_rep(3) by (auto simp: wit_tree_def)

lemma wit_missing_facts:
  "rooted [0, 1, 3, 4, 5] wit_tree (wit_missing\<lparr>probe_all_enabled := True\<rparr>)"
  "\<not> (\<forall>d \<in> set (tree_devs wit_tree). served [0, 1, 3, 4, 5] (wit_missing\<lparr>probe_all_enabled := False\<rparr>) d)"
  by (simp_all add: rooted_def wit_missing_def wit_state_def wit_tree_def wit_device_def wit_bus_def served_def
      attachable_def drv_match_def k_strcmp_zero)

lemma wit_rooted: "rooted [0, 1, 3, 4, 5] wit_tree (wit_state\<lparr>probe_all_enabled := True\<rparr>)"
  by (simp add: rooted_def wit_state_def wit_tree_def wit_device_def wit_bus_def)

theorem init_drivers_ends_iff_witness:
  "(\<exists>y. init_drivers wit_ops [] wit_state = Some y) \<and> init_drivers wit_ops [] wit_missing = None"
proof -
  have "\<exists>y. init_drivers wit_ops [] wit_state = Some y"
    using init_drivers_ends_iff [OF wit_calm, of "[]" wit_state 0 "wit_state\<lparr>probe_all_enabled := False\<rparr>"] wit_rooted wit_rep(3)
    by (simp add: served_def)
  moreover have "\<not> (\<exists>y. init_drivers wit_ops [] wit_missing = Some y)"
    using init_drivers_ends_iff [OF wit_calm, of "[]" wit_missing 0 "wit_missing\<lparr>probe_all_enabled := False\<rparr>"] wit_missing_facts
    by simp
  ultimately show ?thesis by (metis option.exhaust)
qed

theorem k_device_add_appends_witness:
  "\<exists>s'. k_device_add wit_ops (Some 3) (Some 0) (wit_state\<lparr>probe_all_enabled := False\<rparr>) = Some (0, s') \<and>
     dev_chain s' (dev_child (buses s' 0)) [1, 2, 3]"
  using k_device_add_appends [of "wit_state\<lparr>probe_all_enabled := False\<rparr>" 0 "[1, 2]" 3 wit_ops]
  by (auto simp: wit_state_def wit_device_def wit_bus_def)

theorem k_bus_find_device_sound_witness:
  "k_bus_find_device wit_probed (Some 0) (Some ''CLK0'') = Some (0, Some 3) \<and> dev_probed (devs wit_probed 3)"
proof -
  have "k_bus_find_device wit_probed (Some 0) (Some ''CLK0'') = Some (0, Some 3)"
    by (simp add: k_bus_find_device_def find_in.simps k_tolower_def k_isupper_def wit_probed_def wit_state_def wit_device_def wit_bus_def)
  then show ?thesis
    using k_bus_find_device_sound [of wit_probed 0 "[Node 1 1 [Leaf 3], Leaf 2]" "''CLK0''"]
    by (auto simp: wit_probed_def wit_state_def wit_device_def wit_bus_def)
qed

text \<open>The search does not come back to the devices after one that has a bus.\<close>

theorem k_bus_find_device_skips:
  "rep_list wit_probed (dev_child (buses wit_probed 0)) [Node 1 1 [Leaf 3], Leaf 2] \<and>
   dev_probed (devs wit_probed 2) \<and> dev_name (devs wit_probed 2) = Some ''uart0'' \<and>
   k_bus_find_device wit_probed (Some 0) (Some ''uart0'') = Some (- ENODEV, None)"
  by (simp add: k_bus_find_device_def find_in.simps k_tolower_def k_isupper_def wit_probed_def wit_state_def wit_device_def wit_bus_def)

end
