(* ===== verification/Printk.thy ===== *)
theory Printk
  imports Arch Lock Kstring Vsprintf
begin

section \<open>Console output\<close>

text \<open>
  \<^verbatim>\<open>sys/printk.c\<close>: the console with its lock, the critical section with local interrupts disabled
  around every access, and the printing functions.  The functions that read and write a character
  belong to a driver; they act on the hardware \<open>'h\<close> and may wait for ever, which is \<open>None\<close>.  \<open>char\<close> is
  unsigned on this architecture.  Every function takes the number of the hart that runs it.
\<close>

abbreviation (input) EOF :: int where "EOF \<equiv> - 1"

record 'h console =
  pri_lock :: k_spinlock
  con_csr :: csr
  con_mem :: memory
  con_hw :: 'h
  getchar_in :: "'h \<Rightarrow> (int \<times> 'h) option"
  putchar_in :: "int \<Rightarrow> 'h \<Rightarrow> (int \<times> 'h) option"

definition null_getchar :: "'h \<Rightarrow> (int \<times> 'h) option" where
  "null_getchar h = Some (EOF, h)"

definition null_putchar :: "int \<Rightarrow> 'h \<Rightarrow> (int \<times> 'h) option" where
  "null_putchar c h = Some (c mod 256, h)"

definition k_pri_set_getchar :: "('h \<Rightarrow> (int \<times> 'h) option) option \<Rightarrow> 'h console \<Rightarrow> int \<times> 'h console" where
  "k_pri_set_getchar f c = (0, c\<lparr>getchar_in := (case f of None \<Rightarrow> null_getchar | Some g \<Rightarrow> g)\<rparr>)"

definition k_pri_set_putchar :: "(int \<Rightarrow> 'h \<Rightarrow> (int \<times> 'h) option) option \<Rightarrow> 'h console \<Rightarrow> int \<times> 'h console" where
  "k_pri_set_putchar f c = (0, c\<lparr>putchar_in := (case f of None \<Rightarrow> null_putchar | Some g \<Rightarrow> g)\<rparr>)"

definition k_getchar_nolock :: "'h console \<Rightarrow> (int \<times> 'h console) option" where
  "k_getchar_nolock c = do { (v, h) \<leftarrow> getchar_in c (con_hw c); Some (v, c\<lparr>con_hw := h\<rparr>) }"

definition k_putchar_nolock :: "int \<Rightarrow> 'h console \<Rightarrow> (int \<times> 'h console) option" where
  "k_putchar_nolock v c = do { (r, h) \<leftarrow> putchar_in c v (con_hw c); Some (r, c\<lparr>con_hw := h\<rparr>) }"

fun put_all :: "int list \<Rightarrow> 'h console \<Rightarrow> 'h console option" where
  "put_all [] c = Some c"
| "put_all (v # vs) c = do { (_, c) \<leftarrow> k_putchar_nolock v c; put_all vs c }"

definition k_puts_nolock :: "string \<Rightarrow> bool \<Rightarrow> 'h console \<Rightarrow> (int \<times> 'h console) option" where
  "k_puts_nolock s newline c = do {
     c \<leftarrow> put_all (map of_char (take (k_strlen s) s)) c;
     c \<leftarrow> (if newline then map_option snd (k_putchar_nolock 10 c) else Some c);
     Some (0, c)
   }"

text \<open>The common frame of the functions that follow: local interrupts off, then the lock.\<close>

definition pri_section ::
    "int \<Rightarrow> ('h console \<Rightarrow> ('a \<times> 'h console) option) \<Rightarrow> 'h console \<Rightarrow> ('a \<times> 'h console) option" where
  "pri_section hart body c =
     (let (st, r) = k_intr_save_local (con_csr c)
      in do {
        l \<leftarrow> k_spinlock_lock hart (pri_lock c);
        (v, c) \<leftarrow> body (c\<lparr>con_csr := r, pri_lock := l\<rparr>);
        Some (v, c\<lparr>pri_lock := k_spinlock_unlock (pri_lock c), con_csr := k_intr_restore_local (con_csr c) st\<rparr>)
      })"

definition k_pri_read_stdin :: "int \<Rightarrow> u64 \<Rightarrow> u64 \<Rightarrow> 'h console \<Rightarrow> (int \<times> 'h console) option" where
  "k_pri_read_stdin hart s count = pri_section hart (\<lambda>c. do {
     (v, c) \<leftarrow> k_getchar_nolock c;
     Some (if v = EOF then (0, c) else (1, c\<lparr>con_mem := (con_mem c)(s := of_int v)\<rparr>))
   })"

definition bytes_at :: "memory \<Rightarrow> u64 \<Rightarrow> nat \<Rightarrow> int list" where
  "bytes_at m s n = map (\<lambda>i. uint (m (s + of_nat i))) [0..<n]"

text \<open>The length is returned as an \<open>int\<close>.\<close>

definition k_pri_write_stdout :: "int \<Rightarrow> u64 \<Rightarrow> u64 \<Rightarrow> 'h console \<Rightarrow> (int \<times> 'h console) option" where
  "k_pri_write_stdout hart s count = pri_section hart (\<lambda>c. do {
     c \<leftarrow> put_all (bytes_at (con_mem c) s (unat count)) c;
     Some (sint (ucast count :: u32), c)
   })"

definition k_putchar :: "int \<Rightarrow> int \<Rightarrow> 'h console \<Rightarrow> (int \<times> 'h console) option" where
  "k_putchar hart v = pri_section hart (k_putchar_nolock v)"

definition k_puts :: "int \<Rightarrow> string \<Rightarrow> 'h console \<Rightarrow> (int \<times> 'h console) option" where
  "k_puts hart s = pri_section hart (k_puts_nolock s True)"

text \<open>A character of formatted output; a character that is never accepted leaves no console.\<close>

definition put_char :: "char \<Rightarrow> 'h console option \<Rightarrow> 'h console option" where
  "put_char ch c = do { c \<leftarrow> c; map_option snd (k_putchar_nolock (of_char ch) c) }"

definition k_vprintf :: "int \<Rightarrow> string \<Rightarrow> va_arg list \<Rightarrow> 'h console \<Rightarrow> (int \<times> 'h console) option" where
  "k_vprintf hart fmt va = pri_section hart (\<lambda>c. do {
     (r, c) \<leftarrow> k_vprintf_nolock put_char fmt va (Some c);
     c \<leftarrow> c;
     Some (r, c)
   })"

definition k_printf :: "int \<Rightarrow> string \<Rightarrow> va_arg list \<Rightarrow> 'h console \<Rightarrow> (int \<times> 'h console) option" where
  "k_printf hart fmt va c = k_vprintf hart fmt va c"

definition k_vsnprintf ::
    "int \<Rightarrow> bool \<Rightarrow> (nat \<Rightarrow> char) \<Rightarrow> nat \<Rightarrow> string \<Rightarrow> va_arg list \<Rightarrow> 'h console \<Rightarrow>
     ((int \<times> (nat \<Rightarrow> char)) \<times> 'h console) option" where
  "k_vsnprintf hart null buffer count fmt va = pri_section hart (\<lambda>c. do {
     r \<leftarrow> k_vsnprintf_nolock null buffer count fmt va;
     Some (r, c)
   })"

definition k_vsprintf ::
    "int \<Rightarrow> bool \<Rightarrow> (nat \<Rightarrow> char) \<Rightarrow> string \<Rightarrow> va_arg list \<Rightarrow> 'h console \<Rightarrow>
     ((int \<times> (nat \<Rightarrow> char)) \<times> 'h console) option" where
  "k_vsprintf hart null buffer fmt va = k_vsnprintf hart null buffer (2 ^ 64 - 1) fmt va"

definition k_snprintf ::
    "int \<Rightarrow> bool \<Rightarrow> (nat \<Rightarrow> char) \<Rightarrow> nat \<Rightarrow> string \<Rightarrow> va_arg list \<Rightarrow> 'h console \<Rightarrow>
     ((int \<times> (nat \<Rightarrow> char)) \<times> 'h console) option" where
  "k_snprintf hart null buffer count fmt va c = k_vsnprintf hart null buffer count fmt va c"

definition k_sprintf ::
    "int \<Rightarrow> bool \<Rightarrow> (nat \<Rightarrow> char) \<Rightarrow> string \<Rightarrow> va_arg list \<Rightarrow> 'h console \<Rightarrow>
     ((int \<times> (nat \<Rightarrow> char)) \<times> 'h console) option" where
  "k_sprintf hart null buffer fmt va c = k_vsprintf hart null buffer fmt va c"

subsection \<open>What a section does\<close>

text \<open>The characters a driver accepts, one after the other.\<close>

fun sends :: "(int \<Rightarrow> 'h \<Rightarrow> (int \<times> 'h) option) \<Rightarrow> int list \<Rightarrow> 'h \<Rightarrow> 'h option" where
  "sends put [] h = Some h"
| "sends put (v # vs) h = do { (_, h) \<leftarrow> put v h; sends put vs h }"

definition console_free :: "'h console \<Rightarrow> bool" where
  "console_free c \<longleftrightarrow> unlocked (pri_lock c)"

lemma sends_append: "sends put (vs @ ws) h = do { h \<leftarrow> sends put vs h; sends put ws h }"
  by (induction vs arbitrary: h) (auto split: prod.splits Option.bind_splits)

lemma put_all_sends: "put_all vs c = map_option (\<lambda>h. c\<lparr>con_hw := h\<rparr>) (sends (putchar_in c) vs (con_hw c))"
  by (induction vs arbitrary: c) (auto simp: k_putchar_nolock_def split: prod.splits Option.bind_splits)

lemma con_hw_update_same [simp]: "c\<lparr>con_hw := con_hw c\<rparr> = c"
  by simp

text \<open>A section that only moves the hardware leaves interrupts and lock as they were, the lock released.\<close>

lemma pri_section_hw:
  assumes "console_free c"
    and "\<And>r l. body (c\<lparr>con_csr := r, pri_lock := l\<rparr>) = Some (v, c\<lparr>con_csr := r, pri_lock := l, con_hw := h\<rparr>)"
  shows "\<exists>l. pri_section hart body c = Some (v, c\<lparr>pri_lock := l, con_hw := h\<rparr>) \<and> unlocked l"
proof -
  let ?l = "k_spinlock_unlock ((pri_lock c)\<lparr>lock_val := 1, lock_id := hart\<rparr>)"
  have "pri_section hart body c = Some (v, c\<lparr>pri_lock := ?l, con_hw := h\<rparr>)"
    using assms by (simp add: pri_section_def k_intr_save_local_def k_intr_restore_local_def console_free_def)
  then show ?thesis by (intro exI [of _ ?l]) simp
qed

lemma pri_section_busy: "\<not> console_free c \<Longrightarrow> pri_section hart body c = None"
  by (simp add: pri_section_def k_intr_save_local_def console_free_def)

lemma out_all_char:
  "out_all (k_pri_out_char put) s i n cs = fold put (filter (\<lambda>ch. ch \<noteq> NUL) cs) s"
  by (induction cs arbitrary: s i) (simp_all add: k_pri_out_char_def)

lemma k_vprintf_nolock_eq:
  assumes "vformat fmt va = Some out"
  shows "k_vprintf_nolock put fmt va s = Some (sint (of_nat (length out) :: u32), fold put (filter (\<lambda>ch. ch \<noteq> NUL) out) s)"
  using assms by (simp add: k_vprintf_nolock_def k_vsnprintf_inner_def out_all_char) (simp add: k_pri_out_char_def)

lemma put_char_simps:
  "put_char ch None = None"
  "put_char ch (Some c) = map_option (\<lambda>(_, h). c\<lparr>con_hw := h\<rparr>) (putchar_in c (of_char ch) (con_hw c))"
  by (simp_all add: put_char_def k_putchar_nolock_def option.map_comp split: Option.bind_split prod.splits)

lemma fold_put_None: "fold put_char cs None = None"
  by (induction cs) (simp_all add: put_char_simps)

lemma fold_put_char:
  "fold put_char cs (Some c) = map_option (\<lambda>h. c\<lparr>con_hw := h\<rparr>) (sends (putchar_in c) (map of_char cs) (con_hw c))"
  by (induction cs arbitrary: c) (auto simp: put_char_simps fold_put_None split: prod.splits Option.bind_splits)

text \<open>
  Printing: with the console free and a driver that accepts the characters, \<open>k_vprintf\<close> sends exactly
  the formatted text, without its NUL characters, in order, returns its length, and leaves the interrupt
  state as it was and the lock released; with the console locked it never returns.
\<close>

theorem k_vprintf_prints:
  assumes "console_free c" "vformat fmt va = Some out" "length out < 2 ^ 31"
    and "sends (putchar_in c) (map of_char (filter (\<lambda>ch. ch \<noteq> NUL) out)) (con_hw c) = Some h"
  shows "\<exists>c'. k_vprintf hart fmt va c = Some (int (length out), c') \<and> console_free c' \<and>
    con_hw c' = h \<and> con_csr c' = con_csr c \<and> con_mem c' = con_mem c \<and>
    k_vprintf hart' fmt va (c\<lparr>pri_lock := (pri_lock c)\<lparr>lock_val := 1\<rparr>\<rparr>) = None"
proof -
  have len: "sint (of_nat (length out) :: u32) = int (length out)"
    using assms(3) by (simp add: sint_uint uint_nat unat_of_nat signed_take_bit_int_eq_self)
  have "\<exists>l. k_vprintf hart fmt va c = Some (int (length out), c\<lparr>pri_lock := l, con_hw := h\<rparr>) \<and> unlocked l"
    unfolding k_vprintf_def
    by (rule pri_section_hw [OF assms(1)]) (simp add: k_vprintf_nolock_eq [OF assms(2)] fold_put_char assms(4) len)
  moreover have "k_vprintf hart' fmt va (c\<lparr>pri_lock := (pri_lock c)\<lparr>lock_val := 1\<rparr>\<rparr>) = None"
    by (simp add: k_vprintf_def pri_section_busy console_free_def unlocked_def)
  ultimately show ?thesis by (auto simp: console_free_def)
qed

definition echo_put :: "int \<Rightarrow> int list \<Rightarrow> (int \<times> int list) option" where
  "echo_put v h = Some (v, h @ [v])"

definition echo_console :: "int list console" where
  "echo_console = \<lparr>pri_lock = lock_static, con_csr = \<lparr>csr_mstatus = 8, csr_mip = 0\<rparr>, con_mem = (\<lambda>_. 0), con_hw = [],
     getchar_in = null_getchar, putchar_in = echo_put\<rparr>"

theorem k_vprintf_prints_witness:
  "\<exists>c'. k_vprintf 0 ''ok'' [] echo_console = Some (2, c') \<and> con_hw c' = [111, 107] \<and> console_free c'"
  using k_vprintf_prints [of echo_console "''ok''" "[]" "''ok''" "[111, 107]" 0 1]
  by (auto simp: echo_console_def console_free_def echo_put_def)

end
