(* ===== verification/File.thy ===== *)
theory File
  imports Printk
begin

section \<open>Files\<close>

text \<open>
  \<^verbatim>\<open>sys/file.c\<close> and the system calls of \<^verbatim>\<open>sys/syscall.c\<close> on files: the table of descriptors of the
  process, the operations with and without the lock of the descriptor, the standard streams, and
  \<open>close\<close>, \<open>ioctl\<close>, \<open>poll\<close>, \<open>read\<close>, \<open>write\<close>, \<open>writev\<close>.  A descriptor is its number in the static table \<open>fds\<close>;
  the operations it points to are the parameter \<open>fops\<close>, which \<open>fds_ops\<close> instantiates as the static table
  does, with the operations of the GPIO driver as an argument.  Small system calls without state are at
  the end.
\<close>

record 'h fstate =
  fdset :: "nat option list"
  fd_lock :: "nat \<Rightarrow> k_spinlock"
  con :: "'h console"

record 's k_file_ops =
  fo_read :: "(int \<Rightarrow> nat \<Rightarrow> u64 \<Rightarrow> u64 \<Rightarrow> 's \<Rightarrow> (int \<times> 's) option) option"
  fo_write :: "(int \<Rightarrow> nat \<Rightarrow> u64 \<Rightarrow> u64 \<Rightarrow> 's \<Rightarrow> (int \<times> 's) option) option"
  fo_ioctl :: "(int \<Rightarrow> nat \<Rightarrow> u32 \<Rightarrow> u64 \<Rightarrow> 's \<Rightarrow> (int \<times> 's) option) option"
  fo_poll :: "(int \<Rightarrow> nat \<Rightarrow> 's \<Rightarrow> (int \<times> 's) option) option"
  fo_close :: "(int \<Rightarrow> nat \<Rightarrow> 's \<Rightarrow> (int \<times> 's) option) option"

definition k_file_get_desc :: "kconfig \<Rightarrow> int \<Rightarrow> 'h fstate \<Rightarrow> nat option" where
  "k_file_get_desc cfg fd s = (if fd < 0 \<or> int (MAX_FD cfg) \<le> fd then None else fdset s ! nat fd)"

definition k_file_set_desc :: "kconfig \<Rightarrow> int \<Rightarrow> nat option \<Rightarrow> 'h fstate \<Rightarrow> nat option \<times> 'h fstate" where
  "k_file_set_desc cfg fd desc s =
     (if fd < 0 \<or> int (MAX_FD cfg) \<le> fd then (None, s)
      else (fdset s ! nat fd, s\<lparr>fdset := (fdset s)[nat fd := desc]\<rparr>))"

subsection \<open>Operations on a descriptor\<close>

text \<open>The operation \<open>sel\<close> of a descriptor, if it has operations and this one among them.\<close>

definition fop :: "(nat \<Rightarrow> 's k_file_ops option) \<Rightarrow> ('s k_file_ops \<Rightarrow> 'o option) \<Rightarrow> nat \<Rightarrow> 'o option" where
  "fop fops sel d = Option.bind (fops d) sel"

definition with_fd_lock :: "int \<Rightarrow> nat \<Rightarrow> ('h fstate \<Rightarrow> ('a \<times> 'h fstate) option) \<Rightarrow> 'h fstate \<Rightarrow> ('a \<times> 'h fstate) option" where
  "with_fd_lock hart d body s = do {
     l \<leftarrow> k_spinlock_lock hart (fd_lock s d);
     (v, s) \<leftarrow> body (s\<lparr>fd_lock := (fd_lock s)(d := l)\<rparr>);
     Some (v, s\<lparr>fd_lock := (fd_lock s)(d := k_spinlock_unlock (fd_lock s d))\<rparr>)
   }"

definition k_file_ioctl_nolock ::
    "(nat \<Rightarrow> 'h fstate k_file_ops option) \<Rightarrow> int \<Rightarrow> nat \<Rightarrow> u32 \<Rightarrow> u64 \<Rightarrow> 'h fstate \<Rightarrow> (int \<times> 'h fstate) option" where
  "k_file_ioctl_nolock fops hart d cmd arg s =
     (case fop fops fo_ioctl d of None \<Rightarrow> Some (- EBADF, s) | Some f \<Rightarrow> f hart d cmd arg s)"

definition k_file_ioctl ::
    "(nat \<Rightarrow> 'h fstate k_file_ops option) \<Rightarrow> int \<Rightarrow> nat \<Rightarrow> u32 \<Rightarrow> u64 \<Rightarrow> 'h fstate \<Rightarrow> (int \<times> 'h fstate) option" where
  "k_file_ioctl fops hart d cmd arg = with_fd_lock hart d (k_file_ioctl_nolock fops hart d cmd arg)"

definition k_file_read_nolock ::
    "(nat \<Rightarrow> 'h fstate k_file_ops option) \<Rightarrow> int \<Rightarrow> nat \<Rightarrow> u64 \<Rightarrow> u64 \<Rightarrow> 'h fstate \<Rightarrow> (int \<times> 'h fstate) option" where
  "k_file_read_nolock fops hart d buf count s =
     (if buf = 0 then Some (- EINVAL, s)
      else if count = 0 then Some (- EINVAL, s)
      else case fop fops fo_read d of None \<Rightarrow> Some (0, s) | Some f \<Rightarrow> f hart d buf count s)"

definition k_file_read ::
    "(nat \<Rightarrow> 'h fstate k_file_ops option) \<Rightarrow> int \<Rightarrow> nat \<Rightarrow> u64 \<Rightarrow> u64 \<Rightarrow> 'h fstate \<Rightarrow> (int \<times> 'h fstate) option" where
  "k_file_read fops hart d buf count = with_fd_lock hart d (k_file_read_nolock fops hart d buf count)"

definition k_file_write_nolock ::
    "(nat \<Rightarrow> 'h fstate k_file_ops option) \<Rightarrow> int \<Rightarrow> nat \<Rightarrow> u64 \<Rightarrow> u64 \<Rightarrow> 'h fstate \<Rightarrow> (int \<times> 'h fstate) option" where
  "k_file_write_nolock fops hart d buf count s =
     (if buf = 0 then Some (- EINVAL, s)
      else if count = 0 then Some (0, s)
      else case fop fops fo_write d of None \<Rightarrow> Some (0, s) | Some f \<Rightarrow> f hart d buf count s)"

definition k_file_write ::
    "(nat \<Rightarrow> 'h fstate k_file_ops option) \<Rightarrow> int \<Rightarrow> nat \<Rightarrow> u64 \<Rightarrow> u64 \<Rightarrow> 'h fstate \<Rightarrow> (int \<times> 'h fstate) option" where
  "k_file_write fops hart d buf count = with_fd_lock hart d (k_file_write_nolock fops hart d buf count)"

subsection \<open>Standard streams\<close>

definition k_file_stdio_read :: "int \<Rightarrow> nat \<Rightarrow> u64 \<Rightarrow> u64 \<Rightarrow> 'h fstate \<Rightarrow> (int \<times> 'h fstate) option" where
  "k_file_stdio_read hart d buf count s = do {
     (r, c) \<leftarrow> k_pri_read_stdin hart buf count (con s);
     Some (r, s\<lparr>con := c\<rparr>)
   }"

definition k_file_stdio_write :: "int \<Rightarrow> nat \<Rightarrow> u64 \<Rightarrow> u64 \<Rightarrow> 'h fstate \<Rightarrow> (int \<times> 'h fstate) option" where
  "k_file_stdio_write hart d buf count s = do {
     (r, c) \<leftarrow> k_pri_write_stdout hart buf count (con s);
     Some (r, s\<lparr>con := c\<rparr>)
   }"

definition file_stdio_ops :: "'h fstate k_file_ops" where
  "file_stdio_ops =
     \<lparr>fo_read = Some k_file_stdio_read, fo_write = Some k_file_stdio_write, fo_ioctl = None, fo_poll = None, fo_close = None\<rparr>"

definition fds_ops :: "'h fstate k_file_ops option \<Rightarrow> nat \<Rightarrow> 'h fstate k_file_ops option" where
  "fds_ops gpio d = (if d < 3 then Some file_stdio_ops else if d = 3 then gpio else None)"

text \<open>\<open>gpio\<close> says that the GPIO driver is configured.\<close>

definition k_file_stdio_init :: "kconfig \<Rightarrow> bool \<Rightarrow> 'h fstate \<Rightarrow> int \<times> 'h fstate" where
  "k_file_stdio_init cfg gpio s =
     (let s = snd (k_file_set_desc cfg 0 (Some 0) s);
          s = snd (k_file_set_desc cfg 1 (Some 1) s);
          s = snd (k_file_set_desc cfg 2 (Some 2) s);
          s = (if gpio then snd (k_file_set_desc cfg 3 (Some 3) s) else s)
      in (0, s))"

subsection \<open>System calls\<close>

definition k_sys_close ::
    "kconfig \<Rightarrow> (nat \<Rightarrow> 'h fstate k_file_ops option) \<Rightarrow> int \<Rightarrow> int \<Rightarrow> 'h fstate \<Rightarrow> (int \<times> 'h fstate) option" where
  "k_sys_close cfg fops hart fd s =
     (case k_file_get_desc cfg fd s of
        None \<Rightarrow> Some (- EBADF, s)
      | Some d \<Rightarrow> do {
          (ret, s) \<leftarrow> (case fop fops fo_close d of None \<Rightarrow> Some (0, s) | Some f \<Rightarrow> f hart d s);
          Some (ret, snd (k_file_set_desc cfg fd None s))
        })"

definition k_sys_ioctl ::
    "kconfig \<Rightarrow> (nat \<Rightarrow> 'h fstate k_file_ops option) \<Rightarrow> int \<Rightarrow> u32 \<Rightarrow> u32 \<Rightarrow> u64 \<Rightarrow> 'h fstate \<Rightarrow> (int \<times> 'h fstate) option" where
  "k_sys_ioctl cfg fops hart fd cmd arg s =
     (case k_file_get_desc cfg (sint fd) s of
        None \<Rightarrow> Some (- ENOTTY, s)
      | Some d \<Rightarrow> if fop fops fo_ioctl d = None then Some (- ENOTTY, s) else k_file_ioctl fops hart d cmd arg s)"

text \<open>The descriptors polled are the array \<open>pfds\<close>, \<open>None\<close> for NULL.\<close>

definition k_sys_poll ::
    "kconfig \<Rightarrow> (nat \<Rightarrow> 'h fstate k_file_ops option) \<Rightarrow> int list option \<Rightarrow> nat \<Rightarrow> 'h fstate \<Rightarrow> int" where
  "k_sys_poll cfg fops pfds nfds s =
     (case pfds of
        None \<Rightarrow> - EFAULT
      | Some fs \<Rightarrow>
          if \<forall>fd \<in> set (take nfds fs). case k_file_get_desc cfg fd s of None \<Rightarrow> False | Some d \<Rightarrow> fop fops fo_poll d \<noteq> None
          then - ENOTSUP else - EBADF)"

definition k_sys_read ::
    "kconfig \<Rightarrow> (nat \<Rightarrow> 'h fstate k_file_ops option) \<Rightarrow> int \<Rightarrow> int \<Rightarrow> u64 \<Rightarrow> u64 \<Rightarrow> 'h fstate \<Rightarrow> (int \<times> 'h fstate) option" where
  "k_sys_read cfg fops hart fd buf count s =
     (case k_file_get_desc cfg fd s of
        None \<Rightarrow> Some (- EBADF, s)
      | Some d \<Rightarrow> if fop fops fo_read d = None then Some (- EBADF, s) else k_file_read fops hart d buf count s)"

definition k_sys_write ::
    "kconfig \<Rightarrow> (nat \<Rightarrow> 'h fstate k_file_ops option) \<Rightarrow> int \<Rightarrow> int \<Rightarrow> u64 \<Rightarrow> u64 \<Rightarrow> 'h fstate \<Rightarrow> (int \<times> 'h fstate) option" where
  "k_sys_write cfg fops hart fd buf count s =
     (case k_file_get_desc cfg fd s of
        None \<Rightarrow> Some (- EBADF, s)
      | Some d \<Rightarrow> if fop fops fo_write d = None then Some (- EBADF, s) else k_file_write fops hart d buf count s)"

text \<open>The test after a write compares its signed result with the unsigned length, as unsigned numbers.\<close>

fun writev_loop ::
    "(nat \<Rightarrow> 'h fstate k_file_ops option) \<Rightarrow> int \<Rightarrow> nat \<Rightarrow> (u64 \<times> u64) list \<Rightarrow> int \<Rightarrow> 'h fstate \<Rightarrow> (int \<times> 'h fstate) option" where
  "writev_loop fops hart d [] ret s = Some (ret, s)"
| "writev_loop fops hart d ((base, len) # iov) ret s =
     (if len = 0 then writev_loop fops hart d iov ret s
      else do {
        (wr, s) \<leftarrow> k_file_write_nolock fops hart d base len s;
        if 0 < wr then writev_loop fops hart d iov (ret + wr) s
        else if (of_int wr :: u64) < len then Some (ret, s)
        else Some (wr, s)
      })"

definition k_sys_writev ::
    "kconfig \<Rightarrow> (nat \<Rightarrow> 'h fstate k_file_ops option) \<Rightarrow> int \<Rightarrow> int \<Rightarrow> (u64 \<times> u64) list option \<Rightarrow> int \<Rightarrow> 'h fstate \<Rightarrow>
     (int \<times> 'h fstate) option" where
  "k_sys_writev cfg fops hart fd iov iovcnt s =
     (case k_file_get_desc cfg fd s of
        None \<Rightarrow> Some (- EBADF, s)
      | Some d \<Rightarrow>
          if fop fops fo_write d = None then Some (- EBADF, s)
          else case iov of
            None \<Rightarrow> Some (- EINVAL, s)
          | Some v \<Rightarrow>
              if iovcnt < 0 then Some (- EINVAL, s)
              else if iovcnt = 0 then Some (0, s)
              else with_fd_lock hart d (writev_loop fops hart d (take (nat iovcnt) v) 0) s)"

subsection \<open>Calls without state\<close>

record rlimit64 =
  rlim_cur :: u64
  rlim_max :: u64

abbreviation (input) RLIMIT_STACK :: int where "RLIMIT_STACK \<equiv> 3"

definition k_sys_unknown :: "int \<Rightarrow> int" where
  "k_sys_unknown number = - ENOTSUP"

text \<open>The second component is the limit written to \<open>old_lim\<close>, when that is not NULL.\<close>

definition k_sys_prlimit64 :: "kconfig \<Rightarrow> int \<Rightarrow> rlimit64 option \<Rightarrow> int \<times> rlimit64 option" where
  "k_sys_prlimit64 cfg resource new_lim =
     (if new_lim \<noteq> None then (- EPERM, None)
      else if resource = RLIMIT_STACK
      then (0, Some \<lparr>rlim_cur = of_nat (MAIN_STACK_SIZE cfg), rlim_max = NOT 0\<rparr>)
      else (- EINVAL, None))"

fun random_loop :: "u64 \<Rightarrow> nat \<Rightarrow> nat \<Rightarrow> memory \<Rightarrow> memory" where
  "random_loop p i 0 m = m"
| "random_loop p i (Suc n) m = random_loop p (i + 1) n (m(p + of_nat i := of_nat i))"

definition k_sys_getrandom :: "memory \<Rightarrow> u64 \<Rightarrow> u64 \<Rightarrow> int \<times> memory" where
  "k_sys_getrandom m buf buflen =
     (if buf = 0 \<or> buflen = 0 then (- EINVAL, m) else (0, random_loop buf 0 (unat buflen) m))"

definition k_sys_openat :: "int \<Rightarrow> string \<Rightarrow> int" where
  "k_sys_openat dirfd pathname = - ENOTSUP"

text \<open>\<open>uname_addr\<close> is the address of the constant table with six strings of 65 bytes.\<close>

definition k_sys_uname :: "memory \<Rightarrow> u64 \<Rightarrow> u64 \<Rightarrow> int \<times> memory" where
  "k_sys_uname m uname_addr name = (0, snd (k_memcpy m name uname_addr 390))"

subsection \<open>States of the proofs\<close>

text \<open>The descriptor \<open>fd\<close> is one of the standard streams, nobody holds its lock or the console.\<close>

definition stream :: "kconfig \<Rightarrow> int \<Rightarrow> nat \<Rightarrow> 'h fstate \<Rightarrow> bool" where
  "stream cfg fd d s \<longleftrightarrow> k_file_get_desc cfg fd s = Some d \<and> d < 3 \<and> unlocked (fd_lock s d) \<and> console_free (con s)"

definition iov_bytes :: "memory \<Rightarrow> (u64 \<times> u64) list \<Rightarrow> int list" where
  "iov_bytes m iov = concat (map (\<lambda>(base, len). bytes_at m base (unat len)) iov)"

definition iov_ok :: "(u64 \<times> u64) list \<Rightarrow> bool" where
  "iov_ok iov \<longleftrightarrow> (\<forall>(base, len) \<in> set iov. unat len < 2 ^ 31 \<and> (len \<noteq> 0 \<longrightarrow> base \<noteq> 0))"

definition echo_files :: "int list fstate" where
  "echo_files = \<lparr>fdset = replicate 4 None, fd_lock = (\<lambda>_. lock_static),
     con = echo_console\<lparr>con_mem := (\<lambda>a. ucast a), getchar_in := (\<lambda>h. Some (65, h))\<rparr>\<rparr>"

definition small_config :: kconfig where
  "small_config = riscv_qemu_virt_64\<lparr>MAX_FD := 4\<rparr>"

definition echo_open :: "int list fstate" where
  "echo_open = snd (k_file_stdio_init small_config False echo_files)"

subsection \<open>Reading and writing\<close>

lemma with_fd_lock_eq:
  assumes "unlocked (fd_lock s d)"
    and "\<And>f. f d = (fd_lock s d)\<lparr>lock_val := 1, lock_id := hart\<rparr> \<Longrightarrow>
      body (s\<lparr>fd_lock := f\<rparr>) = Some (v, s'\<lparr>fd_lock := f\<rparr>)"
  shows "\<exists>f. with_fd_lock hart d body s = Some (v, s'\<lparr>fd_lock := f\<rparr>) \<and> unlocked (f d) \<and> (\<forall>e. e \<noteq> d \<longrightarrow> f e = fd_lock s e)"
  using assms
  by (intro exI [of _ "(fd_lock s)(d := k_spinlock_unlock ((fd_lock s d)\<lparr>lock_val := 1, lock_id := hart\<rparr>))"])
    (simp add: with_fd_lock_def)

lemma with_fd_lock_busy: "\<not> unlocked (fd_lock s d) \<Longrightarrow> with_fd_lock hart d body s = None"
  by (simp add: with_fd_lock_def)

lemma fop_stdio:
  assumes "d < 3"
  shows "fop (fds_ops gpio) fo_write d = Some k_file_stdio_write" "fop (fds_ops gpio) fo_read d = Some k_file_stdio_read"
    "fop (fds_ops gpio) fo_close d = None" "fop (fds_ops gpio) fo_ioctl d = None"
  using assms by (simp_all add: fop_def fds_ops_def file_stdio_ops_def)

lemma sint_length_u32: "unat (n :: u64) < 2 ^ 31 \<Longrightarrow> sint (ucast n :: u32) = int (unat n)"
proof -
  assume n: "unat n < 2 ^ 31"
  have u: "uint n = int (unat n)" by simp
  have "unat n < 2147483648" using n by simp
  then have i: "int (unat n) < 2147483648" by linarith
  have "uint (ucast n :: u32) = take_bit 32 (uint n)" by (simp only: unsigned_ucast_eq) simp
  also have "\<dots> = int (unat n)" unfolding u by (rule take_bit_int_eq_self) (use i in simp_all)
  finally have "uint (ucast n :: u32) = int (unat n)" .
  then show ?thesis using i order_trans [OF _ uint_ge_0, of "- 2147483648" n] signed_take_bit_int_eq_self [of 31 "int (unat n)"]
    by (simp add: sint_uint)
qed

lemma k_pri_write_stdout_sends:
  assumes "console_free c" "sends (putchar_in c) (bytes_at (con_mem c) buf (unat n)) (con_hw c) = Some h" "unat n < 2 ^ 31"
  shows "\<exists>l. k_pri_write_stdout hart buf n c = Some (int (unat n), c\<lparr>pri_lock := l, con_hw := h\<rparr>) \<and> unlocked l"
  unfolding k_pri_write_stdout_def
  by (rule pri_section_hw [OF assms(1)]) (simp add: put_all_sends assms(2) sint_length_u32 [OF assms(3)])

lemma stdio_write_sends:
  assumes "d < 3" "console_free (con s)" "buf \<noteq> 0" "n \<noteq> 0" "unat n < 2 ^ 31"
    and "sends (putchar_in (con s)) (bytes_at (con_mem (con s)) buf (unat n)) (con_hw (con s)) = Some h"
  shows "\<exists>l. k_file_write_nolock (fds_ops gpio) hart d buf n s =
    Some (int (unat n), s\<lparr>con := (con s)\<lparr>pri_lock := l, con_hw := h\<rparr>\<rparr>) \<and> unlocked l"
  using k_pri_write_stdout_sends [OF assms(2,6,5), of hart] assms(1,3,4)
  by (auto simp: k_file_write_nolock_def fop_stdio k_file_stdio_write_def)

lemma writev_loop_sends:
  assumes "d < 3" "console_free (con s)" "iov_ok iov"
    and "sends (putchar_in (con s)) (iov_bytes (con_mem (con s)) iov) (con_hw (con s)) = Some h"
  shows "\<exists>l. writev_loop (fds_ops gpio) hart d iov ret s =
    Some (ret + (\<Sum>(base, len) \<leftarrow> iov. uint len), s\<lparr>con := (con s)\<lparr>pri_lock := l, con_hw := h\<rparr>\<rparr>) \<and> unlocked l"
  using assms(2-)
proof (induction iov arbitrary: s ret)
  case Nil
  then show ?case
    by (intro exI [of _ "pri_lock (con s)"]) (simp add: iov_bytes_def console_free_def)
next
  case (Cons v iov)
  obtain b n where v: "v = (b, n)" by force
  have ok: "iov_ok iov" "unat n < 2 ^ 31" "n \<noteq> 0 \<Longrightarrow> b \<noteq> 0" using Cons.prems(2) by (auto simp: iov_ok_def v)
  show ?case
  proof (cases "n = 0")
    case True
    then show ?thesis
      using Cons.IH [OF Cons.prems(1) ok(1), of ret] Cons.prems(3) by (simp add: v iov_bytes_def bytes_at_def)
  next
    case False
    obtain h1 where h1: "sends (putchar_in (con s)) (bytes_at (con_mem (con s)) b (unat n)) (con_hw (con s)) = Some h1"
        "sends (putchar_in (con s)) (iov_bytes (con_mem (con s)) iov) h1 = Some h"
      using Cons.prems(3) by (auto simp: v iov_bytes_def sends_append split: Option.bind_splits)
    obtain l where l: "k_file_write_nolock (fds_ops gpio) hart d b n s =
        Some (int (unat n), s\<lparr>con := (con s)\<lparr>pri_lock := l, con_hw := h1\<rparr>\<rparr>)" "unlocked l"
      using stdio_write_sends [OF assms(1) Cons.prems(1) _ False ok(2) h1(1)] ok(3) False by blast
    have pos: "0 < uint n" using False uint_ge_0 [of n] uint_0_iff [of n] by linarith
    let ?s = "s\<lparr>con := (con s)\<lparr>pri_lock := l, con_hw := h1\<rparr>\<rparr>"
    have "\<exists>l. writev_loop (fds_ops gpio) hart d iov (ret + int (unat n)) ?s =
        Some (ret + int (unat n) + (\<Sum>(base, len) \<leftarrow> iov. uint len), ?s\<lparr>con := (con ?s)\<lparr>pri_lock := l, con_hw := h\<rparr>\<rparr>) \<and> unlocked l"
      by (rule Cons.IH) (use ok(1) h1(2) l(2) in \<open>simp_all add: console_free_def\<close>)
    then show ?thesis using l(1) pos False by (simp add: v add.assoc)
  qed
qed

text \<open>
  C26. \<open>writev\<close> to a standard stream whose locks are free, of one or more vectors without
  NULL bases, each of less than 2 ^ 31 bytes, which the driver takes: the bytes of all the vectors are
  sent to the driver in order, the result is their number, the memory and every other descriptor are as
  before, and no lock is held.
\<close>

theorem k_sys_writev_gathers:
  assumes "stream cfg fd d s" "iov_ok iov" "iov \<noteq> []"
    and "sends (putchar_in (con s)) (iov_bytes (con_mem (con s)) iov) (con_hw (con s)) = Some h"
  shows "\<exists>s'. k_sys_writev cfg (fds_ops gpio) hart fd (Some iov) (int (length iov)) s =
      Some (\<Sum>(base, len) \<leftarrow> iov. uint len, s') \<and>
    con_hw (con s') = h \<and> con_mem (con s') = con_mem (con s) \<and> con_csr (con s') = con_csr (con s) \<and>
    fdset s' = fdset s \<and> stream cfg fd d s' \<and> (\<forall>e. e \<noteq> d \<longrightarrow> fd_lock s' e = fd_lock s e)"
proof -
  have st: "k_file_get_desc cfg fd s = Some d" "d < 3" "unlocked (fd_lock s d)" "console_free (con s)"
    using assms(1) by (simp_all add: stream_def)
  let ?r = "\<Sum>(base, len) \<leftarrow> iov. uint len"
  let ?f = "(fd_lock s)(d := (fd_lock s d)\<lparr>lock_val := 1, lock_id := hart\<rparr>)"
  obtain l where l: "writev_loop (fds_ops gpio) hart d iov 0 (s\<lparr>fd_lock := ?f\<rparr>) =
      Some (?r, s\<lparr>fd_lock := ?f, con := (con s)\<lparr>pri_lock := l, con_hw := h\<rparr>\<rparr>)" "unlocked l"
    using writev_loop_sends [OF st(2), of "s\<lparr>fd_lock := ?f\<rparr>" iov h gpio hart 0] st(4) assms(2,4) by auto
  have "k_sys_writev cfg (fds_ops gpio) hart fd (Some iov) (int (length iov)) s =
      Some (?r, s\<lparr>fd_lock := ?f(d := k_spinlock_unlock (?f d)), con := (con s)\<lparr>pri_lock := l, con_hw := h\<rparr>\<rparr>)"
    using st assms(3) l(1) by (simp add: k_sys_writev_def fop_stdio with_fd_lock_def)
  then show ?thesis
    using st l(2) by (simp add: stream_def console_free_def k_file_get_desc_def split: if_splits)
qed

lemma echo_open_simps:
  "fdset echo_open = [Some 0, Some 1, Some 2, None]" "fd_lock echo_open = (\<lambda>_. lock_static)"
  "con echo_open = echo_console\<lparr>con_mem := (\<lambda>a. ucast a), getchar_in := (\<lambda>h. Some (65, h))\<rparr>"
  by (simp_all add: echo_open_def k_file_stdio_init_def echo_files_def k_file_set_desc_def small_config_def numeral_eq_Suc Let_def)

lemma echo_stream: "stream small_config 1 1 echo_open" "stream small_config 0 0 echo_open"
  by (simp_all add: stream_def k_file_get_desc_def small_config_def echo_open_simps console_free_def echo_console_def)

theorem k_sys_writev_gathers_witness:
  "\<exists>s'. k_sys_writev small_config (fds_ops None) 0 1 (Some [(65, 2), (0, 0), (97, 1)]) 3 echo_open = Some (3, s') \<and>
     con_hw (con s') = [65, 66, 97]"
  using k_sys_writev_gathers [OF echo_stream(1), of "[(65, 2), (0, 0), (97, 1)]" "[65, 66, 97]" None 0]
  by (auto simp: iov_ok_def iov_bytes_def bytes_at_def echo_open_simps echo_console_def echo_put_def upt_rec)

text \<open>
  Closing: after \<open>close\<close> of a descriptor without a close operation, reading, writing, polling and
  closing it again fail with their errors and change nothing, and all other descriptors stay open.
\<close>

theorem k_sys_close_closes:
  assumes "k_file_get_desc cfg fd s = Some d" "fop fops fo_close d = None" "length (fdset s) = MAX_FD cfg"
  shows "\<exists>s'. k_sys_close cfg fops hart fd s = Some (0, s') \<and>
    k_sys_read cfg fops hart fd buf n s' = Some (- EBADF, s') \<and>
    k_sys_write cfg fops hart fd buf n s' = Some (- EBADF, s') \<and>
    k_sys_writev cfg fops hart fd iov cnt s' = Some (- EBADF, s') \<and>
    k_sys_close cfg fops hart fd s' = Some (- EBADF, s') \<and>
    k_sys_poll cfg fops (Some [fd]) 1 s' = - EBADF \<and>
    (\<forall>fd'. fd' \<noteq> fd \<longrightarrow> k_file_get_desc cfg fd' s' = k_file_get_desc cfg fd' s) \<and> con s' = con s"
proof -
  have r: "0 \<le> fd" "fd < int (MAX_FD cfg)"
    using assms(1) by (auto simp: k_file_get_desc_def split: if_splits)
  let ?s = "s\<lparr>fdset := (fdset s)[nat fd := None]\<rparr>"
  have none: "k_file_get_desc cfg fd ?s = None"
    using r assms(3) by (simp add: k_file_get_desc_def nat_less_iff)
  have "k_sys_close cfg fops hart fd s = Some (0, ?s)"
    using assms(1,2) r by (simp add: k_sys_close_def k_file_set_desc_def)
  moreover have "k_file_get_desc cfg fd' ?s = k_file_get_desc cfg fd' s" if "fd' \<noteq> fd" for fd'
    using that r by (auto simp: k_file_get_desc_def nat_eq_iff nth_list_update_neq)
  ultimately show ?thesis
    using none by (intro exI [of _ ?s])
      (simp add: k_sys_read_def k_sys_write_def k_sys_writev_def k_sys_close_def k_sys_poll_def)
qed

theorem k_sys_close_closes_witness:
  "\<exists>s'. k_sys_close small_config (fds_ops None) 0 1 echo_open = Some (0, s') \<and>
     k_sys_write small_config (fds_ops None) 0 1 65 1 s' = Some (- EBADF, s')"
proof -
  have "k_file_get_desc small_config 1 echo_open = Some 1" "fop (fds_ops None) fo_close 1 = None"
    "length (fdset echo_open) = MAX_FD small_config"
    by (simp_all add: k_file_get_desc_def small_config_def echo_open_simps fop_stdio)
  from k_sys_close_closes [OF this, of 0 65 1] show ?thesis by blast
qed

text \<open>
  Reading a standard stream: one call takes one character from the driver; it stores it at the start
  of the buffer and returns 1, or stores nothing and returns 0 at the end of input.  No other byte of
  memory changes and the locks are released.
\<close>

theorem k_sys_read_one:
  assumes "stream cfg fd d s" "buf \<noteq> 0" "n \<noteq> 0" "getchar_in (con s) (con_hw (con s)) = Some (v, h)"
  shows "\<exists>s'. k_sys_read cfg (fds_ops gpio) hart fd buf n s = Some (if v = EOF then 0 else 1, s') \<and>
    con_mem (con s') = (if v = EOF then con_mem (con s) else (con_mem (con s))(buf := of_int v)) \<and>
    con_hw (con s') = h \<and> con_csr (con s') = con_csr (con s) \<and> stream cfg fd d s'"
proof -
  have st: "k_file_get_desc cfg fd s = Some d" "d < 3" "unlocked (fd_lock s d)" "unlocked (pri_lock (con s))"
    using assms(1) by (simp_all add: stream_def console_free_def)
  show ?thesis
    using st assms(2-4)
    by (simp add: k_sys_read_def fop_stdio k_file_read_def with_fd_lock_def k_file_read_nolock_def k_file_stdio_read_def
        k_pri_read_stdin_def pri_section_def k_intr_save_local_def k_intr_restore_local_def k_getchar_nolock_def
        stream_def console_free_def k_file_get_desc_def split: if_splits)
qed

theorem k_sys_read_one_witness:
  "\<exists>s'. k_sys_read small_config (fds_ops None) 0 0 100 8 echo_open = Some (1, s') \<and> con_mem (con s') 100 = 65"
  using k_sys_read_one [OF echo_stream(2), of 100 8 65 "[]" None 0]
  by (auto simp: echo_open_simps echo_console_def)

end
