(* ===== verification/Regs.thy ===== *)
theory Regs
  imports Device
begin

section \<open>Device registers\<close>

text \<open>
  The register accessors of \<^verbatim>\<open>include/bmetal/device.h\<close>: through the mapping when the device is memory
  mapped, else through the driver, else all ones.  What an access does is up to the hardware: the
  loads and stores are the parameter \<open>dv_io\<close> on the hardware state \<open>'h\<close>.  A loop that polls a register may
  never end, \<open>None\<close>.
\<close>

record 'h mmio =
  io_read8 :: "u64 \<Rightarrow> 'h \<Rightarrow> u8 \<times> 'h"
  io_read16 :: "u64 \<Rightarrow> 'h \<Rightarrow> u16 \<times> 'h"
  io_read32 :: "u64 \<Rightarrow> 'h \<Rightarrow> u32 \<times> 'h"
  io_read64 :: "u64 \<Rightarrow> 'h \<Rightarrow> u64 \<times> 'h"
  io_write8 :: "u8 \<Rightarrow> u64 \<Rightarrow> 'h \<Rightarrow> 'h"
  io_write16 :: "u16 \<Rightarrow> u64 \<Rightarrow> 'h \<Rightarrow> 'h"
  io_write32 :: "u32 \<Rightarrow> u64 \<Rightarrow> 'h \<Rightarrow> 'h"
  io_write64 :: "u64 \<Rightarrow> u64 \<Rightarrow> 'h \<Rightarrow> 'h"

text \<open>The accessors a driver provides, \<open>None\<close> where there is no driver or it has no such operation.\<close>

record 'h rw_ops =
  op_read8 :: "(u64 \<Rightarrow> 'h \<Rightarrow> u8 \<times> 'h) option"
  op_read16 :: "(u64 \<Rightarrow> 'h \<Rightarrow> u16 \<times> 'h) option"
  op_read32 :: "(u64 \<Rightarrow> 'h \<Rightarrow> u32 \<times> 'h) option"
  op_read64 :: "(u64 \<Rightarrow> 'h \<Rightarrow> u64 \<times> 'h) option"
  op_write8 :: "(u8 \<Rightarrow> u64 \<Rightarrow> 'h \<Rightarrow> 'h) option"
  op_write16 :: "(u16 \<Rightarrow> u64 \<Rightarrow> 'h \<Rightarrow> 'h) option"
  op_write32 :: "(u32 \<Rightarrow> u64 \<Rightarrow> 'h \<Rightarrow> 'h) option"
  op_write64 :: "(u64 \<Rightarrow> u64 \<Rightarrow> 'h \<Rightarrow> 'h) option"

text \<open>A device as its accessors see it.\<close>

record 'h rdev =
  dv_io :: "'h mmio"
  dv_virt :: u64
  dv_rw :: "'h rw_ops"

text \<open>The device \<open>d\<close> with its registers where they are mapped in the state \<open>s\<close>.\<close>

definition mapped :: "'d dstate \<Rightarrow> devptr \<Rightarrow> 'h rdev \<Rightarrow> 'h rdev" where
  "mapped s d dev = dev\<lparr>dv_virt := dev_virt (devs s d)\<rparr>"

definition k_device_read8 :: "'h rdev \<Rightarrow> u64 \<Rightarrow> 'h \<Rightarrow> u8 \<times> 'h" where
  "k_device_read8 dev off h =
     (if dv_virt dev \<noteq> 0 then io_read8 (dv_io dev) (dv_virt dev + off) h
      else case op_read8 (dv_rw dev) of Some f \<Rightarrow> f off h | None \<Rightarrow> (- 1, h))"

definition k_device_read16 :: "'h rdev \<Rightarrow> u64 \<Rightarrow> 'h \<Rightarrow> u16 \<times> 'h" where
  "k_device_read16 dev off h =
     (if dv_virt dev \<noteq> 0 then io_read16 (dv_io dev) (dv_virt dev + off) h
      else case op_read16 (dv_rw dev) of Some f \<Rightarrow> f off h | None \<Rightarrow> (- 1, h))"

definition k_device_read32 :: "'h rdev \<Rightarrow> u64 \<Rightarrow> 'h \<Rightarrow> u32 \<times> 'h" where
  "k_device_read32 dev off h =
     (if dv_virt dev \<noteq> 0 then io_read32 (dv_io dev) (dv_virt dev + off) h
      else case op_read32 (dv_rw dev) of Some f \<Rightarrow> f off h | None \<Rightarrow> (- 1, h))"

definition k_device_read64 :: "'h rdev \<Rightarrow> u64 \<Rightarrow> 'h \<Rightarrow> u64 \<times> 'h" where
  "k_device_read64 dev off h =
     (if dv_virt dev \<noteq> 0 then io_read64 (dv_io dev) (dv_virt dev + off) h
      else case op_read64 (dv_rw dev) of Some f \<Rightarrow> f off h | None \<Rightarrow> (- 1, h))"

definition k_device_write8 :: "'h rdev \<Rightarrow> u8 \<Rightarrow> u64 \<Rightarrow> 'h \<Rightarrow> 'h" where
  "k_device_write8 dev dat off h =
     (if dv_virt dev \<noteq> 0 then io_write8 (dv_io dev) dat (dv_virt dev + off) h
      else case op_write8 (dv_rw dev) of Some f \<Rightarrow> f dat off h | None \<Rightarrow> h)"

definition k_device_write16 :: "'h rdev \<Rightarrow> u16 \<Rightarrow> u64 \<Rightarrow> 'h \<Rightarrow> 'h" where
  "k_device_write16 dev dat off h =
     (if dv_virt dev \<noteq> 0 then io_write16 (dv_io dev) dat (dv_virt dev + off) h
      else case op_write16 (dv_rw dev) of Some f \<Rightarrow> f dat off h | None \<Rightarrow> h)"

definition k_device_write32 :: "'h rdev \<Rightarrow> u32 \<Rightarrow> u64 \<Rightarrow> 'h \<Rightarrow> 'h" where
  "k_device_write32 dev dat off h =
     (if dv_virt dev \<noteq> 0 then io_write32 (dv_io dev) dat (dv_virt dev + off) h
      else case op_write32 (dv_rw dev) of Some f \<Rightarrow> f dat off h | None \<Rightarrow> h)"

definition k_device_write64 :: "'h rdev \<Rightarrow> u64 \<Rightarrow> u64 \<Rightarrow> 'h \<Rightarrow> 'h" where
  "k_device_write64 dev dat off h =
     (if dv_virt dev \<noteq> 0 then io_write64 (dv_io dev) dat (dv_virt dev + off) h
      else case op_write64 (dv_rw dev) of Some f \<Rightarrow> f dat off h | None \<Rightarrow> h)"

subsection \<open>Polling\<close>

partial_function (option) wait_until :: "('h \<Rightarrow> 'v \<times> 'h) \<Rightarrow> 'h \<Rightarrow> ('v \<Rightarrow> bool) \<Rightarrow> ('v \<times> 'h) option" where
  "wait_until rd h ok = (let (v, h') = rd h in if ok v then Some (v, h') else wait_until rd h' ok)"

text \<open>Polling ends when every refusal brings the hardware nearer to being ready.\<close>

lemma wait_until_last:
  assumes "\<And>h v h'. rd h = (v, h') \<Longrightarrow> P h \<Longrightarrow> P h' \<and> (\<not> ok v \<longrightarrow> left h' < (left h :: nat))" and "P h"
  shows "\<exists>v h0 h'. wait_until rd h ok = Some (v, h') \<and> rd h0 = (v, h') \<and> ok v \<and> P h0 \<and> P h'"
  using assms(2)
proof (induction "left h" arbitrary: h rule: less_induct)
  case less
  obtain v h' where r: "rd h = (v, h')" by fastforce
  note step = assms(1) [OF r less.prems]
  show ?case
  proof (cases "ok v")
    case True
    then show ?thesis using r step less.prems by (auto simp: wait_until.simps [of rd h])
  next
    case False
    then show ?thesis using r less.hyps [of h'] step by (simp add: wait_until.simps [of rd h])
  qed
qed

lemma wait_until_ends:
  assumes "\<And>h v h'. rd h = (v, h') \<Longrightarrow> \<not> ok v \<Longrightarrow> left h' < (left h :: nat)"
    and "\<And>h v h'. rd h = (v, h') \<Longrightarrow> P h \<Longrightarrow> P h'" and "P h"
  shows "\<exists>v h'. wait_until rd h ok = Some (v, h') \<and> ok v \<and> P h'"
  using wait_until_last [of rd P ok left h] assms by blast

text \<open>
  Registers that keep what is written to them, at the offsets below a limit: a read gives the value
  and has no effect, a write changes only its own register.
\<close>

definition mem_regs :: "'h rdev \<Rightarrow> ('h \<Rightarrow> u64 \<Rightarrow> u32) \<Rightarrow> u64 \<Rightarrow> bool" where
  "mem_regs dev peek lim \<longleftrightarrow>
     (\<forall>off<lim. (\<forall>h. k_device_read32 dev off h = (peek h off, h)) \<and>
       (\<forall>v h. peek (k_device_write32 dev v off h) = (peek h)(off := v)))"

lemma mem_regsD:
  assumes "mem_regs dev peek lim" "off < lim"
  shows "k_device_read32 dev off h = (peek h off, h)" "peek (k_device_write32 dev v off h) = (peek h)(off := v)"
  using assms unfolding mem_regs_def by simp_all

text \<open>A mapped device whose registers are memory.\<close>

definition ram_dev :: "(u64 \<Rightarrow> u32) rdev" where
  "ram_dev =
     \<lparr>dv_io = \<lparr>io_read8 = (\<lambda>a h. (0, h)), io_read16 = (\<lambda>a h. (0, h)), io_read32 = (\<lambda>a h. (h (a - 0x1000), h)),
        io_read64 = (\<lambda>a h. (0, h)), io_write8 = (\<lambda>v a h. h), io_write16 = (\<lambda>v a h. h),
        io_write32 = (\<lambda>v a h. h(a - 0x1000 := v)), io_write64 = (\<lambda>v a h. h)\<rparr>,
      dv_virt = 0x1000,
      dv_rw = \<lparr>op_read8 = None, op_read16 = None, op_read32 = None, op_read64 = None, op_write8 = None,
        op_write16 = None, op_write32 = None, op_write64 = None\<rparr>\<rparr>"

lemma ram_dev_regs: "mem_regs ram_dev (\<lambda>h. h) lim"
  by (simp add: mem_regs_def ram_dev_def k_device_read32_def k_device_write32_def)

end
