(* ===== verification/Uart.thy ===== *)
theory Uart
  imports Regs Device File
begin

section \<open>UARTs\<close>

text \<open>
  \<^verbatim>\<open>driver/uart/uart.c\<close> and the drivers \<^verbatim>\<open>driver/uart/ns/16550.c\<close>, \<^verbatim>\<open>driver/uart/sifive/uart0.c\<close>,
  \<^verbatim>\<open>driver/uart/xilinx/uart_lite.c\<close>: sending and receiving a character by polling, the interrupt enable
  bits, the baud rate, and the console on top of the default UART.  The hardware is the state \<open>'h\<close>
  behind the register accessors.
\<close>

record k_uart_config =
  baud :: u32

record 'h k_uart_driver_ops =
  char_in :: "('h \<Rightarrow> (int \<times> 'h) option) option"
  char_out :: "(int \<Rightarrow> 'h \<Rightarrow> 'h option) option"
  get_config :: "(k_uart_config \<Rightarrow> 'h \<Rightarrow> (int \<times> k_uart_config \<times> 'h) option) option"
  set_config :: "(k_uart_config \<Rightarrow> 'h \<Rightarrow> (int \<times> 'h) option) option"

text \<open>A UART device: whether it is probed, and the operations of its driver if it has one.\<close>

record 'h k_uart_device =
  ud_probed :: "'h \<Rightarrow> bool"
  ud_ops :: "'h k_uart_driver_ops option"

definition uop :: "('h k_uart_driver_ops \<Rightarrow> 'o option) \<Rightarrow> 'h k_uart_device \<Rightarrow> 'o option" where
  "uop sel u = Option.bind (ud_ops u) sel"

subsection \<open>Generic part\<close>

definition k_uart_get_config ::
    "'h k_uart_device option \<Rightarrow> k_uart_config \<Rightarrow> 'h \<Rightarrow> (int \<times> k_uart_config \<times> 'h) option" where
  "k_uart_get_config uart conf h =
     (case uart of
        None \<Rightarrow> Some (- EINVAL, conf, h)
      | Some u \<Rightarrow> (case uop get_config u of None \<Rightarrow> Some (0, conf, h) | Some f \<Rightarrow> f conf h))"

definition k_uart_set_config :: "'h k_uart_device option \<Rightarrow> k_uart_config \<Rightarrow> 'h \<Rightarrow> (int \<times> 'h) option" where
  "k_uart_set_config uart conf h =
     (case uart of
        None \<Rightarrow> Some (- EINVAL, h)
      | Some u \<Rightarrow> (case uop set_config u of None \<Rightarrow> Some (0, h) | Some f \<Rightarrow> f conf h))"

definition uart_getc :: "'h k_uart_device option \<Rightarrow> 'h \<Rightarrow> (int \<times> 'h) option" where
  "uart_getc uart_default h =
     (case uart_default of
        None \<Rightarrow> Some (EOF, h)
      | Some u \<Rightarrow>
          if \<not> ud_probed u h then Some (EOF, h)
          else (case uop char_in u of None \<Rightarrow> Some (EOF, h) | Some f \<Rightarrow> f h))"

definition uart_putc :: "'h k_uart_device option \<Rightarrow> int \<Rightarrow> 'h \<Rightarrow> (int \<times> 'h) option" where
  "uart_putc uart_default c h =
     (case uart_default of
        None \<Rightarrow> Some (c mod 256, h)
      | Some u \<Rightarrow>
          if \<not> ud_probed u h then Some (c mod 256, h)
          else (case uop char_out u of
                  None \<Rightarrow> Some (c mod 256, h)
                | Some f \<Rightarrow> do { h \<leftarrow> f c h; Some (c mod 256, h) }))"

definition k_uart_set_default_console :: "'h k_uart_device option \<Rightarrow> 'h console \<Rightarrow> int \<times> 'h console" where
  "k_uart_set_default_console uart c =
     (let (_, c) = k_pri_set_getchar (Some (uart_getc uart)) c;
          (_, c) = k_pri_set_putchar (Some (uart_putc uart)) c
      in (0, c))"

text \<open>The baud rate of the board, 0 when it is not configured; a bad table has no defined result.\<close>

definition k_uart_read_default_config :: "k_device \<Rightarrow> (int \<times> k_uart_config) option" where
  "k_uart_read_default_config dev = do {
     (_, v) \<leftarrow> k_device_read_conf_u32 (Some dev) (Some ''baud'') 0;
     Some (0, \<lparr>baud = (case v of None \<Rightarrow> 0 | Some b \<Rightarrow> b)\<rparr>)
   }"

definition k_uart_add_device ::
    "'d drv_ops \<Rightarrow> devptr \<Rightarrow> 'h k_uart_device \<Rightarrow> busptr option \<Rightarrow> bool \<Rightarrow> 'd dstate \<Rightarrow> 'h console \<Rightarrow>
     (int \<times> 'd dstate \<times> 'h console) option" where
  "k_uart_add_device ops d uart parent set_default s c = do {
     (r, s) \<leftarrow> k_device_add ops (Some d) parent s;
     if IS_ERROR r then Some (r, s, c)
     else if set_default then
       let (r, c) = k_uart_set_default_console (Some uart) c in Some (if r \<noteq> 0 then r else 0, s, c)
     else Some (0, s, c)
   }"

text \<open>\<open>is_default\<close> says that the device is the default console.\<close>

definition k_uart_remove_device :: "devptr option \<Rightarrow> bool \<Rightarrow> 'h console \<Rightarrow> int \<times> 'h console" where
  "k_uart_remove_device dev is_default c =
     (k_device_remove dev, if is_default then snd (k_uart_set_default_console None c) else c)"

subsection \<open>NS16550\<close>

abbreviation (input) REG_RBR :: u64 where "REG_RBR \<equiv> 0"
abbreviation (input) REG_THR :: u64 where "REG_THR \<equiv> 0"
abbreviation (input) REG_IER :: u64 where "REG_IER \<equiv> 1"
abbreviation (input) REG_LCR :: u64 where "REG_LCR \<equiv> 3"
abbreviation (input) REG_LSR :: u64 where "REG_LSR \<equiv> 5"
abbreviation (input) REG_DLL :: u64 where "REG_DLL \<equiv> 0"
abbreviation (input) REG_DLM :: u64 where "REG_DLM \<equiv> 1"
abbreviation (input) LSR_RX_READY :: u8 where "LSR_RX_READY \<equiv> 0x01"
abbreviation (input) LSR_THR_EMPTY :: u8 where "LSR_THR_EMPTY \<equiv> 0x20"
abbreviation (input) IER_ERBFI_ETBEI :: u8 where "IER_ERBFI_ETBEI \<equiv> 0x03"

record 'h uart_ns16550_priv =
  ns_dev :: "'h rdev"
  ns_freq_in :: u64
  ns_addr_shift :: u32
  ns_conf :: k_uart_config

definition uart_read :: "'h uart_ns16550_priv \<Rightarrow> u64 \<Rightarrow> 'h \<Rightarrow> u8 \<times> 'h" where
  "uart_read p off h =
     (let shifted = push_bit (unat (ns_addr_shift p)) off
      in if ns_addr_shift p = 0 then k_device_read8 (ns_dev p) shifted h
         else if ns_addr_shift p = 1 then map_prod ucast id (k_device_read16 (ns_dev p) shifted h)
         else if ns_addr_shift p = 2 then map_prod ucast id (k_device_read32 (ns_dev p) shifted h)
         else (- 1, h))"

definition uart_write :: "'h uart_ns16550_priv \<Rightarrow> u8 \<Rightarrow> u64 \<Rightarrow> 'h \<Rightarrow> 'h" where
  "uart_write p dat off h =
     (let shifted = push_bit (unat (ns_addr_shift p)) off
      in if ns_addr_shift p = 0 then k_device_write8 (ns_dev p) dat shifted h
         else if ns_addr_shift p = 1 then k_device_write16 (ns_dev p) (ucast dat) shifted h
         else if ns_addr_shift p = 2 then k_device_write32 (ns_dev p) (ucast dat) shifted h
         else h)"

text \<open>Division by a baud rate of 0 has no defined result.\<close>

definition uart_ns16550_set_baud :: "'h uart_ns16550_priv \<Rightarrow> u32 \<Rightarrow> 'h \<Rightarrow> (int \<times> 'h) option" where
  "uart_ns16550_set_baud p b h =
     (if b = 0 then None
      else let d = ucast (ns_freq_in p div ucast b div 16) :: u32
      in if d = 0 then Some (- EINVAL, h)
         else if 0xffff < d then Some (- EINVAL, h)
         else
           let (v, h) = uart_read p REG_LCR h;
               h = uart_write p (v OR 0x80) REG_LCR h;
               h = uart_write p (ucast d) REG_DLL h;
               h = uart_write p (ucast (drop_bit 8 d)) REG_DLM h;
               (v, h) = uart_read p REG_LCR h;
               h = uart_write p (v AND NOT 0x80) REG_LCR h
           in Some (0, h))"

definition uart_ns16550_char_in :: "'h uart_ns16550_priv \<Rightarrow> 'h \<Rightarrow> (int \<times> 'h) option" where
  "uart_ns16550_char_in p h = do {
     (_, h) \<leftarrow> wait_until (uart_read p REG_LSR) h (\<lambda>v. v AND LSR_RX_READY \<noteq> 0);
     Some (map_prod uint id (uart_read p REG_RBR h))
   }"

definition uart_ns16550_char_out :: "'h uart_ns16550_priv \<Rightarrow> int \<Rightarrow> 'h \<Rightarrow> 'h option" where
  "uart_ns16550_char_out p c h = do {
     (_, h) \<leftarrow> wait_until (uart_read p REG_LSR) h (\<lambda>v. v AND LSR_THR_EMPTY \<noteq> 0);
     Some (uart_write p (of_int c) REG_THR h)
   }"

definition uart_ns16550_enable_intr :: "'h uart_ns16550_priv \<Rightarrow> 'h \<Rightarrow> int \<times> 'h" where
  "uart_ns16550_enable_intr p h =
     (let (v, h) = uart_read p REG_IER h in (0, uart_write p (v OR IER_ERBFI_ETBEI) REG_IER h))"

definition uart_ns16550_disable_intr :: "'h uart_ns16550_priv \<Rightarrow> 'h \<Rightarrow> int \<times> 'h" where
  "uart_ns16550_disable_intr p h =
     (let (v, h) = uart_read p REG_IER h in (0, uart_write p (v AND NOT IER_ERBFI_ETBEI) REG_IER h))"

definition uart_ns16550_get_config :: "'h uart_ns16550_priv \<Rightarrow> k_uart_config \<Rightarrow> 'h \<Rightarrow> (int \<times> k_uart_config \<times> 'h) option" where
  "uart_ns16550_get_config p conf h = Some (0, ns_conf p, h)"

definition uart_ns16550_set_config :: "'h uart_ns16550_priv \<Rightarrow> k_uart_config \<Rightarrow> 'h \<Rightarrow> (int \<times> 'h) option" where
  "uart_ns16550_set_config p conf h = uart_ns16550_set_baud p (baud conf) h"

definition uart_ns16550_intr :: "'h uart_ns16550_priv \<Rightarrow> 'h \<Rightarrow> int \<times> 'h" where
  "uart_ns16550_intr p h =
     (let (r, h) = uart_ns16550_disable_intr p h in (if r \<noteq> 0 then EVENT_NOT_HANDLED else EVENT_HANDLED, h))"

definition ns16550_uart_ops :: "'h uart_ns16550_priv \<Rightarrow> 'h k_uart_driver_ops" where
  "ns16550_uart_ops p =
     \<lparr>char_in = Some (uart_ns16550_char_in p), char_out = Some (uart_ns16550_char_out p),
      get_config = Some (uart_ns16550_get_config p), set_config = Some (uart_ns16550_set_config p)\<rparr>"

subsection \<open>SiFive UART\<close>

abbreviation (input) REG_TXDATA :: u64 where "REG_TXDATA \<equiv> 0x00"
abbreviation (input) REG_RXDATA :: u64 where "REG_RXDATA \<equiv> 0x04"
abbreviation (input) REG_IE :: u64 where "REG_IE \<equiv> 0x10"
abbreviation (input) REG_DIV :: u64 where "REG_DIV \<equiv> 0x18"

definition uart_sifive_char_in :: "'h rdev \<Rightarrow> 'h \<Rightarrow> (int \<times> 'h) option" where
  "uart_sifive_char_in d h = do {
     (v, h) \<leftarrow> wait_until (k_device_read32 d REG_RXDATA) h (\<lambda>v. v AND 0x80000000 = 0);
     Some (uint (v AND 0xff), h)
   }"

definition uart_sifive_char_out :: "'h rdev \<Rightarrow> int \<Rightarrow> 'h \<Rightarrow> 'h option" where
  "uart_sifive_char_out d c h = do {
     (_, h) \<leftarrow> wait_until (k_device_read32 d REG_TXDATA) h (\<lambda>v. v AND 0x80000000 = 0);
     Some (k_device_write32 d (of_int c AND 0xff) REG_TXDATA h)
   }"

definition uart_sifive_enable_intr :: "'h rdev \<Rightarrow> 'h \<Rightarrow> int \<times> 'h" where
  "uart_sifive_enable_intr d h =
     (let (v, h) = k_device_read32 d REG_IE h in (0, k_device_write32 d (v OR 2) REG_IE h))"

definition uart_sifive_disable_intr :: "'h rdev \<Rightarrow> 'h \<Rightarrow> int \<times> 'h" where
  "uart_sifive_disable_intr d h =
     (let (v, h) = k_device_read32 d REG_IE h in (0, k_device_write32 d (v AND NOT 3) REG_IE h))"

text \<open>The result contains the configuration kept in the private data.\<close>

definition uart_sifive_set_baud :: "'h rdev \<Rightarrow> u64 \<Rightarrow> u32 \<Rightarrow> 'h \<Rightarrow> (int \<times> k_uart_config \<times> 'h) option" where
  "uart_sifive_set_baud d freq_in b h =
     (if b = 0 then None
      else Some (0, \<lparr>baud = b\<rparr>, k_device_write32 d (ucast (freq_in div ucast b - 1)) REG_DIV h))"

definition uart_sifive_set_config :: "'h rdev \<Rightarrow> u64 \<Rightarrow> k_uart_config \<Rightarrow> 'h \<Rightarrow> (int \<times> k_uart_config \<times> 'h) option" where
  "uart_sifive_set_config d freq_in conf h = uart_sifive_set_baud d freq_in (baud conf) h"

subsection \<open>Xilinx UART Lite\<close>

abbreviation (input) REG_RXFIFO :: u64 where "REG_RXFIFO \<equiv> 0x00"
abbreviation (input) REG_TXFIFO :: u64 where "REG_TXFIFO \<equiv> 0x04"
abbreviation (input) REG_STAT :: u64 where "REG_STAT \<equiv> 0x08"
abbreviation (input) REG_CTRL :: u64 where "REG_CTRL \<equiv> 0x0c"

definition uart_lite_char_in :: "'h rdev \<Rightarrow> 'h \<Rightarrow> (int \<times> 'h) option" where
  "uart_lite_char_in d h = do {
     (_, h) \<leftarrow> wait_until (k_device_read32 d REG_STAT) h (\<lambda>v. v AND 0x01 \<noteq> 0);
     Some (map_prod sint id (k_device_read32 d REG_RXFIFO h))
   }"

definition uart_lite_char_out :: "'h rdev \<Rightarrow> int \<Rightarrow> 'h \<Rightarrow> 'h option" where
  "uart_lite_char_out d c h = do {
     (_, h) \<leftarrow> wait_until (k_device_read32 d REG_STAT) h (\<lambda>v. v AND 0x08 = 0);
     Some (k_device_write32 d (of_int c) REG_TXFIFO h)
   }"

definition uart_lite_enable_intr :: "'h rdev \<Rightarrow> 'h \<Rightarrow> int \<times> 'h" where
  "uart_lite_enable_intr d h =
     (let (v, h) = k_device_read32 d REG_CTRL h in (0, k_device_write32 d (v OR 0x10) REG_CTRL h))"

definition uart_lite_disable_intr :: "'h rdev \<Rightarrow> 'h \<Rightarrow> int \<times> 'h" where
  "uart_lite_disable_intr d h =
     (let (v, h) = k_device_read32 d REG_CTRL h in (0, k_device_write32 d (v AND NOT 0x10) REG_CTRL h))"

definition uart_lite_intr :: "'h rdev \<Rightarrow> 'h \<Rightarrow> int \<times> 'h" where
  "uart_lite_intr d h = (EVENT_HANDLED, snd (k_device_read32 d REG_STAT h))"

subsection \<open>Hardware contract\<close>

text \<open>
  What the drivers rely on of the hardware.  \<open>out\<close> is what the hardware has sent, \<open>set_up\<close> says that it
  is set up for sending (an NS16550: the divisor latch is closed) and \<open>free\<close> that it can take a
  character.  Reading the status sends nothing and leaves the hardware set up; a status that reports
  free space is true, and one that refuses is not repeated for ever (\<open>left\<close> bounds the number of
  refusals).  Writing the data register sends the character when the hardware is set up and can take
  it; nothing is said of a write in another state, and nothing of the free space after a write.
\<close>

definition tx_status :: "('h \<Rightarrow> 'v \<times> 'h) \<Rightarrow> ('v \<Rightarrow> bool) \<Rightarrow> ('h \<Rightarrow> bool) \<Rightarrow> ('h \<Rightarrow> bool) \<Rightarrow> ('h \<Rightarrow> u8 list) \<Rightarrow> ('h \<Rightarrow> nat) \<Rightarrow> bool" where
  "tx_status rd ok set_up free out left \<longleftrightarrow>
     (\<forall>h v h'. rd h = (v, h') \<and> set_up h \<longrightarrow>
        set_up h' \<and> out h' = out h \<and> (if ok v then free h' else left h' < left h))"

definition tx_data :: "('v::len word \<Rightarrow> 'h \<Rightarrow> 'h) \<Rightarrow> ('h \<Rightarrow> bool) \<Rightarrow> ('h \<Rightarrow> bool) \<Rightarrow> ('h \<Rightarrow> u8 list) \<Rightarrow> bool" where
  "tx_data wr set_up free out \<longleftrightarrow>
     (\<forall>h v. set_up h \<and> free h \<longrightarrow> set_up (wr v h) \<and> out (wr v h) = out h @ [ucast v])"

text \<open>An operation that sends each character it is given.\<close>

definition sender :: "(int \<Rightarrow> 'h \<Rightarrow> 'h option) \<Rightarrow> ('h \<Rightarrow> bool) \<Rightarrow> ('h \<Rightarrow> u8 list) \<Rightarrow> bool" where
  "sender f set_up out \<longleftrightarrow> (\<forall>c h. set_up h \<longrightarrow> (\<exists>h'. f c h = Some h' \<and> set_up h' \<and> out h' = out h @ [of_int c]))"

text \<open>
  A transmitter with a line control register and room for one character, which goes out during the
  next three reads of the status.  A character written in that time is lost, and with the divisor
  latch open the data register is the divisor.
\<close>

record tx_hw =
  hw_lcr :: u8
  hw_busy :: nat
  hw_sent :: "u8 list"

definition hw_send :: "u8 \<Rightarrow> tx_hw \<Rightarrow> tx_hw" where
  "hw_send v h = (if hw_busy h = 0 then h\<lparr>hw_sent := hw_sent h @ [v], hw_busy := 3\<rparr> else h)"

definition hw_poll :: "'v \<Rightarrow> 'v \<Rightarrow> tx_hw \<Rightarrow> 'v \<times> tx_hw" where
  "hw_poll full free h = (if 0 < hw_busy h then (full, h\<lparr>hw_busy := hw_busy h - 1\<rparr>) else (free, h))"

abbreviation hw_set :: "tx_hw \<Rightarrow> bool" where
  "hw_set h \<equiv> \<not> bit (hw_lcr h) 7"

abbreviation hw_free :: "tx_hw \<Rightarrow> bool" where
  "hw_free h \<equiv> hw_busy h = 0"

definition fifo_io :: "tx_hw mmio" where
  "fifo_io =
     \<lparr>io_read8 = (\<lambda>a h. if a = 0x10000005 then hw_poll 0 0x20 h else if a = 0x10000003 then (hw_lcr h, h) else (0, h)),
      io_read16 = (\<lambda>a h. (0, h)), io_read32 = (\<lambda>a. hw_poll 0x80000008 0), io_read64 = (\<lambda>a h. (0, h)),
      io_write8 = (\<lambda>v a h. if a = 0x10000003 then h\<lparr>hw_lcr := v\<rparr>
        else if a = 0x10000000 \<and> hw_set h then hw_send v h else h),
      io_write16 = (\<lambda>v a h. h), io_write32 = (\<lambda>v a. hw_send (ucast v)), io_write64 = (\<lambda>v a h. h)\<rparr>"

definition fifo_dev :: "tx_hw rdev" where
  "fifo_dev = \<lparr>dv_io = fifo_io, dv_virt = 0x10000000,
     dv_rw = \<lparr>op_read8 = None, op_read16 = None, op_read32 = None, op_read64 = None,
       op_write8 = None, op_write16 = None, op_write32 = None, op_write64 = None\<rparr>\<rparr>"

definition fifo_ns16550 :: "tx_hw uart_ns16550_priv" where
  "fifo_ns16550 = \<lparr>ns_dev = fifo_dev, ns_freq_in = 3686400, ns_addr_shift = 0, ns_conf = \<lparr>baud = 115200\<rparr>\<rparr>"

definition uart_fifo :: "tx_hw k_uart_device" where
  "uart_fifo = \<lparr>ud_probed = (\<lambda>_. True), ud_ops = Some (ns16550_uart_ops fifo_ns16550)\<rparr>"

definition uart_console :: "tx_hw console" where
  "uart_console = \<lparr>pri_lock = lock_static, con_csr = \<lparr>csr_mstatus = 8, csr_mip = 0\<rparr>, con_mem = (\<lambda>a. ucast a),
     con_hw = \<lparr>hw_lcr = 3, hw_busy = 2, hw_sent = []\<rparr>, getchar_in = null_getchar, putchar_in = null_putchar\<rparr>"

definition uart_files :: "tx_hw fstate" where
  "uart_files = \<lparr>fdset = [Some 0, Some 1, Some 2, None], fd_lock = (\<lambda>_. lock_static),
     con = snd (k_uart_set_default_console (Some uart_fifo) uart_console)\<rparr>"

subsection \<open>Output\<close>

lemma wait_send:
  assumes "tx_status rd ok su free out left" "tx_data wr su free out" "su h"
  shows "\<exists>v h'. wait_until rd h ok = Some (v, h') \<and> su (wr w h') \<and> out (wr w h') = out h @ [ucast w]"
proof -
  let ?P = "\<lambda>h'. su h' \<and> out h' = out h"
  have "?P h2 \<and> (\<not> ok v \<longrightarrow> left h2 < left h1)" if "rd h1 = (v, h2)" "?P h1" for h1 v h2
    using assms(1) that unfolding tx_status_def by (cases "ok v") auto
  from wait_until_last [of rd ?P ok left h, OF this] assms(3)
  obtain v h0 h' where w: "wait_until rd h ok = Some (v, h')" "rd h0 = (v, h')" "ok v" "su h0" "su h'" "out h' = out h"
    by auto
  then have "free h'" using assms(1) unfolding tx_status_def by metis
  then show ?thesis using w assms(2) unfolding tx_data_def by auto
qed

lemma ucast_of_int_u8: "ucast (of_int c AND 0xff :: u32) = (of_int c :: u8)"
proof -
  have ff: "(0xff :: u32) = mask 8" by (simp add: mask_eq_exp_minus_1)
  show ?thesis unfolding ff by (rule bit_word_eqI) (auto simp: bit_simps)
qed

lemma ucast_of_int_u32_u8: "ucast (of_int c :: u32) = (of_int c :: u8)"
  by (rule bit_word_eqI) (auto simp: bit_simps)

lemma wait_sender:
  assumes "tx_status rd ok su free out left" "tx_data wr su free out" "\<And>c. ucast (val c) = (of_int c :: u8)"
  shows "sender (\<lambda>c h. do { (_, h) \<leftarrow> wait_until rd h ok; Some (wr (val c) h) }) su out"
  unfolding sender_def
proof (intro allI impI)
  fix c h
  assume "su h"
  then obtain v h' where "wait_until rd h ok = Some (v, h')" "su (wr (val c) h')" "out (wr (val c) h') = out h @ [ucast (val c)]"
    using wait_send [OF assms(1,2), of h "val c"] by blast
  then show "\<exists>h'. (do { (_, h) \<leftarrow> wait_until rd h ok; Some (wr (val c) h) }) = Some h' \<and> su h' \<and> out h' = out h @ [of_int c]"
    using assms(3) by simp
qed

lemma ns16550_sender:
  assumes "tx_status (uart_read p REG_LSR) (\<lambda>v. v AND LSR_THR_EMPTY \<noteq> 0) su free out left"
    and "tx_data (\<lambda>v. uart_write p v REG_THR) su free out"
  shows "sender (uart_ns16550_char_out p) su out"
  using wait_sender [OF assms, of of_int] by (simp add: uart_ns16550_char_out_def [abs_def])

lemma sifive_sender:
  assumes "tx_status (k_device_read32 d REG_TXDATA) (\<lambda>v. v AND 0x80000000 = 0) su free out left"
    and "tx_data (\<lambda>v. k_device_write32 d v REG_TXDATA) su free out"
  shows "sender (uart_sifive_char_out d) su out"
  using wait_sender [OF assms, of "\<lambda>c. of_int c AND 0xff"]
  by (simp add: uart_sifive_char_out_def [abs_def] ucast_of_int_u8)

lemma lite_sender:
  assumes "tx_status (k_device_read32 d REG_STAT) (\<lambda>v. v AND 0x08 = 0) su free out left"
    and "tx_data (\<lambda>v. k_device_write32 d v REG_TXFIFO) su free out"
  shows "sender (uart_lite_char_out d) su out"
  using wait_sender [OF assms, of of_int] by (simp add: uart_lite_char_out_def [abs_def] ucast_of_int_u32_u8)

lemma sender_sends:
  assumes "sender f su out" "uop char_out u = Some f" "\<And>h. ud_probed u h" "su h"
  shows "\<exists>h'. sends (uart_putc (Some u)) vs h = Some h' \<and> su h' \<and> out h' = out h @ map of_int vs"
  using assms(4)
proof (induction vs arbitrary: h)
  case (Cons v vs)
  obtain h1 where "f v h = Some h1" "su h1" "out h1 = out h @ [of_int v]"
    using assms(1) Cons.prems unfolding sender_def by blast
  then show ?case using Cons.IH [of h1] by (simp add: uart_putc_def assms(2,3))
qed simp

lemma fifo_tx:
  "tx_status (uart_read fifo_ns16550 REG_LSR) (\<lambda>v. v AND LSR_THR_EMPTY \<noteq> 0) hw_set hw_free hw_sent hw_busy"
  "tx_data (\<lambda>v. uart_write fifo_ns16550 v REG_THR) hw_set hw_free hw_sent"
  "tx_status (k_device_read32 fifo_dev REG_TXDATA) (\<lambda>v. v AND 0x80000000 = 0) hw_set hw_free hw_sent hw_busy"
  "tx_data (\<lambda>v. k_device_write32 fifo_dev v REG_TXDATA) hw_set hw_free hw_sent"
  "tx_status (k_device_read32 fifo_dev REG_STAT) (\<lambda>v. v AND 0x08 = 0) hw_set hw_free hw_sent hw_busy"
  "tx_data (\<lambda>v. k_device_write32 fifo_dev v REG_TXFIFO) hw_set hw_free hw_sent"
  by (auto simp: tx_status_def tx_data_def uart_read_def uart_write_def k_device_read8_def k_device_write8_def
      k_device_read32_def k_device_write32_def fifo_ns16550_def fifo_dev_def fifo_io_def hw_poll_def hw_send_def split: if_splits)

text \<open>
  Each of the three drivers ends and sends exactly the character it is given, on hardware that keeps
  the contract.
\<close>

lemma fifo_senders:
  "sender (uart_ns16550_char_out fifo_ns16550) hw_set hw_sent" "sender (uart_sifive_char_out fifo_dev) hw_set hw_sent"
  "sender (uart_lite_char_out fifo_dev) hw_set hw_sent"
  using ns16550_sender [OF fifo_tx(1,2)] sifive_sender [OF fifo_tx(3,4)] lite_sender [OF fifo_tx(5,6)] .

text \<open>
  C27. From the system call to the wire: with the default console on a probed NS16550 whose divisor
  latch is closed, the locks free, a buffer that is not NULL and a length from 1 to 2 ^ 31 - 1,
  \<open>write\<close> to a standard stream returns the number of bytes and the UART has sent exactly
  the bytes of the buffer, in order. The hardware is only relied on to send a character that is written
  after its status has reported an empty holding register.
\<close>

theorem k_sys_write_reaches_uart:
  assumes "tx_status (uart_read p REG_LSR) (\<lambda>v. v AND LSR_THR_EMPTY \<noteq> 0) latched free out left"
    and "tx_data (\<lambda>v. uart_write p v REG_THR) latched free out"
    and "con s = snd (k_uart_set_default_console (Some u) c)" "ud_ops u = Some (ns16550_uart_ops p)" "\<forall>h. ud_probed u h"
    and "stream cfg fd d s" "buf \<noteq> 0" "n \<noteq> 0" "unat n < 2 ^ 31" "latched (con_hw (con s))"
  shows "\<exists>s'. k_sys_write cfg (fds_ops gpio) hart fd buf n s = Some (int (unat n), s') \<and> stream cfg fd d s' \<and>
    latched (con_hw (con s')) \<and>
    out (con_hw (con s')) = out (con_hw (con s)) @ map (\<lambda>i. con_mem (con s) (buf + of_nat i)) [0..<unat n]"
proof -
  let ?vs = "bytes_at (con_mem (con s)) buf (unat n)"
  have "uop char_out u = Some (uart_ns16550_char_out p)"
    by (simp add: uop_def assms(4) ns16550_uart_ops_def)
  then obtain h where h: "sends (uart_putc (Some u)) ?vs (con_hw (con s)) = Some h"
      "latched h" "out h = out (con_hw (con s)) @ map of_int ?vs"
    using sender_sends [OF ns16550_sender [OF assms(1,2)]] assms(5,10) by blast
  have put: "putchar_in (con s) = uart_putc (Some u)"
    by (simp add: assms(3) k_uart_set_default_console_def k_pri_set_getchar_def k_pri_set_putchar_def)
  have st: "k_file_get_desc cfg fd s = Some d" "d < 3" "unlocked (fd_lock s d)" "console_free (con s)"
    using assms(6) by (simp_all add: stream_def)
  let ?f = "(fd_lock s)(d := (fd_lock s d)\<lparr>lock_val := 1, lock_id := hart\<rparr>)"
  obtain l where l: "k_file_write_nolock (fds_ops gpio) hart d buf n (s\<lparr>fd_lock := ?f\<rparr>) =
      Some (int (unat n), s\<lparr>fd_lock := ?f, con := (con s)\<lparr>pri_lock := l, con_hw := h\<rparr>\<rparr>)" "unlocked l"
    using stdio_write_sends [OF st(2), of "s\<lparr>fd_lock := ?f\<rparr>" buf n h gpio hart] st(4) assms(7-9) h(1) put by auto
  have "k_sys_write cfg (fds_ops gpio) hart fd buf n s =
      Some (int (unat n), s\<lparr>fd_lock := ?f(d := k_spinlock_unlock (?f d)), con := (con s)\<lparr>pri_lock := l, con_hw := h\<rparr>\<rparr>)"
    using st l(1) by (simp add: k_sys_write_def fop_stdio k_file_write_def with_fd_lock_def)
  moreover have "map of_int ?vs = map (\<lambda>i. con_mem (con s) (buf + of_nat i)) [0..<unat n]"
    by (simp add: bytes_at_def)
  ultimately show ?thesis
    using st l(2) h(2,3) by (simp add: stream_def console_free_def k_file_get_desc_def split: if_splits)
qed

lemma uart_files_con: "con uart_files = snd (k_uart_set_default_console (Some uart_fifo) uart_console)"
  "con_mem (con uart_files) = (\<lambda>a. ucast a)" "con_hw (con uart_files) = \<lparr>hw_lcr = 3, hw_busy = 2, hw_sent = []\<rparr>"
  "stream small_config 1 1 uart_files" "hw_set (con_hw (con uart_files))"
  by (simp_all add: stream_def k_file_get_desc_def small_config_def uart_files_def console_free_def uart_console_def
        k_uart_set_default_console_def k_pri_set_getchar_def k_pri_set_putchar_def bit_numeral_rec)

theorem k_sys_write_reaches_uart_witness:
  "\<exists>s'. k_sys_write small_config (fds_ops None) 0 1 104 2 uart_files = Some (2, s') \<and> hw_sent (con_hw (con s')) = [104, 105]"
proof -
  have "ud_ops uart_fifo = Some (ns16550_uart_ops fifo_ns16550)" "\<forall>h. ud_probed uart_fifo h"
    by (simp_all add: uart_fifo_def)
  from k_sys_write_reaches_uart [OF fifo_tx(1,2) uart_files_con(1) this uart_files_con(4) _ _ _ uart_files_con(5), of 104 2 None 0]
  show ?thesis by (auto simp: uart_files_con(2,3) upt_rec)
qed

end
