(* ===== verification/Intc.thy ===== *)
theory Intc
  imports Cpu Device Regs
begin

section \<open>Interrupt controllers\<close>

text \<open>
  \<^verbatim>\<open>driver/intc/intc.c\<close> and the drivers \<^verbatim>\<open>riscv/rv_priv.c\<close> (the controller of a hart), \<^verbatim>\<open>sifive/clint.c\<close>
  (interrupts between harts) and \<^verbatim>\<open>sifive/plic.c\<close> (external interrupts).  Registered handlers are objects
  of the handler store; the private data of a driver is a record, its registers are behind the
  accessors of devices.  A string constant of a configuration table is given by its address,
  \<open>cstr\<close> is the string at an address.
\<close>

subsection \<open>Generic part\<close>

text \<open>The operations of a driver on the handler store and its private data.\<close>

type_synonym 'p handler_op = "int \<Rightarrow> hptr \<Rightarrow> hstore \<times> 'p \<Rightarrow> (int \<times> hstore \<times> 'p) option"

definition set_event :: "hstore \<Rightarrow> hptr \<Rightarrow> int \<Rightarrow> hstore" where
  "set_event hs h event = hs(h := (hs h)\<lparr>eh_event := event\<rparr>)"

definition k_intc_add_handler ::
    "'p handler_op option \<Rightarrow> int \<Rightarrow> hptr option \<Rightarrow> hstore \<times> 'p \<Rightarrow> (int \<times> hstore \<times> 'p) option" where
  "k_intc_add_handler add_op event handler s =
     (case handler of
        None \<Rightarrow> Some (- EINVAL, s)
      | Some h \<Rightarrow>
          if eh_func (fst s h) = 0 then Some (- EINVAL, s)
          else case add_op of
            None \<Rightarrow> Some (- ENODEV, s)
          | Some f \<Rightarrow> do {
              (r, hs, p) \<leftarrow> f event h s;
              Some (r, if r = 0 then set_event hs h event else hs, p)
            })"

definition k_intc_remove_handler ::
    "'p handler_op option \<Rightarrow> int \<Rightarrow> hptr option \<Rightarrow> hstore \<times> 'p \<Rightarrow> (int \<times> hstore \<times> 'p) option" where
  "k_intc_remove_handler remove_op event handler s =
     (case handler of
        None \<Rightarrow> Some (- EINVAL, s)
      | Some h \<Rightarrow>
          if eh_func (fst s h) = 0 then Some (- EINVAL, s)
          else case remove_op of
            None \<Rightarrow> Some (- ENODEV, s)
          | Some f \<Rightarrow> do {
              (r, hs, p) \<leftarrow> f event h s;
              Some (r, if r = 0 then set_next hs h None else hs, p)
            })"

text \<open>
  The controller for interrupts between CPUs, \<open>None\<close> when it is not set, with its operation
  \<open>raise_ipi\<close>, which is given the sending and the receiving CPU.
\<close>

definition k_intc_raise_ipi ::
    "(k_cpu_device \<Rightarrow> k_cpu_device \<Rightarrow> 'h \<Rightarrow> int \<times> 'h) option option \<Rightarrow> k_cpu_device \<Rightarrow> k_cpu_device \<Rightarrow> 'h \<Rightarrow> int \<times> 'h" where
  "k_intc_raise_ipi intc_ipi src dest h =
     (case intc_ipi of
        None \<Rightarrow> (- ENOTSUP, h)
      | Some op \<Rightarrow> (case op of None \<Rightarrow> (- ENOTSUP, h) | Some f \<Rightarrow> let (r, h) = f src dest h in if r \<noteq> 0 then (r, h) else (0, h)))"

definition k_intc_set_ipi :: "devptr option \<Rightarrow> devptr option \<Rightarrow> int \<times> devptr option" where
  "k_intc_set_ipi intc intc_ipi = (0, intc)"

definition k_intc_add_device ::
    "'d drv_ops \<Rightarrow> devptr \<Rightarrow> busptr option \<Rightarrow> 'd dstate \<times> devptr option \<Rightarrow> (int \<times> 'd dstate \<times> devptr option) option" where
  "k_intc_add_device ops d parent st = do {
     let (s, intc_ipi) = st
     in do {
       (r, s) \<leftarrow> k_device_add ops (Some d) parent s;
       if IS_ERROR r then Some (r, s, intc_ipi)
       else do {
         (r, v) \<leftarrow> k_device_read_conf_u32 (Some (devs s d)) (Some ''ipi'') 0;
         let v = (if r \<noteq> 0 then 0 else the v)
         in Some (0, s, if v \<noteq> 0 then snd (k_intc_set_ipi (Some d) intc_ipi) else intc_ipi)
       }
     }
   }"

definition k_intc_remove_device :: "devptr option \<Rightarrow> int" where
  "k_intc_remove_device intc = k_device_remove intc"

definition k_intc_get_conf_length :: "k_device \<Rightarrow> int \<times> int option" where
  "k_intc_get_conf_length dev =
     (let (r, v) = k_device_get_conf_length (Some dev) (Some ''interrupts'')
      in if r \<noteq> 0 then (r, None) else (0, map_option (\<lambda>n. n div 2) v))"

definition k_intc_get_intc_from_config ::
    "(u64 \<Rightarrow> string) \<Rightarrow> 'd dstate \<Rightarrow> k_device \<Rightarrow> int \<Rightarrow> (int \<times> (devptr \<times> u32) option) option" where
  "k_intc_get_intc_from_config cstr s dev index = conf_ref cstr ''interrupts'' s dev index"

definition k_cpu_get_cpu_from_config ::
    "(u64 \<Rightarrow> string) \<Rightarrow> 'd dstate \<Rightarrow> k_device \<Rightarrow> int \<Rightarrow> (int \<times> devptr option) option" where
  "k_cpu_get_cpu_from_config cstr s dev index = do {
     (r, a) \<leftarrow> k_device_read_conf_str (Some dev) (Some ''cpu'') index;
     if r \<noteq> 0 then Some (- EINVAL, None)
     else do {
       a \<leftarrow> a;
       (r, t) \<leftarrow> k_bus_find_device s (Some bus_root) (Some (cstr a));
       if r = - EAGAIN then Some (- EAGAIN, None)
       else if r \<noteq> 0 then Some (- EINVAL, None)
       else Some (0, t)
     }
   }"

text \<open>
  Registration of a controller at its parents, as \<open>intc_clint_add\<close> and \<open>intc_plic_add\<close> do it: for each entry
  of the configuration a handler of the pool with the function and private data of the driver.
  \<open>padd\<close> is the operation \<open>add_handler\<close> of the parent device.
\<close>

type_synonym 'p attach_state = "evt_state \<times> 'p"

fun attach_loop ::
    "(u64 \<Rightarrow> string) \<Rightarrow> (devptr \<Rightarrow> 'p handler_op option) \<Rightarrow> nat \<Rightarrow> u64 \<Rightarrow> 'd dstate \<Rightarrow> k_device \<Rightarrow> int list \<Rightarrow> 'p attach_state \<Rightarrow>
     (int \<times> 'p attach_state) option" where
  "attach_loop cstr padd func priv s dev [] st = Some (0, st)"
| "attach_loop cstr padd func priv s dev (i # is) (e, p) = do {
     (r, ref) \<leftarrow> k_intc_get_intc_from_config cstr s dev i;
     if r \<noteq> 0 then Some (r, e, p)
     else do {
       (parent, num_irq) \<leftarrow> ref;
       let (r, hnd, e) = k_event_alloc_handler e True
       in if r \<noteq> 0 then Some (r, e, p)
       else do {
         h \<leftarrow> hnd;
         let hs = (evt_store e)(h := (evt_store e h)\<lparr>eh_func := func, eh_priv := priv\<rparr>)
         in do {
           (r, hs, p) \<leftarrow> k_intc_add_handler (padd parent) (sint num_irq) (Some h) (hs, p);
           if r \<noteq> 0 then Some (r, e\<lparr>evt_store := hs\<rparr>, p)
           else attach_loop cstr padd func priv s dev is (e\<lparr>evt_store := hs\<rparr>, p)
         }
       }
     }
   }"

text \<open>
  The interrupt of a device with a single line, as the UARTs and the GPIO take it into use: the
  reference of the configuration is resolved and the handler in the private data is registered.  Any
  failure to resolve the reference, \<open>EAGAIN\<close> included, means polling.
\<close>

record irq_input =
  irq_intc :: "devptr option"
  irq_hnd :: hptr
  irq_num :: int

definition irq_attach ::
    "(u64 \<Rightarrow> string) \<Rightarrow> (devptr \<Rightarrow> 'p handler_op option) \<Rightarrow> nat \<Rightarrow> u64 \<Rightarrow> 'd dstate \<Rightarrow> k_device \<Rightarrow> irq_input \<Rightarrow> hstore \<times> 'p \<Rightarrow>
     (int \<times> irq_input \<times> hstore \<times> 'p) option" where
  "irq_attach cstr padd func pr s dev q hp = do {
     (r, ref) \<leftarrow> k_intc_get_intc_from_config cstr s dev 0;
     if r \<noteq> 0 then Some (0, q\<lparr>irq_intc := None\<rparr>, hp)
     else do {
       (c, irq) \<leftarrow> ref;
       let q = q\<lparr>irq_intc := Some c, irq_num := sint irq\<rparr>;
           (hs, p) = hp;
           hs = hs(irq_hnd q := (hs (irq_hnd q))\<lparr>eh_func := func, eh_priv := pr\<rparr>)
       in do {
         (r, hp) \<leftarrow> k_intc_add_handler (padd c) (irq_num q) (Some (irq_hnd q)) (hs, p);
         Some (r, q, hp)
       }
     }
   }"

text \<open>The way back, where there is a controller; \<open>premove\<close> is the operation \<open>remove_handler\<close> of a controller.\<close>

definition irq_detach ::
    "(devptr \<Rightarrow> 'p handler_op option) \<Rightarrow> devptr \<Rightarrow> irq_input \<Rightarrow> hstore \<times> 'p \<Rightarrow> (int \<times> irq_input \<times> hstore \<times> 'p) option" where
  "irq_detach premove c q hp = do {
     (r, hs, p) \<leftarrow> k_intc_remove_handler (premove c) (irq_num q) (Some (irq_hnd q)) hp;
     if r \<noteq> 0 then Some (r, q, hs, p)
     else Some (0, q\<lparr>irq_num := 0, irq_intc := None\<rparr>, hs(irq_hnd q := (hs (irq_hnd q))\<lparr>eh_func := 0, eh_priv := 0\<rparr>), p)
   }"

subsection \<open>The controller of a hart\<close>

record intc_priv_priv =
  hnd_ex :: hptr
  hnd_tm :: hptr
  hnd_sw :: hptr
  hnd_wake :: hptr
  hnd_sleep :: hptr
  has_ex :: bool
  enabled_ex :: bool
  has_tm :: bool
  enabled_tm :: bool
  has_sw :: bool
  enabled_sw :: bool

abbreviation (input) RV_CAUSE_INT_SW :: int where "RV_CAUSE_INT_SW \<equiv> 3"
abbreviation (input) RV_CAUSE_INT_TM :: int where "RV_CAUSE_INT_TM \<equiv> 7"
abbreviation (input) RV_CAUSE_INT_EX :: int where "RV_CAUSE_INT_EX \<equiv> 11"

definition intc_priv_intr ::
    "'s handler_call \<Rightarrow> hstore \<Rightarrow> int \<Rightarrow> hptr \<Rightarrow> 's \<Rightarrow> (int \<times> 's) option" where
  "intc_priv_intr call hs event hnd s =
     (case (if event \<in> {RV_CAUSE_INT_EX, RV_CAUSE_INT_TM, RV_CAUSE_INT_SW} then hnd_next (hs hnd) else None) of
        None \<Rightarrow> Some (EVENT_NOT_HANDLED, s)
      | Some c \<Rightarrow> do {
          (r, s) \<leftarrow> k_event_handle_generic call hs event (Some c) s;
          Some (if r = EVENT_HANDLED then EVENT_HANDLED else EVENT_NOT_HANDLED, s)
        })"

text \<open>\<open>mie\<close> is the interrupt enable register of the hart that runs.\<close>

definition intc_priv_mask :: "intc_priv_priv \<Rightarrow> u64" where
  "intc_priv_mask p =
     (if has_ex p \<and> enabled_ex p then push_bit 11 1 else 0) OR
     (if has_tm p \<and> enabled_tm p then push_bit 7 1 else 0) OR push_bit 3 1"

definition intc_priv_update_intr_mask :: "intc_priv_priv \<Rightarrow> bool \<Rightarrow> u64 \<Rightarrow> int \<times> u64" where
  "intc_priv_update_intr_mask p wakeup mie =
     (0, if wakeup then mie OR intc_priv_mask p else mie AND NOT (intc_priv_mask p))"

definition intc_priv_cpu_event :: "intc_priv_priv \<Rightarrow> int \<Rightarrow> u64 \<Rightarrow> int \<times> u64" where
  "intc_priv_cpu_event p event mie =
     (if event = int CPU_EVENT_ON_WAKEUP then
        let (r, mie) = intc_priv_update_intr_mask p True mie in (if r \<noteq> 0 then EVENT_NOT_HANDLED else EVENT_HANDLED, mie)
      else if event = int CPU_EVENT_ON_SLEEP then
        let (r, mie) = intc_priv_update_intr_mask p False mie in (if r \<noteq> 0 then EVENT_NOT_HANDLED else EVENT_HANDLED, mie)
      else (EVENT_NOT_HANDLED, mie))"

text \<open>The head of the list an event belongs to.\<close>

definition intc_priv_head :: "intc_priv_priv \<Rightarrow> int \<Rightarrow> hptr option" where
  "intc_priv_head p event =
     (if event \<in> {0, 1, 3} then Some (hnd_sw p)
      else if event \<in> {4, 5, 7} then Some (hnd_tm p)
      else if event \<in> {8, 9, 11} then Some (hnd_ex p)
      else None)"

definition intc_priv_flags :: "hstore \<Rightarrow> intc_priv_priv \<Rightarrow> intc_priv_priv" where
  "intc_priv_flags hs p =
     p\<lparr>has_ex := k_event_has_next hs (hnd_ex p), has_tm := k_event_has_next hs (hnd_tm p),
       has_sw := k_event_has_next hs (hnd_sw p)\<rparr>"

definition intc_priv_add_handler :: "intc_priv_priv handler_op" where
  "intc_priv_add_handler event h s =
     (let (hs, p) = s in
      case intc_priv_head p event of
        None \<Rightarrow> Some (- EINVAL, s)
      | Some head \<Rightarrow> do {
          (r, hs) \<leftarrow> k_event_add_handler hs (Some head) (Some h);
          if r \<noteq> 0 then Some (r, hs, p) else Some (0, hs, intc_priv_flags hs p)
        })"

definition intc_priv_remove_handler :: "intc_priv_priv handler_op" where
  "intc_priv_remove_handler event h s =
     (let (hs, p) = s in
      case intc_priv_head p event of
        None \<Rightarrow> Some (- EINVAL, s)
      | Some head \<Rightarrow> do {
          (r, hs) \<leftarrow> k_event_remove_handler hs (Some head) (Some h);
          if r \<noteq> 0 then Some (r, hs, p) else Some (0, hs, intc_priv_flags hs p)
        })"

definition intc_priv_enable :: "int \<Rightarrow> intc_priv_priv \<Rightarrow> int \<times> intc_priv_priv" where
  "intc_priv_enable event p =
     (if event \<in> {0, 1, 3} then (0, p)
      else if event \<in> {4, 5, 7} then (0, p\<lparr>enabled_tm := True\<rparr>)
      else if event \<in> {8, 9, 11} then (0, p\<lparr>enabled_ex := True\<rparr>)
      else (- EINVAL, p))"

definition intc_priv_disable :: "int \<Rightarrow> intc_priv_priv \<Rightarrow> int \<times> intc_priv_priv" where
  "intc_priv_disable event p =
     (if event \<in> {0, 1, 3} then (0, p)
      else if event \<in> {4, 5, 7} then (0, p\<lparr>enabled_tm := False\<rparr>)
      else if event \<in> {8, 9, 11} then (0, p\<lparr>enabled_ex := False\<rparr>)
      else (- EINVAL, p))"

text \<open>
  \<open>f_intr\<close> and \<open>f_event\<close> are the addresses of the handler functions, \<open>pr\<close> that of the private data;
  \<open>cpu\<close> is the CPU device at a device.
\<close>

definition intc_priv_set_funcs :: "nat \<Rightarrow> u64 \<Rightarrow> hptr list \<Rightarrow> hstore \<Rightarrow> hstore" where
  "intc_priv_set_funcs f pr hnds hs = fold (\<lambda>h hs. hs(h := (hs h)\<lparr>eh_func := f, eh_priv := pr\<rparr>)) hnds hs"

definition intc_priv_add ::
    "(u64 \<Rightarrow> string) \<Rightarrow> (devptr \<Rightarrow> k_cpu_device) \<Rightarrow> nat \<Rightarrow> nat \<Rightarrow> u64 \<Rightarrow> 'd dstate \<Rightarrow> devptr \<Rightarrow> intc_priv_priv option \<Rightarrow>
     hstore \<Rightarrow> arch_intr \<Rightarrow> (int \<times> hstore \<times> arch_intr \<times> intc_priv_priv option) option" where
  "intc_priv_add cstr cpu f_intr f_event pr s d priv hs a =
     (case priv of
        None \<Rightarrow> Some (- EINVAL, hs, a, None)
      | Some p \<Rightarrow> do {
          (r, c) \<leftarrow> k_cpu_get_cpu_from_config cstr s (devs s d) 0;
          if r \<noteq> 0 then Some (r, hs, a, Some p)
          else do {
            c \<leftarrow> c;
            let hs = intc_priv_set_funcs f_intr pr [hnd_ex p, hnd_tm p, hnd_sw p] hs;
                (r, a) = k_arch_set_intr_handler a RV_CAUSE_INT_EX (Some (hnd_ex p))
            in if r \<noteq> 0 then Some (r, hs, a, Some p)
            else let (r, a) = k_arch_set_intr_handler a RV_CAUSE_INT_TM (Some (hnd_tm p))
            in if r \<noteq> 0 then Some (r, hs, a, Some p)
            else let (r, a) = k_arch_set_intr_handler a RV_CAUSE_INT_SW (Some (hnd_sw p))
            in if r \<noteq> 0 then Some (r, hs, a, Some p)
            else let hs = intc_priv_set_funcs f_event pr [hnd_wake p, hnd_sleep p] hs
            in do {
              (r, hs) \<leftarrow> k_cpu_add_handler hs (cpu c) CPU_EVENT_ON_WAKEUP (hnd_wake p);
              if r \<noteq> 0 then Some (r, hs, a, Some p)
              else do {
                (r, hs) \<leftarrow> k_cpu_add_handler hs (cpu c) CPU_EVENT_ON_SLEEP (hnd_sleep p);
                if r \<noteq> 0 then Some (r, hs, a, Some p)
                else Some (0, hs, a, Some (p\<lparr>enabled_ex := True, enabled_tm := True, enabled_sw := True\<rparr>))
              }
            }
          }
        })"

definition intc_priv_remove :: "k_cpu_device \<Rightarrow> intc_priv_priv \<Rightarrow> hstore \<Rightarrow> (int \<times> hstore) option" where
  "intc_priv_remove cpu p hs = do {
     (r, hs) \<leftarrow> k_cpu_remove_handler hs cpu CPU_EVENT_ON_WAKEUP (hnd_wake p);
     if r \<noteq> 0 then Some (r, hs)
     else do {
       (r, hs) \<leftarrow> k_cpu_remove_handler hs cpu CPU_EVENT_ON_SLEEP (hnd_sleep p);
       if r \<noteq> 0 then Some (r, hs) else Some (- ENOTSUP, hs)
     }
   }"

subsection \<open>CLINT\<close>

definition REG_MSIP :: "int \<Rightarrow> u64" where
  "REG_MSIP hart = of_int (hart * 4)"

text \<open>\<open>cur\<close> is the physical number of the CPU that runs.\<close>

definition intc_clint_intr :: "'h rdev \<Rightarrow> int \<Rightarrow> int \<Rightarrow> 'h \<Rightarrow> int \<times> 'h" where
  "intc_clint_intr dev cur event h =
     (if event = 3 then (EVENT_HANDLED, k_device_write32 dev 0 (REG_MSIP cur) h) else (EVENT_NOT_HANDLED, h))"

definition intc_clint_raise_ipi :: "'h rdev \<Rightarrow> int \<Rightarrow> k_cpu_device \<Rightarrow> k_cpu_device \<Rightarrow> 'h \<Rightarrow> int \<times> 'h" where
  "intc_clint_raise_ipi dev cur src dest h =
     (if cur \<noteq> id_phys src then (- EINVAL, h)
      else (0, k_device_write32 dev 1 (REG_MSIP (id_phys dest)) h))"

definition intc_clint_add ::
    "(u64 \<Rightarrow> string) \<Rightarrow> 'd drv_ops \<Rightarrow> (devptr \<Rightarrow> 'p handler_op option) \<Rightarrow> nat \<Rightarrow> u64 option \<Rightarrow> devptr \<Rightarrow> 'd dstate \<Rightarrow> 'p attach_state \<Rightarrow>
     (int \<times> 'd dstate \<times> 'p attach_state) option" where
  "intc_clint_add cstr ops padd func priv d s st =
     (case priv of
        None \<Rightarrow> Some (- EINVAL, s, st)
      | Some pr \<Rightarrow> do {
          (r, s) \<leftarrow> k_io_mmap_device ops d s;
          if r \<noteq> 0 then Some (r, s, st)
          else let (r, len) = k_intc_get_conf_length (devs s d)
          in if r \<noteq> 0 then Some (r, s, st)
          else do {
            len \<leftarrow> len;
            (r, st) \<leftarrow> attach_loop cstr padd func pr s (devs s d) [0..len - 1] st;
            Some (r, s, st)
          }
        })"

definition intc_clint_remove :: "devptr \<Rightarrow> int" where
  "intc_clint_remove dev = 0"

subsection \<open>PLIC\<close>

abbreviation (input) PLIC_SOURCES_MAX :: nat where "PLIC_SOURCES_MAX \<equiv> 64"
abbreviation (input) PLIC_CONTEXTS_MAX :: nat where "PLIC_CONTEXTS_MAX \<equiv> 64"

definition REG_PRIORITY :: "int \<Rightarrow> u64" where
  "REG_PRIORITY n = of_int (n * 4)"

definition REG_INTR_EN :: "int \<Rightarrow> int \<Rightarrow> u64" where
  "REG_INTR_EN n ctx = of_int (0x2000 + ctx * 0x80 + n div 32 * 4)"

definition REG_PRIORITY_THR :: "int \<Rightarrow> u64" where
  "REG_PRIORITY_THR ctx = of_int (0x200000 + ctx * 0x1000)"

definition REG_CLAIM :: "int \<Rightarrow> u64" where
  "REG_CLAIM ctx = of_int (0x200000 + ctx * 0x1000 + 4)"

text \<open>The private data with the hardware behind the registers.\<close>

record 'h intc_plic_priv =
  plic_hnd :: "hptr option list"
  plic_hw :: 'h

definition plic_clear_ctx :: "'h rdev \<Rightarrow> int \<Rightarrow> int \<Rightarrow> 'h \<Rightarrow> 'h" where
  "plic_clear_ctx dev n_event ctx h =
     (let h = k_device_write32 dev 0 (REG_PRIORITY_THR ctx) h;
          h = fold (\<lambda>event. k_device_write32 dev 0 (REG_PRIORITY event)) [0..n_event - 1] h
      in fold (\<lambda>event. k_device_write32 dev 0 (REG_INTR_EN event ctx)) (filter (\<lambda>e. e mod 32 = 0) [0..n_event - 1]) h)"

definition intc_plic_clear_all :: "'h rdev \<Rightarrow> int \<Rightarrow> int \<Rightarrow> 'h \<Rightarrow> int \<times> 'h" where
  "intc_plic_clear_all dev n_event n_ctx h = (0, fold (plic_clear_ctx dev n_event) [0..n_ctx - 1] h)"

definition intc_plic_enable_interrupt :: "'h rdev \<Rightarrow> int \<Rightarrow> int \<Rightarrow> 'h \<Rightarrow> int \<times> 'h" where
  "intc_plic_enable_interrupt dev event ctx h =
     (let bpos = nat (event mod 32);
          h = k_device_write32 dev 1 (REG_PRIORITY event) h;
          h = k_device_write32 dev 0 (REG_PRIORITY_THR ctx) h;
          (tmp, h) = k_device_read32 dev (REG_INTR_EN event ctx) h
      in (0, k_device_write32 dev (tmp OR push_bit bpos 1) (REG_INTR_EN event ctx) h))"

definition intc_plic_disable_interrupt :: "'h rdev \<Rightarrow> int \<Rightarrow> int \<Rightarrow> 'h \<Rightarrow> int \<times> 'h" where
  "intc_plic_disable_interrupt dev event ctx h =
     (let bpos = nat (event mod 32);
          (tmp, h) = k_device_read32 dev (REG_INTR_EN event ctx) h
      in (0, k_device_write32 dev (tmp AND NOT (push_bit bpos 1)) (REG_INTR_EN event ctx) h))"

definition intc_plic_add_handler :: "'h rdev \<Rightarrow> 'h intc_plic_priv handler_op" where
  "intc_plic_add_handler dev event h s =
     (let (hs, p) = s in
      if event < 0 \<or> int PLIC_SOURCES_MAX \<le> event then Some (- EINVAL, s)
      else if plic_hnd p ! nat event \<noteq> None then Some (- EINVAL, s)
      else
        let p = p\<lparr>plic_hnd := (plic_hnd p)[nat event := Some h]\<rparr>;
            (r, w) = intc_plic_enable_interrupt dev event 0 (plic_hw p)
        in Some (if r \<noteq> 0 then r else 0, hs, p\<lparr>plic_hw := w\<rparr>))"

definition intc_plic_remove_handler :: "'h rdev \<Rightarrow> 'h intc_plic_priv handler_op" where
  "intc_plic_remove_handler dev event h s =
     (let (hs, p) = s in
      if event < 0 \<or> int PLIC_SOURCES_MAX \<le> event then Some (- EINVAL, s)
      else if plic_hnd p ! nat event = None then Some (- EINVAL, s)
      else
        let (r, w) = intc_plic_disable_interrupt dev event 0 (plic_hw p);
            p = p\<lparr>plic_hw := w\<rparr>
        in if r \<noteq> 0 then Some (r, hs, p) else Some (0, hs, p\<lparr>plic_hnd := (plic_hnd p)[nat event := None]\<rparr>))"

text \<open>
  The handlers are called after the interrupt is completed.  The number read from the claim register
  is used as an index without a check.
\<close>

definition intc_plic_intr ::
    "'h rdev \<Rightarrow> 's handler_call \<Rightarrow> hstore \<Rightarrow> 'h intc_plic_priv \<Rightarrow> 's \<Rightarrow> (int \<times> 'h intc_plic_priv \<times> 's) option" where
  "intc_plic_intr dev call hs p s =
     (let (v, w) = k_device_read32 dev (REG_CLAIM 0) (plic_hw p);
          w = k_device_write32 dev v (REG_CLAIM 0) w;
          p = p\<lparr>plic_hw := w\<rparr>
      in if length (plic_hnd p) \<le> unat v then None
         else case plic_hnd p ! unat v of
           None \<Rightarrow> Some (EVENT_NOT_HANDLED, p, s)
         | Some h \<Rightarrow> do {
             (r, s) \<leftarrow> k_event_handle_generic call hs (uint v) (Some h) s;
             Some (r, p, s)
           })"

text \<open>The counts of the configuration are limited to the size of the tables.\<close>

definition plic_count :: "nat \<Rightarrow> k_device \<Rightarrow> string \<Rightarrow> u32 option" where
  "plic_count lim dev key = do {
     (r, v) \<leftarrow> k_device_read_conf_u32 (Some dev) (Some key) 0;
     Some (NMIN (of_nat lim) (if r \<noteq> 0 then of_nat lim else the v))
   }"

definition intc_plic_add ::
    "(u64 \<Rightarrow> string) \<Rightarrow> 'd drv_ops \<Rightarrow> (devptr \<Rightarrow> 'p handler_op option) \<Rightarrow> 'h rdev \<Rightarrow> nat \<Rightarrow> u64 option \<Rightarrow> devptr \<Rightarrow> 'd dstate \<Rightarrow>
     'p attach_state \<Rightarrow> 'h \<Rightarrow> (int \<times> 'd dstate \<times> 'p attach_state \<times> 'h) option" where
  "intc_plic_add cstr ops padd dev func priv d s st h =
     (case priv of
        None \<Rightarrow> Some (- EINVAL, s, st, h)
      | Some pr \<Rightarrow> do {
          (r, s) \<leftarrow> k_io_mmap_device ops d s;
          if r \<noteq> 0 then Some (r, s, st, h)
          else let (r, len) = k_intc_get_conf_length (devs s d)
          in if r \<noteq> 0 then Some (r, s, st, h)
          else do {
            len \<leftarrow> len;
            (r, st) \<leftarrow> attach_loop cstr padd func pr s (devs s d) [0..len - 1] st;
            if r \<noteq> 0 then Some (r, s, st, h)
            else do {
              n_event \<leftarrow> plic_count PLIC_SOURCES_MAX (devs s d) ''n_source'';
              n_ctx \<leftarrow> plic_count PLIC_CONTEXTS_MAX (devs s d) ''n_context'';
              let (r, h) = intc_plic_clear_all (mapped s d dev) (sint n_event) (sint n_ctx) h
              in Some (if r \<noteq> 0 then r else 0, s, st, h)
            }
          }
        })"

definition intc_plic_remove :: "devptr \<Rightarrow> int" where
  "intc_plic_remove dev = 0"

subsection \<open>Handlers on lines, examples\<close>

definition priv_line :: "int \<Rightarrow> nat option" where
  "priv_line e = (if e \<in> {0, 1, 3} then Some 0 else if e \<in> {4, 5, 7} then Some 1 else if e \<in> {8, 9, 11} then Some 2 else None)"

definition priv_head :: "intc_priv_priv \<Rightarrow> nat \<Rightarrow> hptr" where
  "priv_head p l = (if l = 0 then hnd_sw p else if l = 1 then hnd_tm p else hnd_ex p)"

text \<open>Three disjoint lists behind their heads, and flags that tell which of them have handlers.\<close>

definition priv_lists :: "hstore \<Rightarrow> intc_priv_priv \<Rightarrow> (nat \<Rightarrow> hptr list) \<Rightarrow> bool" where
  "priv_lists hs p f \<longleftrightarrow>
     (\<forall>l<3. chain hs (Some (priv_head p l)) (priv_head p l # f l)) \<and> (\<forall>l\<ge>3. f l = []) \<and>
     (\<forall>l<3. \<forall>l'<3. l \<noteq> l' \<longrightarrow> set (priv_head p l # f l) \<inter> set (priv_head p l' # f l') = {})"

definition priv_rep :: "hstore \<times> intc_priv_priv \<Rightarrow> (nat \<Rightarrow> hptr list) \<Rightarrow> bool" where
  "priv_rep s f \<longleftrightarrow>
     (let (hs, p) = s in priv_lists hs p f \<and>
      (has_sw p \<longleftrightarrow> f 0 \<noteq> []) \<and> (has_tm p \<longleftrightarrow> f 1 \<noteq> []) \<and> (has_ex p \<longleftrightarrow> f 2 \<noteq> []))"

definition priv_fresh :: "hstore \<times> intc_priv_priv \<Rightarrow> (nat \<Rightarrow> hptr list) \<Rightarrow> nat \<Rightarrow> hptr \<Rightarrow> bool" where
  "priv_fresh s f l h \<longleftrightarrow> l < 3 \<and> (\<forall>l'<3. h \<notin> set (priv_head (snd s) l' # f l'))"

text \<open>What becomes of the lists when a handler is added to the list of a line.\<close>

definition added :: "(nat \<Rightarrow> hptr list) \<Rightarrow> nat \<Rightarrow> hptr \<Rightarrow> nat \<Rightarrow> hptr list" where
  "added f l h l' = (if l' = l \<or> h \<in> set (f l') then takeWhile (\<lambda>x. x \<noteq> h) (f l') @ [h] else f l')"

definition plic_line :: "int \<Rightarrow> nat option" where
  "plic_line e = (if 0 \<le> e \<and> e < int PLIC_SOURCES_MAX then Some (nat e) else None)"

definition plic_rep :: "hstore \<times> 'h intc_plic_priv \<Rightarrow> (nat \<Rightarrow> hptr list) \<Rightarrow> bool" where
  "plic_rep s f \<longleftrightarrow>
     (let (hs, p) = s in length (plic_hnd p) = PLIC_SOURCES_MAX \<and>
      (\<forall>l. f l = (if l < PLIC_SOURCES_MAX then (case plic_hnd p ! l of None \<Rightarrow> [] | Some h \<Rightarrow> [h]) else [])) \<and>
      (\<forall>l. \<forall>h \<in> set (f l). hnd_next (hs h) = None))"

definition plic_fresh :: "hstore \<times> 'h intc_plic_priv \<Rightarrow> (nat \<Rightarrow> hptr list) \<Rightarrow> nat \<Rightarrow> hptr \<Rightarrow> bool" where
  "plic_fresh s f l h \<longleftrightarrow> f l = [] \<and> hnd_next (fst s h) = None"

definition example_hart :: intc_priv_priv where
  "example_hart =
     \<lparr>hnd_ex = 10, hnd_tm = 11, hnd_sw = 12, hnd_wake = 13, hnd_sleep = 14, has_ex = False, enabled_ex = True,
      has_tm = False, enabled_tm = True, has_sw = False, enabled_sw = True\<rparr>"

definition example_trap :: hstore where
  "example_trap h =
     \<lparr>eh_func = (if h = 10 then 1 else if h = 5 then 2 else 3), eh_priv = 0,
      eh_event = (if h = 5 then 11 else if h = 6 then 4 else 0), hnd_next = (if h = 10 then Some 5 else None)\<rparr>"

definition example_plic :: "(u64 \<Rightarrow> u32) intc_plic_priv" where
  "example_plic = \<lparr>plic_hnd = (replicate 64 None)[4 := Some 6], plic_hw = (\<lambda>_. 4)\<rparr>"

subsection \<open>Registration and delivery\<close>

text \<open>
  The contract of a controller with its clients: handlers are registered on lines, abstractly a list
  of handlers for each line.  \<open>rep\<close> relates handler store and private data to these lists, \<open>fresh\<close> says
  that a handler may be added to a line.
\<close>

locale handler_lines =
  fixes add :: "'p handler_op" and remove :: "'p handler_op"
    and line :: "int \<Rightarrow> nat option"
    and rep :: "hstore \<times> 'p \<Rightarrow> (nat \<Rightarrow> hptr list) \<Rightarrow> bool"
    and fresh :: "hstore \<times> 'p \<Rightarrow> (nat \<Rightarrow> hptr list) \<Rightarrow> nat \<Rightarrow> hptr \<Rightarrow> bool"
  assumes add_line: "rep (hs, p) f \<Longrightarrow> line e = Some l \<Longrightarrow> fresh (hs, p) f l h \<Longrightarrow>
      \<exists>hs' p'. add e h (hs, p) = Some (0, hs', p') \<and> rep (hs', p') (f(l := f l @ [h])) \<and>
        (\<forall>x. eh_func (hs' x) = eh_func (hs x) \<and> eh_event (hs' x) = eh_event (hs x))"
    and remove_line: "rep (hs, p) f \<Longrightarrow> line e = Some l \<Longrightarrow> h \<in> set (f l) \<Longrightarrow>
      \<exists>hs' p'. remove e h (hs, p) = Some (0, hs', p') \<and> rep (set_next hs' h None, p') (f(l := remove1 h (f l))) \<and>
        (\<forall>x. eh_func (hs' x) = eh_func (hs x) \<and> eh_event (hs' x) = eh_event (hs x))"
    and remove_empty: "rep s f \<Longrightarrow> line e = Some l \<Longrightarrow> f l = [] \<Longrightarrow> remove e h s = Some (- EINVAL, s)"
    and no_line: "line e = None \<Longrightarrow> add e h s = Some (- EINVAL, s)" "line e = None \<Longrightarrow> remove e h s = Some (- EINVAL, s)"
    and rep_event: "rep (hs, p) f \<Longrightarrow> rep (set_event hs h e, p) f"
    and fresh_new: "rep s f \<Longrightarrow> fresh s f l h \<Longrightarrow> h \<notin> set (f l)"
begin

lemma intc_add:
  assumes "rep (hs, p) f" "line e = Some l" "fresh (hs, p) f l h" "eh_func (hs h) \<noteq> 0"
  shows "\<exists>hs' p'. k_intc_add_handler (Some add) e (Some h) (hs, p) = Some (0, hs', p') \<and>
    rep (hs', p') (f(l := f l @ [h])) \<and> eh_event (hs' h) = e \<and>
    (\<forall>x. eh_func (hs' x) = eh_func (hs x)) \<and> (\<forall>x. x \<noteq> h \<longrightarrow> eh_event (hs' x) = eh_event (hs x))"
proof -
  obtain hs' p' where a: "add e h (hs, p) = Some (0, hs', p')" "rep (hs', p') (f(l := f l @ [h]))"
      "\<forall>x. eh_func (hs' x) = eh_func (hs x) \<and> eh_event (hs' x) = eh_event (hs x)"
    using add_line [OF assms(1-3)] by blast
  have "k_intc_add_handler (Some add) e (Some h) (hs, p) = Some (0, set_event hs' h e, p')"
    using a(1) assms(4) by (simp add: k_intc_add_handler_def)
  then show ?thesis using rep_event [OF a(2)] a(3) by (auto simp: set_event_def)
qed

lemma intc_remove:
  assumes "rep (hs, p) f" "line e = Some l" "h \<in> set (f l)" "eh_func (hs h) \<noteq> 0"
  shows "\<exists>hs' p'. k_intc_remove_handler (Some remove) e (Some h) (hs, p) = Some (0, hs', p') \<and>
    rep (hs', p') (f(l := remove1 h (f l))) \<and> hnd_next (hs' h) = None"
proof -
  obtain hs' p' where a: "remove e h (hs, p) = Some (0, hs', p')" "rep (set_next hs' h None, p') (f(l := remove1 h (f l)))"
    using remove_line [OF assms(1-3)] by blast
  then show ?thesis using assms(4) by (simp add: k_intc_remove_handler_def hnd_next_set_next)
qed

lemma intc_add_remove:
  assumes "rep (hs, p) f" "line e = Some l" "fresh (hs, p) f l h" "eh_func (hs h) \<noteq> 0"
  shows "\<exists>hs' p' hs'' p''. k_intc_add_handler (Some add) e (Some h) (hs, p) = Some (0, hs', p') \<and>
    rep (hs', p') (f(l := f l @ [h])) \<and> eh_event (hs' h) = e \<and>
    k_intc_remove_handler (Some remove) e (Some h) (hs', p') = Some (0, hs'', p'') \<and> rep (hs'', p'') f"
proof -
  obtain hs' p' where a: "k_intc_add_handler (Some add) e (Some h) (hs, p) = Some (0, hs', p')"
      "rep (hs', p') (f(l := f l @ [h]))" "eh_event (hs' h) = e" "\<forall>x. eh_func (hs' x) = eh_func (hs x)"
    using intc_add [OF assms] by blast
  have "h \<notin> set (f l)" using fresh_new [OF assms(1,3)] .
  then have f: "(f(l := f l @ [h]))(l := remove1 h ((f(l := f l @ [h])) l)) = f"
    by (simp add: remove1_append fun_eq_iff)
  show ?thesis
    using a intc_remove [OF a(2) assms(2), of h] assms(4) unfolding f by auto
qed

end

subsection \<open>The lines of a hart\<close>

lemma priv_line_head: "priv_line e = Some l \<Longrightarrow> l < 3 \<and> intc_priv_head p e = Some (priv_head p l)"
  by (auto simp: priv_line_def intc_priv_head_def priv_head_def split: if_splits)

lemma priv_line_none: "priv_line e = None \<Longrightarrow> intc_priv_head p e = None"
  by (auto simp: priv_line_def intc_priv_head_def split: if_splits)

lemma priv_head_flags [simp]: "priv_head (intc_priv_flags hs p) = priv_head p"
  by (simp add: fun_eq_iff priv_head_def intc_priv_flags_def)

lemma chain_flag: "chain hs (Some h) (h # xs) \<Longrightarrow> k_event_has_next hs h \<longleftrightarrow> xs \<noteq> []"
  by (cases xs) (auto simp: k_event_has_next_def)

text \<open>The flags follow from the lists.\<close>

lemma priv_rep_flags:
  assumes "priv_lists hs p f"
  shows "priv_rep (hs, intc_priv_flags hs p) f"
proof -
  have "k_event_has_next hs (priv_head p l) \<longleftrightarrow> f l \<noteq> []" if "l < 3" for l
    using chain_flag assms that unfolding priv_lists_def by blast
  from this [of 0] this [of 1] this [of 2]
  have "has_sw (intc_priv_flags hs p) \<longleftrightarrow> f 0 \<noteq> []" "has_tm (intc_priv_flags hs p) \<longleftrightarrow> f 1 \<noteq> []"
    "has_ex (intc_priv_flags hs p) \<longleftrightarrow> f 2 \<noteq> []"
    by (simp_all add: intc_priv_flags_def priv_head_def)
  then show ?thesis using assms by (simp add: priv_rep_def priv_lists_def)
qed

lemma chain_other: "chain hs q xs \<Longrightarrow> y \<notin> set xs \<Longrightarrow> chain (set_next hs y n) q xs"
  by (simp add: chain_def seg_set_next)

lemma chain_set_event: "chain (set_event hs h e) q xs = chain hs q xs"
  by (induction xs arbitrary: q) (auto simp: set_event_def)

lemma set_next_fields: "eh_func (set_next hs y n x) = eh_func (hs x)" "eh_event (set_next hs y n x) = eh_event (hs x)"
  by (simp_all add: set_next_def)

text \<open>One list changes, to a list without new elements but \<open>h\<close>; the others do not see the change.\<close>

lemma priv_lists_change:
  assumes "priv_lists hs p f" "l < 3" "set ys \<subseteq> insert h (set (f l))" "\<And>l'. l' < 3 \<Longrightarrow> l' \<noteq> l \<Longrightarrow> h \<notin> set (priv_head p l' # f l')"
    and "chain hs' (Some (priv_head p l)) (priv_head p l # ys)"
    and "\<And>l'. l' < 3 \<Longrightarrow> l' \<noteq> l \<Longrightarrow> chain hs' (Some (priv_head p l')) (priv_head p l' # f l')"
  shows "priv_lists hs' p (f(l := ys))"
proof -
  have dis: "set (priv_head p a # f a) \<inter> set (priv_head p b # f b) = {}" if "a < 3" "b < 3" "a \<noteq> b" for a b
    using assms(1) that unfolding priv_lists_def by blast
  have ch: "\<forall>l'<3. chain hs' (Some (priv_head p l')) (priv_head p l' # (f(l := ys)) l')"
    using assms(5,6) by simp
  have rest: "\<forall>l'\<ge>3. (f(l := ys)) l' = []" using assms(1,2) by (simp add: priv_lists_def)
  have new: "set (priv_head p l # ys) \<inter> set (priv_head p b # f b) = {}" if "b < 3" "b \<noteq> l" for b
    using dis [OF assms(2) that(1)] assms(3) assms(4) [OF that] that(2) by auto
  have "set (priv_head p a # (f(l := ys)) a) \<inter> set (priv_head p b # (f(l := ys)) b) = {}" if "a < 3" "b < 3" "a \<noteq> b" for a b
    using new [OF that(1)] new [OF that(2)] dis [OF that] that(3) by (cases "a = l"; cases "b = l") auto
  then show ?thesis using ch rest unfolding priv_lists_def by blast
qed

lemma priv_add_line:
  assumes "priv_rep (hs, p) f" "priv_line e = Some l" "priv_fresh (hs, p) f l h"
  shows "\<exists>hs' p'. intc_priv_add_handler e h (hs, p) = Some (0, hs', p') \<and> priv_rep (hs', p') (f(l := f l @ [h])) \<and>
    (\<forall>x. eh_func (hs' x) = eh_func (hs x) \<and> eh_event (hs' x) = eh_event (hs x))"
proof -
  let ?xs = "priv_head p l # f l"
  let ?hs = "set_next (set_next hs (last ?xs) (Some h)) h None"
  have lists: "priv_lists hs p f" using assms(1) by (simp add: priv_rep_def)
  have l: "l < 3" "intc_priv_head p e = Some (priv_head p l)" using priv_line_head [OF assms(2)] by auto
  have fr: "h \<notin> set (priv_head p l' # f l')" if "l' < 3" for l' using assms(3) that by (simp add: priv_fresh_def)
  have ch: "chain hs (Some (priv_head p l')) (priv_head p l' # f l')" if "l' < 3" for l'
    using lists that unfolding priv_lists_def by blast
  have other: "last ?xs \<notin> set (priv_head p l' # f l')" if "l' < 3" "l' \<noteq> l" for l'
  proof -
    have "last ?xs \<in> set ?xs" by (rule last_in_set) simp
    moreover have "set ?xs \<inter> set (priv_head p l' # f l') = {}"
      using lists l(1) that unfolding priv_lists_def by blast
    ultimately show ?thesis by blast
  qed
  have "priv_lists ?hs p (f(l := f l @ [h]))"
  proof (rule priv_lists_change [OF lists l(1)])
    show "chain ?hs (Some (priv_head p l)) (priv_head p l # f l @ [h])"
      using add_handler_fresh(2) [OF ch [OF l(1)] fr [OF l(1)]] by simp
    show "chain ?hs (Some (priv_head p l')) (priv_head p l' # f l')" if "l' < 3" "l' \<noteq> l" for l'
      using chain_other [OF chain_other [OF ch [OF that(1)] other [OF that]] fr [OF that(1)]] .
  qed (use fr in auto)
  moreover have "intc_priv_add_handler e h (hs, p) = Some (0, ?hs, intc_priv_flags ?hs p)"
    using add_handler_fresh(1) [OF ch [OF l(1)] fr [OF l(1)]] l(2) by (simp add: intc_priv_add_handler_def)
  ultimately show ?thesis using priv_rep_flags by (simp add: set_next_fields)
qed

lemma priv_remove_line:
  assumes "priv_rep (hs, p) f" "priv_line e = Some l" "h \<in> set (f l)"
  shows "\<exists>hs' p'. intc_priv_remove_handler e h (hs, p) = Some (0, hs', p') \<and>
    priv_rep (set_next hs' h None, p') (f(l := remove1 h (f l))) \<and>
    (\<forall>x. eh_func (hs' x) = eh_func (hs x) \<and> eh_event (hs' x) = eh_event (hs x))"
proof -
  have lists: "priv_lists hs p f" using assms(1) by (simp add: priv_rep_def)
  have l: "l < 3" "intc_priv_head p e = Some (priv_head p l)" using priv_line_head [OF assms(2)] by auto
  have ch: "chain hs (Some (priv_head p l')) (priv_head p l' # f l')" if "l' < 3" for l'
    using lists that unfolding priv_lists_def by blast
  have dis: "set (priv_head p l # f l) \<inter> set (priv_head p l' # f l') = {}" if "l' < 3" "l' \<noteq> l" for l'
    using lists l(1) that unfolding priv_lists_def by blast
  have fr: "h \<notin> set (priv_head p l' # f l')" if "l' < 3" "l' \<noteq> l" for l' using dis [OF that] assms(3) by auto
  have hd: "h \<noteq> priv_head p l" using chain_distinct [OF ch [OF l(1)]] assms(3) by auto
  then have heads: "h \<noteq> priv_head p l'" if "l' < 3" for l' using fr that by (cases "l' = l") auto
  have "h \<in> set (tl (priv_head p l # f l))" using assms(3) by simp
  then obtain y where y: "y \<in> set (priv_head p l # f l)" "y \<noteq> h"
      "k_event_remove_handler hs (Some (priv_head p l)) (Some h) = Some (0, set_next hs y (hnd_next (hs h)))"
      "chain (set_next hs y (hnd_next (hs h))) (Some (priv_head p l)) (remove1 h (priv_head p l # f l))"
    using remove_handler_chain [OF ch [OF l(1)]] by blast
  let ?hs = "set_next hs y (hnd_next (hs h))"
  have rem: "remove1 h (priv_head p l # f l) = priv_head p l # remove1 h (f l)" using hd by simp
  have "h \<notin> set (priv_head p l # remove1 h (f l))"
    using hd chain_distinct [OF ch [OF l(1)]] by auto
  note c = chain_other [OF y(4) [unfolded rem] this]
  have "priv_lists (set_next ?hs h None) p (f(l := remove1 h (f l)))"
  proof (rule priv_lists_change [OF lists l(1)])
    show "chain (set_next ?hs h None) (Some (priv_head p l')) (priv_head p l' # f l')" if "l' < 3" "l' \<noteq> l" for l'
      using chain_other [OF chain_other [OF ch [OF that(1)]]] dis [OF that] y(1) fr [OF that] by blast
  qed (use c fr set_remove1_subset [of h "f l"] in auto)
  moreover have "intc_priv_flags (set_next ?hs h None) p = intc_priv_flags ?hs p"
    using heads [of 0] heads [of 1] heads [of 2] by (simp add: intc_priv_flags_def k_event_has_next_def hnd_next_set_next priv_head_def)
  ultimately have "priv_rep (set_next ?hs h None, intc_priv_flags ?hs p) (f(l := remove1 h (f l)))"
    using priv_rep_flags [of "set_next ?hs h None"] by metis
  moreover have "intc_priv_remove_handler e h (hs, p) = Some (0, ?hs, intc_priv_flags ?hs p)"
    using y(3) l(2) by (simp add: intc_priv_remove_handler_def)
  ultimately show ?thesis by (simp add: set_next_fields)
qed

lemma priv_remove_empty:
  assumes "priv_rep s f" "priv_line e = Some l" "f l = []"
  shows "intc_priv_remove_handler e h s = Some (- EINVAL, s)"
proof -
  obtain hs p where s: "s = (hs, p)" by force
  have l: "l < 3" "intc_priv_head p e = Some (priv_head p l)" using priv_line_head [OF assms(2)] by auto
  have "chain hs (Some (priv_head p l)) (priv_head p l # f l)"
    using assms(1) l(1) by (auto simp: s priv_rep_def priv_lists_def)
  then have "find_prev hs (Some (priv_head p l)) h = Some None"
    using find_prev_none assms(3) by (metis empty_iff empty_set list.sel(3))
  then show ?thesis using l(2) by (simp add: s intc_priv_remove_handler_def k_event_remove_handler_def)
qed

interpretation hart_intc: handler_lines intc_priv_add_handler intc_priv_remove_handler priv_line priv_rep priv_fresh
proof
  show "priv_rep (set_event hs h e, p) f" if "priv_rep (hs, p) f" for hs p f h e
    using that unfolding priv_rep_def priv_lists_def Let_def split_conv chain_set_event .
  show "priv_rep s f \<Longrightarrow> priv_fresh s f l h \<Longrightarrow> h \<notin> set (f l)" for s f l h
    by (simp add: priv_fresh_def)
  show "intc_priv_add_handler e h s = Some (- EINVAL, s)" "intc_priv_remove_handler e h s = Some (- EINVAL, s)"
    if "priv_line e = None" for e h s
    using that by (simp_all add: intc_priv_add_handler_def intc_priv_remove_handler_def priv_line_none split: prod.splits)
qed (rule priv_add_line priv_remove_line priv_remove_empty; assumption)+

subsection \<open>The lines of the PLIC\<close>

lemma plic_line_Some: "plic_line e = Some l \<longleftrightarrow> e = int l \<and> l < PLIC_SOURCES_MAX"
  by (auto simp: plic_line_def)

lemma plic_enable_ok: "fst (intc_plic_enable_interrupt dev e c w) = 0" "fst (intc_plic_disable_interrupt dev e c w) = 0"
  by (simp_all add: intc_plic_enable_interrupt_def intc_plic_disable_interrupt_def Let_def split: prod.splits)

lemma plic_rep_line:
  assumes "plic_rep (hs, p) f"
  shows "f l = (if l < 64 then (case plic_hnd p ! l of None \<Rightarrow> [] | Some h \<Rightarrow> [h]) else [])"
    "h \<in> set (f l) \<Longrightarrow> hnd_next (hs h) = None" "length (plic_hnd p) = 64"
  using assms unfolding plic_rep_def Let_def split_conv by blast+

lemma or_and_not_same: "(x OR y) AND NOT y = x AND NOT (y :: 'w::len word)"
  by (rule bit_word_eqI) (auto simp: bit_simps)

lemma plic_offsets:
  assumes "0 \<le> e" "e < 64"
  shows "REG_PRIORITY e < 0x2000" "0x2000 \<le> REG_INTR_EN e 0" "REG_INTR_EN e 0 < 0x2008"
proof -
  have "REG_PRIORITY e = of_nat (nat e * 4)" using assms by (simp add: REG_PRIORITY_def)
  moreover have "unat (of_nat (nat e * 4) :: u64) = nat e * 4"
    using assms by (simp only: unat_of_nat) (simp add: take_bit_nat_eq_self)
  ultimately show "REG_PRIORITY e < 0x2000" using assms by (simp add: word_less_nat_alt)
  have "e div 32 = 0 \<or> e div 32 = 1" using assms by linarith
  then show "0x2000 \<le> REG_INTR_EN e 0" "REG_INTR_EN e 0 < 0x2008" by (auto simp: REG_INTR_EN_def)
qed

lemma plic_enable_regs:
  assumes "mem_regs dev peek 0x200004" "0 \<le> e" "e < 64"
  shows "peek (snd (intc_plic_enable_interrupt dev e 0 w)) =
      (peek w)(REG_PRIORITY e := 1, REG_PRIORITY_THR 0 := 0, REG_INTR_EN e 0 := peek w (REG_INTR_EN e 0) OR push_bit (nat e mod 32) 1)"
    and "peek (snd (intc_plic_disable_interrupt dev e 0 w)) =
      (peek w)(REG_INTR_EN e 0 := peek w (REG_INTR_EN e 0) AND NOT (push_bit (nat e mod 32) 1))"
proof -
  note o = plic_offsets [OF assms(2,3)]
  have l: "REG_PRIORITY e < 0x200004" "REG_INTR_EN e 0 < 0x200004" "REG_PRIORITY_THR 0 = 0x200000"
    using order.strict_trans [OF o(1), of "0x200004"] order.strict_trans [OF o(3), of "0x200004"]
    by (simp_all add: REG_PRIORITY_THR_def)
  have n: "REG_INTR_EN e 0 \<noteq> REG_PRIORITY e" "REG_INTR_EN e 0 \<noteq> 0x200000"
    using o by auto
  have b: "nat (e mod 32) = nat e mod 32" using assms(2) by (simp add: nat_mod_distrib)
  note m = mem_regsD [OF assms(1)]
  show "peek (snd (intc_plic_enable_interrupt dev e 0 w)) =
      (peek w)(REG_PRIORITY e := 1, REG_PRIORITY_THR 0 := 0, REG_INTR_EN e 0 := peek w (REG_INTR_EN e 0) OR push_bit (nat e mod 32) 1)"
    using l n by (simp add: intc_plic_enable_interrupt_def m b)
  show "peek (snd (intc_plic_disable_interrupt dev e 0 w)) =
      (peek w)(REG_INTR_EN e 0 := peek w (REG_INTR_EN e 0) AND NOT (push_bit (nat e mod 32) 1))"
    using l by (simp add: intc_plic_disable_interrupt_def m b)
qed

lemma plic_add_line:
  assumes "plic_rep (hs, p) f" "plic_line e = Some l" "plic_fresh (hs, p) f l h"
  shows "intc_plic_add_handler dev e h (hs, p) =
      Some (0, hs, p\<lparr>plic_hnd := (plic_hnd p)[l := Some h], plic_hw := snd (intc_plic_enable_interrupt dev e 0 (plic_hw p))\<rparr>)"
    and "plic_rep (hs, p\<lparr>plic_hnd := (plic_hnd p)[l := Some h], plic_hw := w\<rparr>) (f(l := f l @ [h]))"
proof -
  have l: "e = int l" "l < 64" using assms(2) by (simp_all add: plic_line_Some)
  note fl = plic_rep_line(1) [OF assms(1)] and nx = plic_rep_line(2) [OF assms(1)] and len = plic_rep_line(3) [OF assms(1)]
  have none: "plic_hnd p ! l = None"
    using fl [of l] assms(3) l(2) by (simp add: plic_fresh_def split: option.splits)
  show "intc_plic_add_handler dev e h (hs, p) =
      Some (0, hs, p\<lparr>plic_hnd := (plic_hnd p)[l := Some h], plic_hw := snd (intc_plic_enable_interrupt dev e 0 (plic_hw p))\<rparr>)"
    using l none plic_enable_ok(1) [of dev e 0 "plic_hw p"]
    by (cases "intc_plic_enable_interrupt dev e 0 (plic_hw p)") (simp add: intc_plic_add_handler_def)
  show "plic_rep (hs, p\<lparr>plic_hnd := (plic_hnd p)[l := Some h], plic_hw := w\<rparr>) (f(l := f l @ [h]))"
    unfolding plic_rep_def Let_def split_conv
  proof (intro conjI allI ballI)
    fix l' x
    show "length (plic_hnd (p\<lparr>plic_hnd := (plic_hnd p)[l := Some h], plic_hw := w\<rparr>)) = 64" using len by simp
    show "(f(l := f l @ [h])) l' = (if l' < 64 then
        (case plic_hnd (p\<lparr>plic_hnd := (plic_hnd p)[l := Some h], plic_hw := w\<rparr>) ! l' of None \<Rightarrow> [] | Some h \<Rightarrow> [h]) else [])"
      using len l(2) none fl [of l] fl [of l'] by (cases "l' = l") simp_all
    show "hnd_next (hs x) = None" if "x \<in> set ((f(l := f l @ [h])) l')"
      using that nx [of x l'] nx [of x l] assms(3) by (cases "l' = l") (auto simp: plic_fresh_def)
  qed
qed

lemma hnd_next_set_event [simp]: "hnd_next (set_event hs h e x) = hnd_next (hs x)"
  by (simp add: set_event_def)

lemma plic_remove_line:
  assumes "plic_rep (hs, p) f" "plic_line e = Some l" "h \<in> set (f l)"
  shows "intc_plic_remove_handler dev e h (hs, p) =
      Some (0, hs, p\<lparr>plic_hnd := (plic_hnd p)[l := None], plic_hw := snd (intc_plic_disable_interrupt dev e 0 (plic_hw p))\<rparr>)"
    and "plic_rep (set_next hs h None, p\<lparr>plic_hnd := (plic_hnd p)[l := None], plic_hw := w\<rparr>) (f(l := remove1 h (f l)))"
proof -
  have l: "e = int l" "l < 64" using assms(2) by (simp_all add: plic_line_Some)
  note fl = plic_rep_line(1) [OF assms(1)] and nx = plic_rep_line(2) [OF assms(1)] and len = plic_rep_line(3) [OF assms(1)]
  have some: "plic_hnd p ! l = Some h" "f l = [h]"
    using fl [of l] assms(3) l(2) by (auto split: option.splits)
  show "intc_plic_remove_handler dev e h (hs, p) =
      Some (0, hs, p\<lparr>plic_hnd := (plic_hnd p)[l := None], plic_hw := snd (intc_plic_disable_interrupt dev e 0 (plic_hw p))\<rparr>)"
    using l some plic_enable_ok(2) [of dev e 0 "plic_hw p"]
    by (cases "intc_plic_disable_interrupt dev e 0 (plic_hw p)")
      (simp add: intc_plic_remove_handler_def)
  show "plic_rep (set_next hs h None, p\<lparr>plic_hnd := (plic_hnd p)[l := None], plic_hw := w\<rparr>) (f(l := remove1 h (f l)))"
    unfolding plic_rep_def Let_def split_conv
  proof (intro conjI allI ballI)
    fix l' x
    show "length (plic_hnd (p\<lparr>plic_hnd := (plic_hnd p)[l := None], plic_hw := w\<rparr>)) = 64" using len by simp
    show "(f(l := remove1 h (f l))) l' = (if l' < 64 then
        (case plic_hnd (p\<lparr>plic_hnd := (plic_hnd p)[l := None], plic_hw := w\<rparr>) ! l' of None \<Rightarrow> [] | Some h \<Rightarrow> [h]) else [])"
      using len l(2) some fl [of l'] by (cases "l' = l") simp_all
    show "hnd_next (set_next hs h None x) = None" if "x \<in> set ((f(l := remove1 h (f l))) l')"
      using that nx [of x l'] some by (cases "l' = l") (auto simp: hnd_next_set_next)
  qed
qed

lemma plic_remove_empty:
  assumes "plic_rep s f" "plic_line e = Some l" "f l = []"
  shows "intc_plic_remove_handler dev e h s = Some (- EINVAL, s)"
proof -
  obtain hs p where s: "s = (hs, p)" by force
  have l: "e = int l" "l < 64" using assms(2) by (simp_all add: plic_line_Some)
  show ?thesis using plic_rep_line(1) [OF assms(1) [unfolded s], of l] assms(3) l by (simp add: s intc_plic_remove_handler_def split: option.splits)
qed

interpretation plic_intc: handler_lines "intc_plic_add_handler dev" "intc_plic_remove_handler dev" plic_line plic_rep plic_fresh for dev :: "'h rdev"
proof
  show "\<exists>hs' p'. intc_plic_add_handler dev e h (hs, p) = Some (0, hs', p') \<and> plic_rep (hs', p') (f(l := f l @ [h])) \<and>
      (\<forall>x. eh_func (hs' x) = eh_func (hs x) \<and> eh_event (hs' x) = eh_event (hs x))"
    if "plic_rep (hs, p) f" "plic_line e = Some l" "plic_fresh (hs, p) f l h" for hs p f e l h
    using plic_add_line [OF that] by blast
  show "\<exists>hs' p'. intc_plic_remove_handler dev e h (hs, p) = Some (0, hs', p') \<and>
      plic_rep (set_next hs' h None, p') (f(l := remove1 h (f l))) \<and>
      (\<forall>x. eh_func (hs' x) = eh_func (hs x) \<and> eh_event (hs' x) = eh_event (hs x))"
    if "plic_rep (hs, p) f" "plic_line e = Some l" "h \<in> set (f l)" for hs p f e l h
    using plic_remove_line [OF that] by blast
  show "intc_plic_remove_handler dev e h s = Some (- EINVAL, s)" if "plic_rep s f" "plic_line e = Some l" "f l = []" for s f e l h
    using that by (rule plic_remove_empty)
  show "intc_plic_add_handler dev e h s = Some (- EINVAL, s)" "intc_plic_remove_handler dev e h s = Some (- EINVAL, s)"
    if "plic_line e = None" for e h s
    using that by (auto simp: intc_plic_add_handler_def intc_plic_remove_handler_def plic_line_def split: prod.splits if_splits)
  show "plic_rep (set_event hs h e, p) f" if "plic_rep (hs, p) f" for hs f h e and p :: "'h intc_plic_priv"
    using that unfolding plic_rep_def Let_def split_conv by (intro conjI) (auto simp only: hnd_next_set_event)
  show "h \<notin> set (f l)" if "plic_fresh s f l h" for f l h and s :: "hstore \<times> 'h intc_plic_priv"
    using that by (simp add: plic_fresh_def)
qed

lemma k_event_handle_generic_list:
  "chain hs p xs \<Longrightarrow> k_event_handle_generic call hs event p s =
    (let (rs, s') = call_all call hs event xs s in Some (if EVENT_HANDLED \<in> set rs then EVENT_HANDLED else EVENT_NOT_HANDLED, s'))"
  by (simp add: k_event_handle_generic_def handle_loop_chain)

subsection \<open>Properties\<close>

text \<open>
  The lists after a handler is added to a line: it is the last of that line, and a list that had it
  before ends at it.
\<close>

lemma priv_add_lists:
  assumes "priv_rep (hs, p) f" "priv_line e = Some l" "\<forall>l'<3. h \<noteq> priv_head p l'"
  shows "\<exists>hs' p'. intc_priv_add_handler e h (hs, p) = Some (0, hs', p') \<and> (\<forall>l'<3. priv_head p' l' = priv_head p l' \<and>
    chain hs' (Some (priv_head p l')) (priv_head p l' # added f l h l'))"
proof -
  let ?xs = "priv_head p l # f l"
  let ?hs = "set_next (set_next hs (last ?xs) (Some h)) h None"
  have lists: "priv_lists hs p f" using assms(1) by (simp add: priv_rep_def)
  have l: "l < 3" "intc_priv_head p e = Some (priv_head p l)" using priv_line_head [OF assms(2)] by auto
  have ch: "chain hs (Some (priv_head p l')) (priv_head p l' # f l')" if "l' < 3" for l'
    using lists that unfolding priv_lists_def by blast
  note add = add_handler_cut [OF ch [OF l(1)], of h]
  have ne: "priv_head p l' \<noteq> h" if "l' < 3" for l' using assms(3) that by metis
  have tw: "takeWhile (\<lambda>x. x \<noteq> h) (priv_head p l' # f l') = priv_head p l' # takeWhile (\<lambda>x. x \<noteq> h) (f l')" if "l' < 3" for l'
    using ne [OF that] by simp
  have "chain ?hs (Some (priv_head p l')) (priv_head p l' # added f l h l')" if l': "l' < 3" for l'
  proof (cases "l' = l")
    case True
    then show ?thesis using add(2) unfolding tw [OF l(1)] by (simp only: added_def append_Cons) simp
  next
    case False
    have "set ?xs \<inter> set (priv_head p l' # f l') = {}" using lists l(1) l' False unfolding priv_lists_def by blast
    then have "last ?xs \<notin> set (priv_head p l' # f l')" using last_in_set [of ?xs] by blast
    note c = chain_other [OF ch [OF l'] this, of "Some h"]
    show ?thesis
    proof (cases "h \<in> set (f l')")
      case True
      then show ?thesis using chain_cut [OF c, of h] unfolding tw [OF l'] by (simp add: added_def del: chain_simps last.simps)
    next
      case no: False
      then show ?thesis using chain_other [OF c, of h None] False ne [OF l'] by (simp add: added_def del: chain_simps last.simps)
    qed
  qed
  moreover have "intc_priv_add_handler e h (hs, p) = Some (0, ?hs, intc_priv_flags ?hs p)"
    using add(1) l(2) by (simp add: intc_priv_add_handler_def)
  ultimately show ?thesis by simp
qed

text \<open>
  C30. The controller of a hart.  Registering a handler (with a function, and not itself the head of a
  list) for an event of one of the three lines makes it the last of that line and marks it with the event.
  A handler that was in none of the lists is thereby appended to its line, the other lines stay, and
  unregistering it gives back the lists as they were, with the flags that tell which lines have handlers.
  Of a list that the handler was in before, on whatever line, the handlers behind it are lost.  An event of no line
  is refused and changes nothing.
\<close>

theorem intc_priv_registers:
  assumes "priv_rep (hs, p) f" "\<forall>l<3. h \<noteq> priv_head p l" "eh_func (hs h) \<noteq> 0"
  shows "case priv_line e of
      None \<Rightarrow> k_intc_add_handler (Some intc_priv_add_handler) e (Some h) (hs, p) = Some (- EINVAL, hs, p)
    | Some l \<Rightarrow> \<exists>hs' p'.
        k_intc_add_handler (Some intc_priv_add_handler) e (Some h) (hs, p) = Some (0, hs', p') \<and> eh_event (hs' h) = e \<and>
        (\<forall>l'<3. chain hs' (Some (priv_head p' l'))
           (priv_head p l' # (if l' = l \<or> h \<in> set (f l') then takeWhile (\<lambda>x. x \<noteq> h) (f l') @ [h] else f l'))) \<and>
        ((\<forall>l'<3. h \<notin> set (f l')) \<longrightarrow>
          priv_rep (hs', p') (f(l := f l @ [h])) \<and>
          (\<exists>hs'' p''. k_intc_remove_handler (Some intc_priv_remove_handler) e (Some h) (hs', p') = Some (0, hs'', p'') \<and>
             priv_rep (hs'', p'') f))"
proof (cases "priv_line e")
  case None
  then show ?thesis using assms(3) hart_intc.no_line(1) [OF None, of h "(hs, p)"] by (simp add: k_intc_add_handler_def)
next
  case (Some l)
  obtain hs1 p' where a: "intc_priv_add_handler e h (hs, p) = Some (0, hs1, p')"
      "\<forall>l'<3. priv_head p' l' = priv_head p l' \<and> chain hs1 (Some (priv_head p l')) (priv_head p l' # added f l h l')"
    using priv_add_lists [OF assms(1) Some assms(2)] by blast
  have k: "k_intc_add_handler (Some intc_priv_add_handler) e (Some h) (hs, p) = Some (0, set_event hs1 h e, p')"
    using a(1) assms(3) by (simp add: k_intc_add_handler_def)
  have c: "\<forall>l'<3. chain (set_event hs1 h e) (Some (priv_head p' l')) (priv_head p l' # added f l h l')"
    using a(2) by (simp add: chain_set_event del: chain_simps)
  have "priv_rep (set_event hs1 h e, p') (f(l := f l @ [h])) \<and>
      (\<exists>hs'' p''. k_intc_remove_handler (Some intc_priv_remove_handler) e (Some h) (set_event hs1 h e, p') = Some (0, hs'', p'') \<and>
         priv_rep (hs'', p'') f)" if "\<forall>l'<3. h \<notin> set (f l')"
  proof -
    have "priv_fresh (hs, p) f l h" using that assms(2) priv_line_head [OF Some] by (simp add: priv_fresh_def)
    then show ?thesis using hart_intc.intc_add_remove [OF assms(1) Some _ assms(3)] k by auto
  qed
  then show ?thesis using k c Some by (simp add: set_event_def added_def del: chain_simps)
qed

lemma lt3: "(l::nat) < 3 \<longleftrightarrow> l = 0 \<or> l = 1 \<or> l = 2"
  by auto

lemma example_hart_rep: "hnd_next (hs 10) = None \<Longrightarrow> hnd_next (hs 11) = None \<Longrightarrow> hnd_next (hs 12) = None \<Longrightarrow>
    priv_rep (hs, example_hart) (\<lambda>_. [])"
  by (simp add: priv_rep_def priv_lists_def priv_head_def example_hart_def lt3)

theorem intc_priv_registers_witness:
  "\<exists>hs' p'. k_intc_add_handler (Some intc_priv_add_handler) 11 (Some 5) (\<lambda>h. \<lparr>eh_func = 1, eh_priv = 0, eh_event = 0, hnd_next = None\<rparr>, example_hart) =
      Some (0, hs', p') \<and> priv_rep (hs', p') ((\<lambda>_. [])(2 := [5]))"
  using intc_priv_registers [of "\<lambda>h. \<lparr>eh_func = 1, eh_priv = 0, eh_event = 0, hnd_next = None\<rparr>" example_hart "\<lambda>_. []" 5 11]
    example_hart_rep [of "\<lambda>h. \<lparr>eh_func = 1, eh_priv = 0, eh_event = 0, hnd_next = None\<rparr>"]
  by (auto simp: priv_line_def lt3 priv_head_def example_hart_def)


lemma example_plic_rep: "plic_rep (example_trap, example_plic) ((\<lambda>_. [])(4 := [6]))"
  unfolding plic_rep_def Let_def split_conv
  by (simp add: example_plic_def example_trap_def nth_list_update)

lemma example_trap_rep: "priv_rep (example_trap, example_hart\<lparr>has_ex := True\<rparr>) ((\<lambda>_. [])(2 := [5]))"
  by (simp add: priv_rep_def priv_lists_def priv_head_def example_hart_def lt3 example_trap_def)


text \<open>
  Registering a handler for a source of the PLIC: a source outside of the table and one that has a
  handler are refused.  Otherwise the source gets priority 1 and its own enable bit, and no
  other register but the threshold is written; removing the handler clears that bit again.
\<close>

theorem intc_plic_registers:
  assumes "mem_regs dev peek 0x200004" "plic_rep (hs, p) f" "hnd_next (hs h) = None" "eh_func (hs h) \<noteq> 0"
  shows "if e < 0 \<or> 64 \<le> e \<or> f (nat e) \<noteq> []
    then k_intc_add_handler (Some (intc_plic_add_handler dev)) e (Some h) (hs, p) = Some (- EINVAL, hs, p)
    else \<exists>hs' p' hs'' p''.
      k_intc_add_handler (Some (intc_plic_add_handler dev)) e (Some h) (hs, p) = Some (0, hs', p') \<and>
      plic_rep (hs', p') (f(nat e := [h])) \<and>
      peek (plic_hw p') = (peek (plic_hw p))(REG_PRIORITY e := 1, REG_PRIORITY_THR 0 := 0,
        REG_INTR_EN e 0 := peek (plic_hw p) (REG_INTR_EN e 0) OR push_bit (nat e mod 32) 1) \<and>
      k_intc_remove_handler (Some (intc_plic_remove_handler dev)) e (Some h) (hs', p') = Some (0, hs'', p'') \<and>
      plic_rep (hs'', p'') f \<and>
      peek (plic_hw p'') = (peek (plic_hw p'))(REG_INTR_EN e 0 := peek (plic_hw p) (REG_INTR_EN e 0) AND NOT (push_bit (nat e mod 32) 1))"
proof (cases "e < 0 \<or> 64 \<le> e \<or> f (nat e) \<noteq> []")
  case True
  have "intc_plic_add_handler dev e h (hs, p) = Some (- EINVAL, hs, p)"
    using True plic_rep_line(1) [OF assms(2), of "nat e"] by (auto simp: intc_plic_add_handler_def split: option.splits)
  then show ?thesis using True assms(4) by (simp add: k_intc_add_handler_def)
next
  case False
  then have e: "plic_line e = Some (nat e)" "0 \<le> e" "e < 64" and fe: "f (nat e) = []" by (simp_all add: plic_line_def)
  have fr: "plic_fresh (hs, p) f (nat e) h" using fe assms(3) by (simp add: plic_fresh_def)
  define w where "w = snd (intc_plic_enable_interrupt dev e 0 (plic_hw p))"
  define p' where "p' = p\<lparr>plic_hnd := (plic_hnd p)[nat e := Some h], plic_hw := w\<rparr>"
  have r: "plic_rep (hs, p') (f(nat e := [h]))" using plic_add_line(2) [OF assms(2) e(1) fr] fe by (simp add: p'_def)
  have a: "k_intc_add_handler (Some (intc_plic_add_handler dev)) e (Some h) (hs, p) = Some (0, set_event hs h e, p')"
    using plic_add_line(1) [OF assms(2) e(1) fr] assms(4) by (simp add: k_intc_add_handler_def p'_def w_def)
  define w' where "w' = snd (intc_plic_disable_interrupt dev e 0 w)"
  define p'' where "p'' = p'\<lparr>plic_hnd := (plic_hnd p')[nat e := None], plic_hw := w'\<rparr>"
  have re: "plic_rep (set_event hs h e, p') (f(nat e := [h]))" by (rule plic_intc.rep_event [OF r])
  have "intc_plic_remove_handler dev e h (set_event hs h e, p') = Some (0, set_event hs h e, p'')"
    using plic_remove_line(1) [OF re e(1), of h dev] by (simp add: p''_def w'_def p'_def)
  then have b: "k_intc_remove_handler (Some (intc_plic_remove_handler dev)) e (Some h) (set_event hs h e, p') =
      Some (0, set_next (set_event hs h e) h None, p'')"
    using assms(4) by (simp add: k_intc_remove_handler_def set_event_def)
  have "plic_rep (set_next (set_event hs h e) h None, p'') ((f(nat e := [h]))(nat e := []))"
    using plic_remove_line(2) [OF re e(1), of h w'] by (simp add: p''_def)
  then have r': "plic_rep (set_next (set_event hs h e) h None, p'') f" using fe by (simp add: fun_upd_idem)
  have w: "peek w = (peek (plic_hw p))(REG_PRIORITY e := 1, REG_PRIORITY_THR 0 := 0,
      REG_INTR_EN e 0 := peek (plic_hw p) (REG_INTR_EN e 0) OR push_bit (nat e mod 32) 1)"
    unfolding w_def by (rule plic_enable_regs(1) [OF assms(1) e(2,3)])
  have w': "peek w' = (peek w)(REG_INTR_EN e 0 := peek w (REG_INTR_EN e 0) AND NOT (push_bit (nat e mod 32) 1))"
    unfolding w'_def by (rule plic_enable_regs(2) [OF assms(1) e(2,3)])
  show ?thesis using False a r re b r' w w' by (simp add: p'_def p''_def or_and_not_same)
qed

theorem intc_plic_registers_witness:
  "\<exists>hs' p'. k_intc_add_handler (Some (intc_plic_add_handler ram_dev)) 33 (Some 7) (example_trap, example_plic) = Some (0, hs', p') \<and>
    plic_hw p' 0x2004 = 4 OR 2 \<and> plic_hw p' 132 = 1"
  using intc_plic_registers [of ram_dev "\<lambda>h. h" example_trap example_plic "(\<lambda>_. [])(4 := [6])" 7 33]
    ram_dev_regs [of "0x200004"] example_plic_rep
  by (auto simp: example_trap_def example_plic_def REG_PRIORITY_def REG_INTR_EN_def REG_PRIORITY_THR_def)

text \<open>
  Interrupts between CPUs.  A CPU that raises one for another sets exactly the pending bit of that
  CPU, and the handler that runs there clears the bit again and reports the interrupt as handled;
  raising one on behalf of a CPU that does not run is refused.
\<close>

theorem intc_clint_ipi:
  assumes "mem_regs dev peek 0x4000" "0 \<le> id_phys dest" "id_phys dest < 4095"
  shows "k_intc_raise_ipi (Some (Some (intc_clint_raise_ipi dev (id_phys src)))) src dest w =
      (0, k_device_write32 dev 1 (REG_MSIP (id_phys dest)) w) \<and>
    (let w1 = k_device_write32 dev 1 (REG_MSIP (id_phys dest)) w; (r, w2) = intc_clint_intr dev (id_phys dest) 3 w1
     in (\<forall>hart. 0 \<le> hart \<and> hart < 4095 \<longrightarrow>
           peek w1 (REG_MSIP hart) = (if hart = id_phys dest then 1 else peek w (REG_MSIP hart)) \<and>
           peek w2 (REG_MSIP hart) = (if hart = id_phys dest then 0 else peek w (REG_MSIP hart))) \<and>
        r = EVENT_HANDLED) \<and>
    (cur \<noteq> id_phys src \<longrightarrow> k_intc_raise_ipi (Some (Some (intc_clint_raise_ipi dev cur))) src dest w = (- EINVAL, w))"
proof -
  have m: "unat (REG_MSIP n) = nat n * 4" if "0 \<le> n" "n < 4095" for n
  proof -
    have "REG_MSIP n = of_nat (nat n * 4)" using that by (simp add: REG_MSIP_def)
    moreover have "unat (of_nat (nat n * 4) :: u64) = nat n * 4"
      using that by (simp only: unat_of_nat) (simp add: take_bit_nat_eq_self)
    ultimately show ?thesis by simp
  qed
  have "REG_MSIP hart = REG_MSIP (id_phys dest) \<longleftrightarrow> hart = id_phys dest" if "0 \<le> hart" "hart < 4095" for hart
    using m [OF that] m [OF assms(2,3)] that assms(2) by (metis eq_nat_nat_iff mult_right_cancel numeral_neq_zero zero_neq_numeral)
  moreover have "REG_MSIP (id_phys dest) < 0x4000" using m [OF assms(2,3)] assms(2,3) by (simp add: word_less_nat_alt)
  ultimately show ?thesis using mem_regsD [OF assms(1)]
    by (auto simp: k_intc_raise_ipi_def intc_clint_raise_ipi_def intc_clint_intr_def)
qed

theorem intc_clint_ipi_witness:
  "\<forall>cpu. k_intc_raise_ipi (Some (Some (intc_clint_raise_ipi ram_dev 0))) (cpu\<lparr>id_phys := 0\<rparr>) (cpu\<lparr>id_phys := 3\<rparr>) (\<lambda>_. 0) =
    (0, (\<lambda>_. 0)(12 := 1))"
proof
  fix cpu :: k_cpu_device
  show "k_intc_raise_ipi (Some (Some (intc_clint_raise_ipi ram_dev 0))) (cpu\<lparr>id_phys := 0\<rparr>) (cpu\<lparr>id_phys := 3\<rparr>) (\<lambda>_. 0) =
      (0, (\<lambda>_. 0)(12 := 1))"
    using intc_clint_ipi [of ram_dev "\<lambda>h. h" "cpu\<lparr>id_phys := 3\<rparr>" "cpu\<lparr>id_phys := 0\<rparr>" "\<lambda>_. 0" 0]
      ram_dev_regs [of "0x4000"]
    by (auto simp: REG_MSIP_def ram_dev_def k_device_write32_def)
qed

end
