(* ===== verification/Gpio.thy ===== *)
theory Gpio
  imports File Intc
begin

section \<open>GPIO\<close>

text \<open>
  \<^verbatim>\<open>driver/gpio/gpio.c\<close>, the file operations of \<^verbatim>\<open>gpio_dev.c\<close> and the driver \<^verbatim>\<open>xilinx/gpio_v2.c\<close>.  A GPIO device is
  the operations of its driver on the hardware, \<open>None\<close> for NULL; the structure of the configuration is
  empty.  The argument of an ioctl is the address of a structure in the memory of the console state.
\<close>

subsection \<open>Generic part\<close>

record 'h k_gpio_driver_ops =
  gpio_get :: "(int \<Rightarrow> 'h \<Rightarrow> int \<times> 'h) option"
  gpio_set :: "(int \<Rightarrow> int \<Rightarrow> 'h \<Rightarrow> int \<times> 'h) option"
  gpio_get_config :: "('h \<Rightarrow> int \<times> 'h) option"
  gpio_set_config :: "('h \<Rightarrow> int \<times> 'h) option"

definition k_gpio_get_config :: "'h k_gpio_driver_ops option \<Rightarrow> 'h \<Rightarrow> int \<times> 'h" where
  "k_gpio_get_config gpio h =
     (case gpio of
        None \<Rightarrow> (- EINVAL, h)
      | Some g \<Rightarrow> (case gpio_get_config g of None \<Rightarrow> (0, h) | Some f \<Rightarrow> let (r, h) = f h in if r \<noteq> 0 then (r, h) else (0, h)))"

definition k_gpio_set_config :: "'h k_gpio_driver_ops option \<Rightarrow> 'h \<Rightarrow> int \<times> 'h" where
  "k_gpio_set_config gpio h =
     (case gpio of
        None \<Rightarrow> (- EINVAL, h)
      | Some g \<Rightarrow> (case gpio_set_config g of None \<Rightarrow> (0, h) | Some f \<Rightarrow> let (r, h) = f h in if r \<noteq> 0 then (r, h) else (0, h)))"

definition k_gpio_read_default_config :: int where
  "k_gpio_read_default_config = 0"

text \<open>The first device added becomes the GPIO device of the system.\<close>

definition k_gpio_add_device ::
    "'d drv_ops \<Rightarrow> devptr \<Rightarrow> busptr option \<Rightarrow> 'd dstate \<times> devptr option \<Rightarrow> (int \<times> 'd dstate \<times> devptr option) option" where
  "k_gpio_add_device ops d parent st =
     (let (s, k_gpio_system) = st
      in do {
        (r, s) \<leftarrow> k_device_add ops (Some d) parent s;
        if IS_ERROR r then Some (r, s, k_gpio_system)
        else Some (0, s, if k_gpio_system = None then Some d else k_gpio_system)
      })"

definition k_gpio_remove_device :: "devptr option \<Rightarrow> int" where
  "k_gpio_remove_device gpio = k_device_remove gpio"

subsection \<open>File operations\<close>

record gpio_v2_line_values =
  lv_bits :: u64
  lv_mask :: u64

definition read_lineval :: "memory \<Rightarrow> u64 \<Rightarrow> gpio_v2_line_values" where
  "read_lineval m p = \<lparr>lv_bits = load64 m p, lv_mask = load64 m (p + 8)\<rparr>"

definition write_lineval :: "memory \<Rightarrow> u64 \<Rightarrow> gpio_v2_line_values \<Rightarrow> memory" where
  "write_lineval m p lv = store64 (store64 m p (lv_bits lv)) (p + 8) (lv_mask lv)"

text \<open>One turn of the loop over the lines, on the result, the structure and the hardware.\<close>

definition get_line ::
    "(int \<Rightarrow> 'h \<Rightarrow> int \<times> 'h) \<Rightarrow> nat \<Rightarrow> int \<times> gpio_v2_line_values \<times> 'h \<Rightarrow> int \<times> gpio_v2_line_values \<times> 'h" where
  "get_line get i st =
     (let (ret, lv, h) = st; m = push_bit i 1
      in if lv_mask lv AND m = 0 then st
         else let (r, h) = get (int i) h
              in if r = - 1 then (- EBADF, lv, h)
                 else if r = 1 then (ret, lv\<lparr>lv_bits := lv_bits lv OR m\<rparr>, h)
                 else (ret, lv, h))"

definition k_gpio_line_get_values :: "'h k_gpio_driver_ops \<Rightarrow> u64 \<Rightarrow> 'h fstate \<Rightarrow> int \<times> 'h fstate" where
  "k_gpio_line_get_values gpio arg s =
     (case gpio_get gpio of
        None \<Rightarrow> (- EINVAL, s)
      | Some get \<Rightarrow>
          if arg = 0 then (- EINVAL, s)
          else let m = con_mem (con s);
                   lv = \<lparr>lv_bits = 0, lv_mask = lv_mask (read_lineval m arg)\<rparr>;
                   (ret, lv, h) = fold (get_line get) [0..<32] (0, lv, con_hw (con s))
               in (ret, s\<lparr>con := (con s)\<lparr>con_mem := write_lineval m arg lv, con_hw := h\<rparr>\<rparr>))"

definition set_line ::
    "(int \<Rightarrow> int \<Rightarrow> 'h \<Rightarrow> int \<times> 'h) \<Rightarrow> gpio_v2_line_values \<Rightarrow> nat \<Rightarrow> int \<times> 'h \<Rightarrow> int \<times> 'h" where
  "set_line setf lv i st =
     (let (ret, h) = st; m = push_bit i 1
      in if lv_mask lv AND m = 0 then st
         else let v = (if lv_bits lv AND m = 0 then 0 else 1);
                  (r, h) = setf (int i) v h
              in (if r = - 1 then - EBADF else ret, h))"

definition k_gpio_line_set_values :: "'h k_gpio_driver_ops \<Rightarrow> u64 \<Rightarrow> 'h fstate \<Rightarrow> int \<times> 'h fstate" where
  "k_gpio_line_set_values gpio arg s =
     (case gpio_set gpio of
        None \<Rightarrow> (- EINVAL, s)
      | Some setf \<Rightarrow>
          if arg = 0 then (- EINVAL, s)
          else let (ret, h) = fold (set_line setf (read_lineval (con_mem (con s)) arg)) [0..<32] (0, con_hw (con s))
               in (ret, s\<lparr>con := (con s)\<lparr>con_hw := h\<rparr>\<rparr>))"

definition k_gpio_line_read :: "int \<Rightarrow> nat \<Rightarrow> u64 \<Rightarrow> u64 \<Rightarrow> 'h fstate \<Rightarrow> (int \<times> 'h fstate) option" where
  "k_gpio_line_read hart d buf count s = Some (0, s)"

definition k_gpio_line_write :: "int \<Rightarrow> nat \<Rightarrow> u64 \<Rightarrow> u64 \<Rightarrow> 'h fstate \<Rightarrow> (int \<times> 'h fstate) option" where
  "k_gpio_line_write hart d buf count s = Some (0, s)"

abbreviation (input) GPIO_V2_LINE_GET_VALUES_IOCTL :: u32 where "GPIO_V2_LINE_GET_VALUES_IOCTL \<equiv> 0xc010b40e"
abbreviation (input) GPIO_V2_LINE_SET_VALUES_IOCTL :: u32 where "GPIO_V2_LINE_SET_VALUES_IOCTL \<equiv> 0xc010b40f"

text \<open>\<open>k_gpio_system\<close> is the GPIO device of the system.\<close>

definition k_gpio_line_ioctl ::
    "'h k_gpio_driver_ops option \<Rightarrow> int \<Rightarrow> nat \<Rightarrow> u32 \<Rightarrow> u64 \<Rightarrow> 'h fstate \<Rightarrow> (int \<times> 'h fstate) option" where
  "k_gpio_line_ioctl k_gpio_system hart d cmd arg s =
     (case k_gpio_system of
        None \<Rightarrow> Some (- EBADF, s)
      | Some gpio \<Rightarrow>
          if cmd = GPIO_V2_LINE_GET_VALUES_IOCTL then Some (k_gpio_line_get_values gpio arg s)
          else if cmd = GPIO_V2_LINE_SET_VALUES_IOCTL then Some (k_gpio_line_set_values gpio arg s)
          else Some (- ENOTTY, s))"

definition k_gpio_line_poll :: "int \<Rightarrow> nat \<Rightarrow> 'h fstate \<Rightarrow> (int \<times> 'h fstate) option" where
  "k_gpio_line_poll hart d s = Some (0, s)"

definition k_gpio_line_close :: "int \<Rightarrow> nat \<Rightarrow> 'h fstate \<Rightarrow> (int \<times> 'h fstate) option" where
  "k_gpio_line_close hart d s = Some (0, s)"

definition gpio_line_ops :: "'h k_gpio_driver_ops option \<Rightarrow> 'h fstate k_file_ops" where
  "gpio_line_ops k_gpio_system =
     \<lparr>fo_read = Some k_gpio_line_read, fo_write = Some k_gpio_line_write, fo_ioctl = Some (k_gpio_line_ioctl k_gpio_system),
      fo_poll = Some k_gpio_line_poll, fo_close = Some k_gpio_line_close\<rparr>"

subsection \<open>Xilinx GPIO\<close>

abbreviation (input) REG_IP_IER :: u64 where "REG_IP_IER \<equiv> 0x128"

text \<open>The register of the channels 32 n to 32 n + 31.\<close>

definition gpio_reg :: "int \<Rightarrow> u64" where
  "gpio_reg ch = of_int (0x008 * (ch div 32))"

definition gpio_v2_get :: "'h rdev \<Rightarrow> int \<Rightarrow> 'h \<Rightarrow> int \<times> 'h" where
  "gpio_v2_get dev ch h =
     (let (v, h) = k_device_read32 dev (gpio_reg ch) h
      in (if v AND push_bit (nat (ch mod 32)) 1 \<noteq> 0 then 1 else 0, h))"

definition gpio_v2_set :: "'h rdev \<Rightarrow> int \<Rightarrow> int \<Rightarrow> 'h \<Rightarrow> int \<times> 'h" where
  "gpio_v2_set dev ch value h =
     (let (v, h) = k_device_read32 dev (gpio_reg ch) h;
          b = push_bit (nat (ch mod 32)) 1;
          v = (if value \<noteq> 0 then v OR b else v AND NOT b)
      in (0, k_device_write32 dev v (gpio_reg ch) h))"

definition gpio_v2_enable_intr :: "'h rdev \<Rightarrow> int \<Rightarrow> 'h \<Rightarrow> int \<times> 'h" where
  "gpio_v2_enable_intr dev ch h =
     (let (v, h) = k_device_read32 dev REG_IP_IER h
      in (0, k_device_write32 dev (v OR push_bit (nat (ch div 32)) 1) REG_IP_IER h))"

definition gpio_v2_disable_intr :: "'h rdev \<Rightarrow> int \<Rightarrow> 'h \<Rightarrow> int \<times> 'h" where
  "gpio_v2_disable_intr dev ch h =
     (let (v, h) = k_device_read32 dev REG_IP_IER h
      in (0, k_device_write32 dev (v AND NOT (push_bit (nat (ch div 32)) 1)) REG_IP_IER h))"

definition gpio_v2_intr :: "int \<Rightarrow> hptr \<Rightarrow> int" where
  "gpio_v2_intr event hnd = EVENT_HANDLED"

record gpio_v2_priv =
  gp_irq :: irq_input

text \<open>
  \<open>padd\<close> and \<open>premove\<close> are the operations of the interrupt controllers on their state \<open>'p\<close>, \<open>func\<close> is the address
  of \<open>gpio_v2_intr\<close> and \<open>pr\<close> that of the private data.  Without a controller the lines are polled.
\<close>

definition gpio_v2_add ::
    "(u64 \<Rightarrow> string) \<Rightarrow> 'd drv_ops \<Rightarrow> (devptr \<Rightarrow> 'p handler_op option) \<Rightarrow> 'h rdev \<Rightarrow> nat \<Rightarrow> u64 \<Rightarrow> devptr \<Rightarrow> 'd dstate \<Rightarrow>
     gpio_v2_priv option \<Rightarrow> hstore \<times> 'p \<Rightarrow> 'h \<Rightarrow>
     (int \<times> 'd dstate \<times> gpio_v2_priv option \<times> (hstore \<times> 'p) \<times> 'h) option" where
  "gpio_v2_add cstr ops padd dev func pr d s priv hp h =
     (case priv of
        None \<Rightarrow> Some (- EINVAL, s, None, hp, h)
      | Some p \<Rightarrow> do {
          (r, s) \<leftarrow> k_io_mmap_device ops d s;
          if r \<noteq> 0 then Some (r, s, Some p, hp, h)
          else do {
            (r, q, hp) \<leftarrow> irq_attach cstr padd func pr s (devs s d) (gp_irq p) hp;
            let p = p\<lparr>gp_irq := q\<rparr>
            in if r \<noteq> 0 then Some (r, s, Some p, hp, h)
            else if irq_intc q = None then Some (0, s, Some p, hp, h)
            else let (r, h) = gpio_v2_enable_intr (mapped s d dev) 0 h
            in Some (if r \<noteq> 0 then r else 0, s, Some p, hp, h)
          }
        })"

definition gpio_v2_remove ::
    "(devptr \<Rightarrow> 'p handler_op option) \<Rightarrow> 'h rdev \<Rightarrow> gpio_v2_priv \<Rightarrow> hstore \<times> 'p \<Rightarrow> 'h \<Rightarrow>
     (int \<times> gpio_v2_priv \<times> (hstore \<times> 'p) \<times> 'h) option" where
  "gpio_v2_remove premove dev p hp h =
     (case irq_intc (gp_irq p) of
        None \<Rightarrow> Some (- ENOTSUP, p, hp, h)
      | Some c \<Rightarrow>
          let (r, h) = gpio_v2_disable_intr dev 0 h
          in if r \<noteq> 0 then Some (r, p, hp, h)
          else do {
            (r, q, hp) \<leftarrow> irq_detach premove c (gp_irq p) hp;
            Some (if r \<noteq> 0 then r else - ENOTSUP, p\<lparr>gp_irq := q\<rparr>, hp, h)
          })"

definition v2_gpio_ops :: "'h rdev \<Rightarrow> 'h k_gpio_driver_ops" where
  "v2_gpio_ops dev =
     \<lparr>gpio_get = Some (gpio_v2_get dev), gpio_set = Some (gpio_v2_set dev), gpio_get_config = None, gpio_set_config = None\<rparr>"

subsection \<open>Example\<close>

definition gpio_files :: "(u64 \<Rightarrow> u32) fstate" where
  "gpio_files =
     \<lparr>fdset = [None, None, None, Some 3], fd_lock = (\<lambda>_. lock_static),
      con = \<lparr>pri_lock = lock_static, con_csr = \<lparr>csr_mstatus = 0, csr_mip = 0\<rparr>, con_mem = (\<lambda>a. if a = 64 then 5 else if a = 72 then 7 else 0),
        con_hw = (\<lambda>_. 0xa), getchar_in = null_getchar, putchar_in = null_putchar\<rparr>\<rparr>"

subsection \<open>Lines\<close>

lemma load64_eqI:
  assumes "\<And>i k. i < 8 \<Longrightarrow> k < 8 \<Longrightarrow> bit (m (p + of_nat i)) k = bit v (8 * i + k)"
  shows "load64 m p = v"
proof (rule bit_word_eqI)
  fix n assume "n < LENGTH(64)"
  then obtain i k where n: "n = 8 * i + k" "i < 8" "k < 8"
    using that [of "n div 8" "n mod 8"] by auto
  show "bit (load64 m p) n = bit v n" unfolding n(1) bit_load64 [OF n(2,3)] by (rule assms [OF n(2,3)])
qed

lemma load64_store64: "load64 (store64 m p v) p = v"
proof (rule load64_eqI)
  fix i k :: nat assume a: "i < 8" "k < 8"
  have "p + of_nat i - p = (of_nat i :: u64)" by simp
  moreover have "unat (of_nat i :: u64) = i" using a by (simp add: unat_of_nat take_bit_nat_eq_self)
  ultimately have "store64 m p v (p + of_nat i) = ucast (drop_bit (8 * i) v)" using a by (simp only: store64_def Let_def if_True)
  then show "bit (store64 m p v (p + of_nat i)) k = bit v (8 * i + k)"
    using a by (simp only: bit_unsigned_iff bit_drop_bit_eq o_apply) simp
qed

lemma load64_cong: "(\<And>i. i < 8 \<Longrightarrow> m (p + of_nat i) = m' (p + of_nat i)) \<Longrightarrow> load64 m p = load64 m' p"
proof (rule load64_eqI)
  fix i k :: nat assume a: "\<And>i. i < 8 \<Longrightarrow> m (p + of_nat i) = m' (p + of_nat i)" "i < 8" "k < 8"
  show "bit (m (p + of_nat i)) k = bit (load64 m' p) (8 * i + k)" unfolding bit_load64 [OF a(2,3)] a(1) [OF a(2)] ..
qed

lemma load64_store64_next: "load64 (store64 m (p + 8) v) p = load64 m p"
proof (rule load64_cong)
  fix i :: nat assume i: "i < 8"
  then have "i \<in> {0, 1, 2, 3, 4, 5, 6, 7}" by auto
  then have "8 \<le> unat (of_nat i - 8 :: u64)" by (auto simp: unsigned_minus_1_eq_mask mask_eq_exp_minus_1)
  moreover have "p + of_nat i - (p + 8) = of_nat i - 8" by (simp add: algebra_simps)
  ultimately show "store64 m (p + 8) v (p + of_nat i) = m (p + of_nat i)" by (simp only: store64_def Let_def) simp
qed

lemma read_write_lineval: "read_lineval (write_lineval m p lv) p = lv"
  by (simp add: read_lineval_def write_lineval_def load64_store64 load64_store64_next)

lemma and_exp_zero:
  assumes "n < LENGTH('a)"
  shows "x AND 2 ^ n = (0 :: 'a :: len word) \<longleftrightarrow> \<not> bit x n"
proof
  assume "x AND 2 ^ n = (0 :: 'a word)"
  then have "bit (x AND 2 ^ n) n = bit (0 :: 'a word) n" by simp
  then show "\<not> bit x n" using assms by (simp add: bit_simps)
next
  assume "\<not> bit x n"
  then show "x AND 2 ^ n = (0 :: 'a word)" by (intro bit_word_eqI) (auto simp: bit_simps)
qed

text \<open>The line register behind the driver.\<close>

lemma gpio_reg_0: "i < 32 \<Longrightarrow> gpio_reg (int i) = 0"
  by (simp add: gpio_reg_def)

lemma gpio_v2_get_line:
  assumes "mem_regs dev peek lim" "0 < lim" "i < 32"
  shows "gpio_v2_get dev (int i) h = (if bit (peek h 0) i then 1 else 0, h)"
  using mem_regsD(1) [OF assms(1,2)] assms(3) by (simp add: gpio_v2_get_def gpio_reg_0 and_exp_zero)

lemma gpio_v2_set_line:
  assumes "mem_regs dev peek lim" "0 < lim" "i < 32"
  shows "\<exists>h'. gpio_v2_set dev (int i) v h = (0, h') \<and> (\<forall>off. off \<noteq> 0 \<longrightarrow> peek h' off = peek h off) \<and>
    (\<forall>n. bit (peek h' 0) n = (if n = i then v \<noteq> 0 else bit (peek h 0) n))"
  using mem_regsD [OF assms(1,2)] assms(3)
  by (auto simp: gpio_v2_set_def gpio_reg_0 bit_simps Let_def dest: bit_imp_le_length)

lemma set_lines:
  assumes "mem_regs dev peek lim" "0 < lim" "set xs \<subseteq> {..<32}"
  shows "\<exists>h'. fold (set_line (gpio_v2_set dev) lv) xs (0, h) = (0, h') \<and> (\<forall>off. off \<noteq> 0 \<longrightarrow> peek h' off = peek h off) \<and>
    (\<forall>n. bit (peek h' 0) n = (if n \<in> set xs \<and> bit (lv_mask lv) n then bit (lv_bits lv) n else bit (peek h 0) n))"
  using assms(3)
proof (induction xs arbitrary: h)
  case (Cons i xs)
  then have i: "i < 32" by simp
  obtain h1 where h1: "set_line (gpio_v2_set dev) lv i (0, h) = (0, h1)" "\<forall>off. off \<noteq> 0 \<longrightarrow> peek h1 off = peek h off"
      "\<forall>n. bit (peek h1 0) n = (if n = i \<and> bit (lv_mask lv) n then bit (lv_bits lv) n else bit (peek h 0) n)"
  proof (cases "bit (lv_mask lv) i")
    case True
    then show ?thesis
      using that gpio_v2_set_line [OF assms(1,2) i, of "if bit (lv_bits lv) i then 1 else 0" h] i
      by (cases "bit (lv_bits lv) i") (auto simp: set_line_def and_exp_zero Let_def)
  next
    case False
    then show ?thesis using that i by (auto simp: set_line_def and_exp_zero Let_def)
  qed
  obtain h2 where "fold (set_line (gpio_v2_set dev) lv) xs (0, h1) = (0, h2)" "\<forall>off. off \<noteq> 0 \<longrightarrow> peek h2 off = peek h1 off"
      "\<forall>n. bit (peek h2 0) n = (if n \<in> set xs \<and> bit (lv_mask lv) n then bit (lv_bits lv) n else bit (peek h1 0) n)"
    using Cons.IH [of h1] Cons.prems by auto
  then show ?case using h1 by auto
qed simp

lemma get_lines:
  assumes "mem_regs dev peek lim" "0 < lim" "set xs \<subseteq> {..<32}"
  shows "\<exists>b. fold (get_line (gpio_v2_get dev)) xs (0, lv, h) = (0, lv\<lparr>lv_bits := b\<rparr>, h) \<and>
    (\<forall>n. bit b n \<longleftrightarrow> bit (lv_bits lv) n \<or> n \<in> set xs \<and> bit (lv_mask lv) n \<and> bit (peek h 0) n)"
  using assms(3)
proof (induction xs arbitrary: lv)
  case (Cons i xs)
  then have i: "i < 32" by simp
  define b where "b = (if bit (lv_mask lv) i \<and> bit (peek h 0) i then lv_bits lv OR push_bit i 1 else lv_bits lv)"
  have s: "get_line (gpio_v2_get dev) i (0, lv, h) = (0, lv\<lparr>lv_bits := b\<rparr>, h)"
    using i by (simp add: get_line_def Let_def and_exp_zero gpio_v2_get_line [OF assms(1,2)] b_def)
  have "bit b n \<longleftrightarrow> bit (lv_bits lv) n \<or> n = i \<and> bit (lv_mask lv) i \<and> bit (peek h 0) i" for n
    using i by (auto simp: b_def bit_simps)
  moreover obtain b' where "fold (get_line (gpio_v2_get dev)) xs (0, lv\<lparr>lv_bits := b\<rparr>, h) = (0, lv\<lparr>lv_bits := b'\<rparr>, h)"
      "\<forall>n. bit b' n \<longleftrightarrow> bit b n \<or> n \<in> set xs \<and> bit (lv_mask lv) n \<and> bit (peek h 0) n"
    using Cons.IH [of "lv\<lparr>lv_bits := b\<rparr>"] Cons.prems by auto
  ultimately show ?case using s by auto
next
  case Nil
  show ?case by (rule exI [of _ "lv_bits lv"]) simp
qed

lemma k_sys_ioctl_runs:
  assumes "k_file_get_desc cfg (sint fd) s = Some d" "unlocked (fd_lock s d)" "fop fops fo_ioctl d = Some f"
    and "f hart d cmd arg (s\<lparr>fd_lock := (fd_lock s)(d := (fd_lock s d)\<lparr>lock_val := 1, lock_id := hart\<rparr>)\<rparr>) = Some (r, s')"
  shows "k_sys_ioctl cfg fops hart fd cmd arg s = Some (r, s'\<lparr>fd_lock := (fd_lock s')(d := k_spinlock_unlock (fd_lock s' d))\<rparr>)"
  using assms by (simp add: k_sys_ioctl_def k_file_ioctl_def with_fd_lock_def k_file_ioctl_nolock_def)

lemma set_values_eq:
  "arg \<noteq> 0 \<Longrightarrow> k_gpio_line_set_values (v2_gpio_ops dev) arg s =
    (let (ret, h) = fold (set_line (gpio_v2_set dev) (read_lineval (con_mem (con s)) arg)) [0..<32] (0, con_hw (con s))
     in (ret, s\<lparr>con := (con s)\<lparr>con_hw := h\<rparr>\<rparr>))"
  unfolding k_gpio_line_set_values_def v2_gpio_ops_def by (simp del: upt_rec_numeral)

lemma get_values_eq:
  "arg \<noteq> 0 \<Longrightarrow> k_gpio_line_get_values (v2_gpio_ops dev) arg s =
    (let m = con_mem (con s);
         (ret, lv, h) = fold (get_line (gpio_v2_get dev)) [0..<32] (0, \<lparr>lv_bits = 0, lv_mask = lv_mask (read_lineval m arg)\<rparr>, con_hw (con s))
     in (ret, s\<lparr>con := (con s)\<lparr>con_mem := write_lineval m arg lv, con_hw := h\<rparr>\<rparr>))"
  unfolding k_gpio_line_get_values_def v2_gpio_ops_def by (simp del: upt_rec_numeral)

text \<open>
  The lines of a GPIO device through the system call \<open>ioctl\<close>: setting values changes exactly the lines
  of the mask to the given bits and nothing else, getting values returns the levels of the lines of the
  mask and changes no line.
\<close>

theorem gpio_ioctl_lines:
  assumes "mem_regs dev peek lim" "0 < lim" "k_file_get_desc cfg (sint fd) s = Some 3" "unlocked (fd_lock s 3)" "arg \<noteq> 0"
    and "fops = fds_ops (Some (gpio_line_ops (Some (v2_gpio_ops dev))))"
    and "lv = read_lineval (con_mem (con s)) arg"
  shows "(\<exists>s'. k_sys_ioctl cfg fops hart fd GPIO_V2_LINE_SET_VALUES_IOCTL arg s = Some (0, s') \<and> con_mem (con s') = con_mem (con s) \<and>
      (\<forall>n<32. bit (peek (con_hw (con s')) 0) n =
        (if bit (lv_mask lv) n then bit (lv_bits lv) n else bit (peek (con_hw (con s)) 0) n)) \<and>
      (\<forall>off. off \<noteq> 0 \<longrightarrow> peek (con_hw (con s')) off = peek (con_hw (con s)) off)) \<and>
    (\<exists>s'. k_sys_ioctl cfg fops hart fd GPIO_V2_LINE_GET_VALUES_IOCTL arg s = Some (0, s') \<and> con_hw (con s') = con_hw (con s) \<and>
      lv_mask (read_lineval (con_mem (con s')) arg) = lv_mask lv \<and>
      (\<forall>n. bit (lv_bits (read_lineval (con_mem (con s')) arg)) n \<longleftrightarrow> n < 32 \<and> bit (lv_mask lv) n \<and> bit (peek (con_hw (con s)) 0) n))"
    (is "?A \<and> ?B")
proof
  have x: "set [0..<32] \<subseteq> {..<32::nat}" and y: "n \<in> set [0..<32] \<longleftrightarrow> n < 32" for n :: nat by auto
  have op: "fop fops fo_ioctl 3 = Some (k_gpio_line_ioctl (Some (v2_gpio_ops dev)))"
    by (simp add: assms(6) fop_def fds_ops_def gpio_line_ops_def)
  define s1 where "s1 = s\<lparr>fd_lock := (fd_lock s)(3 := (fd_lock s 3)\<lparr>lock_val := 1, lock_id := hart\<rparr>)\<rparr>"
  have s1: "con s1 = con s" by (simp add: s1_def)
  note run = k_sys_ioctl_runs [OF assms(3,4) op, of hart, folded s1_def]
  obtain h where h: "fold (set_line (gpio_v2_set dev) lv) [0..<32] (0, con_hw (con s)) = (0, h)"
      "\<forall>off. off \<noteq> 0 \<longrightarrow> peek h off = peek (con_hw (con s)) off"
      "\<forall>n. bit (peek h 0) n = (if n < 32 \<and> bit (lv_mask lv) n then bit (lv_bits lv) n else bit (peek (con_hw (con s)) 0) n)"
    using set_lines [OF assms(1,2) x, of lv "con_hw (con s)"] unfolding y by blast
  have a: "k_gpio_line_ioctl (Some (v2_gpio_ops dev)) hart 3 GPIO_V2_LINE_SET_VALUES_IOCTL arg s1 = Some (0, s1\<lparr>con := (con s)\<lparr>con_hw := h\<rparr>\<rparr>)"
    using h(1) by (simp add: k_gpio_line_ioctl_def set_values_eq [OF assms(5)] s1 assms(7) del: upt_rec_numeral)
  show ?A using run [OF a] h(2,3) by simp
  obtain b where b: "fold (get_line (gpio_v2_get dev)) [0..<32] (0, \<lparr>lv_bits = 0, lv_mask = lv_mask lv\<rparr>, con_hw (con s)) =
        (0, \<lparr>lv_bits = b, lv_mask = lv_mask lv\<rparr>, con_hw (con s))"
      "\<forall>n. bit b n \<longleftrightarrow> n < 32 \<and> bit (lv_mask lv) n \<and> bit (peek (con_hw (con s)) 0) n"
    using get_lines [OF assms(1,2) x, of "\<lparr>lv_bits = 0, lv_mask = lv_mask lv\<rparr>" "con_hw (con s)"] unfolding y by auto
  have c: "k_gpio_line_ioctl (Some (v2_gpio_ops dev)) hart 3 GPIO_V2_LINE_GET_VALUES_IOCTL arg s1 =
      Some (0, s1\<lparr>con := (con s)\<lparr>con_mem := write_lineval (con_mem (con s)) arg \<lparr>lv_bits = b, lv_mask = lv_mask lv\<rparr>\<rparr>\<rparr>)"
    using b(1) by (simp add: k_gpio_line_ioctl_def get_values_eq [OF assms(5)] s1 assms(7) Let_def del: upt_rec_numeral)
  show ?B using run [OF c] b(2) by (simp add: read_write_lineval)
qed

theorem gpio_ioctl_lines_witness:
  "\<exists>s'. k_sys_ioctl small_config (fds_ops (Some (gpio_line_ops (Some (v2_gpio_ops ram_dev))))) 0 3 0xc010b40f 64 gpio_files = Some (0, s') \<and>
    bit (con_hw (con s') 0) 0 \<and> \<not> bit (con_hw (con s') 0) 1 \<and> bit (con_hw (con s') 0) 3"
proof -
  have "k_file_get_desc small_config (sint (3 :: u32)) gpio_files = Some 3" "unlocked (fd_lock gpio_files 3)"
    by (simp_all add: k_file_get_desc_def small_config_def gpio_files_def)
  moreover have "read_lineval (con_mem (con gpio_files)) 64 = \<lparr>lv_bits = 5, lv_mask = 7\<rparr>"
    by (simp add: read_lineval_def load64_def gpio_files_def upt_rec)
  ultimately show ?thesis
    using gpio_ioctl_lines [OF ram_dev_regs, of 1 small_config 3 gpio_files 64, OF _ _ _ _ refl refl, of 0]
    by (auto simp: gpio_files_def bit_numeral_rec)
qed

end
