(* ===== verification/Clk.thy ===== *)
theory Clk
  imports Device Regs
begin

section \<open>Clocks\<close>

text \<open>
  \<^verbatim>\<open>driver/clk/clk.c\<close> and the drivers \<^verbatim>\<open>clk_fixed.c\<close> and \<^verbatim>\<open>sifive/prci.c\<close>.  The operations of a driver work on a
  state of its own.  A variable that is not written is \<open>None\<close>; a wait for the lock of a PLL that never
  comes is \<open>None\<close> too.
\<close>

subsection \<open>Generic part\<close>

record 's k_clk_driver_ops =
  clk_enable :: "(int \<Rightarrow> 's \<Rightarrow> (int \<times> 's) option) option"
  clk_disable :: "(int \<Rightarrow> 's \<Rightarrow> (int \<times> 's) option) option"
  clk_get_freq :: "(int \<Rightarrow> 's \<Rightarrow> int \<times> u64 option) option"
  clk_set_freq :: "(int \<Rightarrow> u64 \<Rightarrow> 's \<Rightarrow> (int \<times> 's) option) option"

definition k_clk_add_device :: "'d drv_ops \<Rightarrow> devptr \<Rightarrow> busptr option \<Rightarrow> 'd dstate \<Rightarrow> (int \<times> 'd dstate) option" where
  "k_clk_add_device ops d parent s = do {
     (r, s) \<leftarrow> k_device_add ops (Some d) parent s;
     Some (if IS_ERROR r then r else 0, s)
   }"

definition k_clk_remove_device :: "devptr option \<Rightarrow> int" where
  "k_clk_remove_device clk = k_device_remove clk"

text \<open>The operations are those of the driver of the clock, \<open>None\<close> without a driver.\<close>

definition k_clk_enable :: "'s k_clk_driver_ops option \<Rightarrow> int \<Rightarrow> 's \<Rightarrow> (int \<times> 's) option" where
  "k_clk_enable clk index s =
     (case Option.bind clk clk_enable of Some f \<Rightarrow> f index s | None \<Rightarrow> Some (- ENODEV, s))"

definition k_clk_disable :: "'s k_clk_driver_ops option \<Rightarrow> int \<Rightarrow> 's \<Rightarrow> (int \<times> 's) option" where
  "k_clk_disable clk index s =
     (case Option.bind clk clk_disable of Some f \<Rightarrow> f index s | None \<Rightarrow> Some (- ENODEV, s))"

definition k_clk_get_frequency :: "'s k_clk_driver_ops option \<Rightarrow> int \<Rightarrow> 's \<Rightarrow> int \<times> u64 option" where
  "k_clk_get_frequency clk index s =
     (case Option.bind clk clk_get_freq of Some f \<Rightarrow> f index s | None \<Rightarrow> (- ENODEV, None))"

definition k_clk_set_frequency :: "'s k_clk_driver_ops option \<Rightarrow> int \<Rightarrow> u64 \<Rightarrow> 's \<Rightarrow> (int \<times> 's) option" where
  "k_clk_set_frequency clk index freq s =
     (case Option.bind clk clk_set_freq of Some f \<Rightarrow> f index freq s | None \<Rightarrow> Some (- ENODEV, s))"

definition k_clk_get_clk_from_config ::
    "(u64 \<Rightarrow> string) \<Rightarrow> 'd dstate \<Rightarrow> k_device \<Rightarrow> int \<Rightarrow> (int \<times> (devptr \<times> u32) option) option" where
  "k_clk_get_clk_from_config cstr s dev index = conf_ref cstr ''clocks'' s dev index"

text \<open>
  The input clock of a device, as all drivers with a clock take it into use: the reference of the
  configuration is resolved, the frequency is read and the clock is enabled.  \<open>clks\<close> gives the operations
  of a clock device, \<open>cs\<close> is the state of the clocks.
\<close>

record clk_input =
  in_clk :: "devptr option"
  in_index :: int
  in_freq :: u64

definition clk_attach ::
    "(u64 \<Rightarrow> string) \<Rightarrow> (devptr \<Rightarrow> 'c k_clk_driver_ops option) \<Rightarrow> 'd dstate \<Rightarrow> k_device \<Rightarrow> clk_input \<Rightarrow> 'c \<Rightarrow>
     (int \<times> clk_input \<times> 'c) option" where
  "clk_attach cstr clks s dev ci cs = do {
     (r, ref) \<leftarrow> k_clk_get_clk_from_config cstr s dev 0;
     if r \<noteq> 0 then Some (r, ci, cs)
     else do {
       (c, i) \<leftarrow> ref;
       let ci = ci\<lparr>in_clk := Some c, in_index := sint i\<rparr>;
           (r, f) = k_clk_get_frequency (clks c) (sint i) cs
       in if r \<noteq> 0 then Some (r, case f of None \<Rightarrow> ci | Some f \<Rightarrow> ci\<lparr>in_freq := f\<rparr>, cs)
       else do {
         f \<leftarrow> f;
         (r, cs) \<leftarrow> k_clk_enable (clks c) (sint i) cs;
         Some (r, ci\<lparr>in_freq := f\<rparr>, cs)
       }
     }
   }"

subsection \<open>Fixed clock\<close>

record clk_fixed_priv =
  fixed_freq :: u64

definition clk_fixed_add :: "k_device \<Rightarrow> clk_fixed_priv option \<Rightarrow> (int \<times> clk_fixed_priv option) option" where
  "clk_fixed_add dev priv =
     (case priv of
        None \<Rightarrow> Some (- EINVAL, None)
      | Some p \<Rightarrow> do {
          (r, f) \<leftarrow> k_device_read_conf_u64 (Some dev) (Some ''frequency'') 0;
          if r \<noteq> 0 then Some (- EINVAL, Some p)
          else do { f \<leftarrow> f; Some (0, Some (p\<lparr>fixed_freq := f\<rparr>)) }
        })"

definition clk_fixed_remove :: "devptr \<Rightarrow> int" where
  "clk_fixed_remove dev = 0"

definition clk_fixed_enable :: "int \<Rightarrow> clk_fixed_priv \<Rightarrow> (int \<times> clk_fixed_priv) option" where
  "clk_fixed_enable index p = Some (0, p)"

definition clk_fixed_disable :: "int \<Rightarrow> clk_fixed_priv \<Rightarrow> (int \<times> clk_fixed_priv) option" where
  "clk_fixed_disable index p = Some (0, p)"

definition clk_fixed_get_freq :: "int \<Rightarrow> clk_fixed_priv \<Rightarrow> int \<times> u64 option" where
  "clk_fixed_get_freq index p = (if index \<noteq> 0 then (- EINVAL, None) else (0, Some (fixed_freq p)))"

definition clk_fixed_clk_ops :: "clk_fixed_priv k_clk_driver_ops" where
  "clk_fixed_clk_ops =
     \<lparr>clk_enable = Some clk_fixed_enable, clk_disable = Some clk_fixed_disable, clk_get_freq = Some clk_fixed_get_freq,
      clk_set_freq = None\<rparr>"

subsection \<open>PLLs of the PRCI\<close>

abbreviation (input) MHZ :: nat where "MHZ \<equiv> 1000000"

abbreviation (input) PRCI_PLLCFG_DIVR_MAX :: nat where "PRCI_PLLCFG_DIVR_MAX \<equiv> 64"
abbreviation (input) PRCI_PLLCFG_DIVF_MAX :: nat where "PRCI_PLLCFG_DIVF_MAX \<equiv> 512"
abbreviation (input) PRCI_PLLCFG_DIVQ_MAX :: nat where "PRCI_PLLCFG_DIVQ_MAX \<equiv> 7"

abbreviation (input) PRCI_REF_MIN :: u64 where "PRCI_REF_MIN \<equiv> 7000000"
abbreviation (input) PRCI_REF_MAX :: u64 where "PRCI_REF_MAX \<equiv> 200000000"
abbreviation (input) PRCI_VCO_MIN :: u64 where "PRCI_VCO_MIN \<equiv> 2400000000"
abbreviation (input) PRCI_VCO_MAX :: u64 where "PRCI_VCO_MAX \<equiv> 4800000000"

abbreviation (input) PRCI_INDEX_DDRCTRLCLK :: int where "PRCI_INDEX_DDRCTRLCLK \<equiv> 0"
abbreviation (input) PRCI_INDEX_TLCLK :: int where "PRCI_INDEX_TLCLK \<equiv> 1"
abbreviation (input) PRCI_INDEX_CORECLK :: int where "PRCI_INDEX_CORECLK \<equiv> 2"
abbreviation (input) PRCI_INDEX_GEMGXLCLK :: int where "PRCI_INDEX_GEMGXLCLK \<equiv> 3"

text \<open>The private data with the hardware behind the registers.\<close>

record 'h clk_prci_priv =
  clk_in :: "devptr option"
  index_clk_in :: int
  freq_in :: u64
  freq_ddrctrl :: u64
  freq_core :: u64
  freq_gemgxl :: u64
  prci_hw :: 'h

record clk_prci_pllcfg =
  target :: u64
  divr :: nat
  post_divr :: u64
  divf :: nat
  post_divf :: u64
  divq :: nat
  result :: u64
  divr_found :: nat
  post_divr_found :: u64
  divf_found :: nat
  divq_found :: nat
  range :: nat
  pll_found :: bool

text \<open>Offsets of the registers, \<open>- 1\<close> where there is none.\<close>

definition pllcfg_offs :: "(int \<times> int) list" where
  "pllcfg_offs = [(0x0c, 0x10), (- 1, - 1), (0x04, - 1), (0x1c, 0x20)]"

definition clksel_offs :: "int list" where
  "clksel_offs = [- 1, - 1, 0x24, - 1]"

definition clk_prci_filter_range :: "u64 \<Rightarrow> int \<times> nat option" where
  "clk_prci_filter_range f =
     (if PRCI_REF_MIN \<le> f \<and> f < 11000000 then (0, Some 1)
      else if 11000000 \<le> f \<and> f < 18000000 then (0, Some 2)
      else if 18000000 \<le> f \<and> f < 30000000 then (0, Some 3)
      else if 30000000 \<le> f \<and> f < 50000000 then (0, Some 4)
      else if 50000000 \<le> f \<and> f < 80000000 then (0, Some 5)
      else if 80000000 \<le> f \<and> f < 130000000 then (0, Some 6)
      else if 130000000 \<le> f \<and> f < PRCI_REF_MAX then (0, Some 7)
      else (- ERANGE, None))"

text \<open>One turn of each of the three loops.\<close>

definition divq_step :: "nat \<Rightarrow> clk_prci_pllcfg \<Rightarrow> clk_prci_pllcfg" where
  "divq_step i conf =
     (let post_divq = drop_bit i (post_divf conf);
          diff = sint (target conf - post_divq);
          diff_found = sint (target conf - result conf)
      in if NABS diff_found \<le> NABS diff then conf
         else conf\<lparr>result := post_divq, divr_found := divr conf, post_divr_found := post_divr conf,
                divf_found := divf conf, divq_found := i, pll_found := True\<rparr>)"

definition clk_prci_find_divq :: "clk_prci_pllcfg \<Rightarrow> int \<times> clk_prci_pllcfg" where
  "clk_prci_find_divq conf =
     (let conf = fold divq_step [0..<PRCI_PLLCFG_DIVQ_MAX] conf in (if pll_found conf then 0 else - EINVAL, conf))"

definition divf_step :: "nat \<Rightarrow> clk_prci_pllcfg \<Rightarrow> clk_prci_pllcfg" where
  "divf_step i conf =
     (let f = post_divr conf * 2 * of_nat (i + 1)
      in if f < PRCI_VCO_MIN \<or> PRCI_VCO_MAX \<le> f then conf
         else snd (clk_prci_find_divq (conf\<lparr>divf := i, post_divf := f\<rparr>)))"

definition clk_prci_find_divf :: "clk_prci_pllcfg \<Rightarrow> int \<times> clk_prci_pllcfg" where
  "clk_prci_find_divf conf =
     (let conf = fold divf_step [0..<PRCI_PLLCFG_DIVF_MAX] conf in (if pll_found conf then 0 else - EINVAL, conf))"

definition divr_step :: "u64 \<Rightarrow> nat \<Rightarrow> clk_prci_pllcfg \<Rightarrow> clk_prci_pllcfg" where
  "divr_step fin i conf =
     (let f = fin div of_nat (i + 1)
      in if f < PRCI_REF_MIN \<or> PRCI_REF_MAX \<le> f then conf
         else snd (clk_prci_find_divf (conf\<lparr>divr := i, post_divr := f\<rparr>)))"

definition clk_prci_find_divr :: "u64 \<Rightarrow> clk_prci_pllcfg \<Rightarrow> int \<times> clk_prci_pllcfg" where
  "clk_prci_find_divr fin conf =
     (let conf = fold (divr_step fin) [0..<PRCI_PLLCFG_DIVR_MAX] (conf\<lparr>result := 0, pll_found := False\<rparr>)
      in if pll_found conf then
           (case clk_prci_filter_range (post_divr_found conf) of
              (r, v) \<Rightarrow>
                let conf = (case v of None \<Rightarrow> conf | Some v \<Rightarrow> conf\<lparr>range := v\<rparr>)
                in (if r \<noteq> 0 then - EINVAL else 0, conf))
         else (- EINVAL, conf))"

definition pllcfg_zero :: clk_prci_pllcfg where
  "pllcfg_zero =
     \<lparr>target = 0, divr = 0, post_divr = 0, divf = 0, post_divf = 0, divq = 0, result = 0, divr_found = 0,
      post_divr_found = 0, divf_found = 0, divq_found = 0, range = 0, pll_found = False\<rparr>"

definition pllcfg_word :: "clk_prci_pllcfg \<Rightarrow> u32" where
  "pllcfg_word conf =
     of_nat (divr_found conf) OR push_bit 6 (of_nat (divf_found conf)) OR push_bit 15 (of_nat (divq_found conf)) OR
     push_bit 18 (of_nat (range conf)) OR push_bit 25 1"

text \<open>\<open>upd\<close> writes the variable that takes the frequency found.\<close>

definition clk_prci_update_pllcfg ::
    "'h rdev \<Rightarrow> u64 \<Rightarrow> (u64 \<Rightarrow> 'h clk_prci_priv \<Rightarrow> 'h clk_prci_priv) \<Rightarrow> int \<Rightarrow> 'h clk_prci_priv \<Rightarrow> (int \<times> 'h clk_prci_priv) option" where
  "clk_prci_update_pllcfg dev freq upd off p =
     (let (r, conf) = clk_prci_find_divr (freq_in p) (pllcfg_zero\<lparr>target := freq\<rparr>)
      in if r \<noteq> 0 then Some (r, p)
         else
           let p = upd (result conf) p;
               w = k_device_write32 dev (pllcfg_word conf) (of_int off) (prci_hw p)
           in do {
             (v, w) \<leftarrow> wait_until (k_device_read32 dev (of_int off)) w (\<lambda>v. v AND push_bit 31 1 \<noteq> 0);
             Some (0, p\<lparr>prci_hw := w\<rparr>)
           })"

definition update_bit :: "'h rdev \<Rightarrow> nat \<Rightarrow> bool \<Rightarrow> int \<Rightarrow> 'h clk_prci_priv \<Rightarrow> int \<times> 'h clk_prci_priv" where
  "update_bit dev n on off p =
     (let (v, w) = k_device_read32 dev (of_int off) (prci_hw p);
          v = (if on then v OR push_bit n 1 else v AND NOT (push_bit n 1))
      in (0, p\<lparr>prci_hw := k_device_write32 dev v (of_int off) w\<rparr>))"

definition clk_prci_update_cke :: "'h rdev \<Rightarrow> bool \<Rightarrow> int \<Rightarrow> 'h clk_prci_priv \<Rightarrow> int \<times> 'h clk_prci_priv" where
  "clk_prci_update_cke dev enable off p = update_bit dev 24 enable off p"

definition clk_prci_update_clksel :: "'h rdev \<Rightarrow> bool \<Rightarrow> int \<Rightarrow> 'h clk_prci_priv \<Rightarrow> int \<times> 'h clk_prci_priv" where
  "clk_prci_update_clksel dev bypass off p = update_bit dev 0 bypass off p"

text \<open>An index outside of the tables is not checked.\<close>

definition prci_index :: "int \<Rightarrow> nat option" where
  "prci_index index =
     (let index = (if index = PRCI_INDEX_TLCLK then PRCI_INDEX_CORECLK else index)
      in if 0 \<le> index \<and> index < 4 then Some (nat index) else None)"

definition clk_prci_enable :: "'h rdev \<Rightarrow> int \<Rightarrow> 'h clk_prci_priv \<Rightarrow> (int \<times> 'h clk_prci_priv) option" where
  "clk_prci_enable dev index p = do {
     i \<leftarrow> prci_index index;
     let off = snd (pllcfg_offs ! i);
         (r, p) = (if off \<noteq> - 1 then clk_prci_update_cke dev True off p else (0, p))
     in if r \<noteq> 0 then Some (r, p)
        else let off = clksel_offs ! i;
                 (r, p) = (if off \<noteq> - 1 then clk_prci_update_clksel dev False off p else (0, p))
             in Some (if r \<noteq> 0 then r else 0, p)
   }"

definition clk_prci_disable :: "'h rdev \<Rightarrow> int \<Rightarrow> 'h clk_prci_priv \<Rightarrow> (int \<times> 'h clk_prci_priv) option" where
  "clk_prci_disable dev index p = do {
     i \<leftarrow> prci_index index;
     let off = clksel_offs ! i;
         (r, p) = (if off \<noteq> - 1 then clk_prci_update_clksel dev True off p else (0, p))
     in if r \<noteq> 0 then Some (r, p)
        else let off = snd (pllcfg_offs ! i);
                 (r, p) = (if off \<noteq> - 1 then clk_prci_update_cke dev False off p else (0, p))
             in Some (if r \<noteq> 0 then r else 0, p)
   }"

definition clk_prci_get_freq :: "int \<Rightarrow> 'h clk_prci_priv \<Rightarrow> int \<times> u64 option" where
  "clk_prci_get_freq index p =
     (if index = PRCI_INDEX_DDRCTRLCLK then (0, Some (freq_ddrctrl p))
      else if index = PRCI_INDEX_TLCLK then (0, Some (freq_core p div 2))
      else if index = PRCI_INDEX_CORECLK then (0, Some (freq_core p))
      else if index = PRCI_INDEX_GEMGXLCLK then (0, Some (freq_gemgxl p))
      else (- EINVAL, None))"

definition clk_prci_set_freq :: "'h rdev \<Rightarrow> int \<Rightarrow> u64 \<Rightarrow> 'h clk_prci_priv \<Rightarrow> (int \<times> 'h clk_prci_priv) option" where
  "clk_prci_set_freq dev index freq p =
     (let freq_found =
        (if index = PRCI_INDEX_DDRCTRLCLK then Some (\<lambda>f. freq_ddrctrl_update (\<lambda>_. f))
         else if index = PRCI_INDEX_CORECLK then Some (\<lambda>f. freq_core_update (\<lambda>_. f))
         else if index = PRCI_INDEX_GEMGXLCLK then Some (\<lambda>f. freq_gemgxl_update (\<lambda>_. f))
         else None)
      in case freq_found of
           None \<Rightarrow> Some (- EINVAL, p)
         | Some upd \<Rightarrow> clk_prci_update_pllcfg dev freq upd (fst (pllcfg_offs ! nat index)) p)"

definition clk_prci_clk_ops :: "'h rdev \<Rightarrow> 'h clk_prci_priv k_clk_driver_ops" where
  "clk_prci_clk_ops dev =
     \<lparr>clk_enable = Some (clk_prci_enable dev), clk_disable = Some (clk_prci_disable dev),
      clk_get_freq = Some clk_prci_get_freq, clk_set_freq = Some (clk_prci_set_freq dev)\<rparr>"

text \<open>The frequencies of the configuration are set one after the other, up to the first failure.\<close>

fun prci_set_all :: "'h rdev \<Rightarrow> k_device \<Rightarrow> int list \<Rightarrow> 'h clk_prci_priv \<Rightarrow> (int \<times> 'h clk_prci_priv) option" where
  "prci_set_all dev d [] p = Some (0, p)"
| "prci_set_all dev d (index # is) p = do {
     (r, freq) \<leftarrow> k_device_read_conf_u64 (Some d) (Some ''frequency'') index;
     if r \<noteq> 0 then Some (- EINVAL, p)
     else do {
       freq \<leftarrow> freq;
       (r, p) \<leftarrow> clk_prci_set_freq dev index freq p;
       if r \<noteq> 0 then Some (r, p) else prci_set_all dev d is p
     }
   }"

definition clk_prci_add ::
    "(u64 \<Rightarrow> string) \<Rightarrow> 'd drv_ops \<Rightarrow> (devptr \<Rightarrow> 'c k_clk_driver_ops option) \<Rightarrow> 'h rdev \<Rightarrow> devptr \<Rightarrow> 'd dstate \<Rightarrow> 'c \<Rightarrow>
     'h clk_prci_priv option \<Rightarrow> (int \<times> 'd dstate \<times> 'c \<times> 'h clk_prci_priv option) option" where
  "clk_prci_add cstr ops clks dev d s cs priv =
     (case priv of
        None \<Rightarrow> Some (- EINVAL, s, cs, None)
      | Some p \<Rightarrow> do {
          (r, s) \<leftarrow> k_io_mmap_device ops d s;
          if r \<noteq> 0 then Some (r, s, cs, Some p)
          else do {
            (r, ci, cs) \<leftarrow> clk_attach cstr clks s (devs s d) \<lparr>in_clk = clk_in p, in_index = index_clk_in p, in_freq = freq_in p\<rparr> cs;
            let p = p\<lparr>clk_in := in_clk ci, index_clk_in := in_index ci, freq_in := in_freq ci\<rparr>
            in if r \<noteq> 0 then Some (r, s, cs, Some p)
            else do {
              (r, p) \<leftarrow> prci_set_all (mapped s d dev) (devs s d) [PRCI_INDEX_DDRCTRLCLK, PRCI_INDEX_CORECLK, PRCI_INDEX_GEMGXLCLK] p;
              Some (r, s, cs, Some p)
            }
          }
        })"

definition clk_prci_remove :: "devptr \<Rightarrow> int" where
  "clk_prci_remove dev = 0"

subsection \<open>Frequencies of a PLL\<close>

text \<open>
  The output frequency for dividers \<open>(r, f, q)\<close>, and the dividers that keep the reference and the VCO in
  their ranges.
\<close>

definition pll_freq :: "u64 \<Rightarrow> nat \<times> nat \<times> nat \<Rightarrow> nat" where
  "pll_freq fin = (\<lambda>(r, f, q). unat fin div (r + 1) * 2 * (f + 1) div 2 ^ q)"

definition pll_cand :: "u64 \<Rightarrow> nat \<times> nat \<times> nat \<Rightarrow> bool" where
  "pll_cand fin = (\<lambda>(r, f, q). r < 64 \<and> f < 512 \<and> q < 7 \<and>
     7 * MHZ \<le> unat fin div (r + 1) \<and> unat fin div (r + 1) < 200 * MHZ \<and>
     2400 * MHZ \<le> unat fin div (r + 1) * 2 * (f + 1) \<and> unat fin div (r + 1) * 2 * (f + 1) < 4800 * MHZ)"

definition pll_dist :: "u64 \<Rightarrow> nat \<Rightarrow> int" where
  "pll_dist t f = \<bar>int (unat t) - int f\<bar>"

definition pll_hit :: "u64 \<Rightarrow> u64 \<Rightarrow> clk_prci_pllcfg \<Rightarrow> bool" where
  "pll_hit fin t conf \<longleftrightarrow>
     pll_dist t (unat (result conf)) < pll_dist t 0 \<and>
     unat (result conf) = pll_freq fin (divr_found conf, divf_found conf, divq_found conf) \<and>
     unat (post_divr_found conf) = unat fin div (divr_found conf + 1)"

text \<open>What the search knows when it has seen the dividers \<open>S\<close>.\<close>

definition pll_best :: "u64 \<Rightarrow> u64 \<Rightarrow> (nat \<times> nat \<times> nat) set \<Rightarrow> clk_prci_pllcfg \<Rightarrow> bool" where
  "pll_best fin t S conf \<longleftrightarrow>
     target conf = t \<and> (\<forall>c\<in>S. pll_dist t (unat (result conf)) \<le> pll_dist t (pll_freq fin c)) \<and>
     (if pll_found conf then pll_hit fin t conf \<and> (divr_found conf, divf_found conf, divq_found conf) \<in> S
      else result conf = 0)"

text \<open>
  The filter range of a PLL by the frequency of its divided reference: the ranges 1 to 7 start at 7,
  11, 18, 30, 50, 80 and 130 MHz.
\<close>

definition pll_range :: "nat \<Rightarrow> nat" where
  "pll_range f = length (filter (\<lambda>b. b * MHZ \<le> f) [7, 11, 18, 30, 50, 80, 130])"

text \<open>
  The outcome of a search: dividers in range whose frequency is nearest to the target, and the filter
  range of their reference.
\<close>

definition pll_nearest :: "u64 \<Rightarrow> u64 \<Rightarrow> clk_prci_pllcfg \<Rightarrow> bool" where
  "pll_nearest fin t conf \<longleftrightarrow>
     (let best = (divr_found conf, divf_found conf, divq_found conf)
      in pll_cand fin best \<and> unat (result conf) = pll_freq fin best \<and>
         range conf = pll_range (unat fin div (divr_found conf + 1)) \<and> 1 \<le> range conf \<and> range conf \<le> 7 \<and>
         (\<forall>c. pll_cand fin c \<longrightarrow> pll_dist t (pll_freq fin best) \<le> pll_dist t (pll_freq fin c)))"

text \<open>The frequency of a clock of the PRCI.\<close>

definition prci_freq :: "'h clk_prci_priv \<Rightarrow> int \<Rightarrow> u64" where
  "prci_freq p i = (case snd (clk_prci_get_freq i p) of None \<Rightarrow> 0 | Some f \<Rightarrow> f)"

text \<open>
  A configuration register of a PLL: it keeps what is written, reading does not change it, and the
  lock bit is set after finitely many reads.
\<close>

definition pll_reg :: "'h rdev \<Rightarrow> u64 \<Rightarrow> ('h \<Rightarrow> u32) \<Rightarrow> ('h \<Rightarrow> nat) \<Rightarrow> bool" where
  "pll_reg dev off cfg left \<longleftrightarrow>
     (\<forall>v h. cfg (k_device_write32 dev v off h) = v) \<and>
     (\<forall>h v h'. k_device_read32 dev off h = (v, h') \<longrightarrow> cfg h' = cfg h \<and> (v AND push_bit 31 1 = 0 \<longrightarrow> left h' < left h))"

text \<open>A PLL that locks at once.\<close>

definition locked_dev :: "(u64 \<Rightarrow> u32) rdev" where
  "locked_dev = ram_dev\<lparr>dv_io := (dv_io ram_dev)\<lparr>io_read32 := \<lambda>a h. (h (a - 0x1000) OR push_bit 31 1, h)\<rparr>\<rparr>"

subsection \<open>Search for dividers\<close>

lemma pll_freq_bound:
  assumes "pll_cand fin c"
  shows "pll_freq fin c < 4800 * MHZ"
proof -
  obtain r f q where c: "c = (r, f, q)" by (cases c)
  have "pll_freq fin c \<le> unat fin div (r + 1) * 2 * (f + 1)" unfolding c pll_freq_def split_conv by (rule div_le_dividend)
  then show ?thesis using assms by (simp add: c pll_cand_def)
qed

lemma uint_small: "unat (t::u64) < 2 ^ 63 \<Longrightarrow> 0 \<le> uint t \<and> uint t < 2 ^ 63"
  using of_nat_less_iff [of "unat t" "2 ^ 63", where 'a = int] by simp

lemma sint_diff:
  assumes "unat (t::u64) < 2 ^ 63" "unat f < 2 ^ 63"
  shows "sint (t - f) = uint t - uint f"
proof -
  have "sint (t - f) = signed_take_bit 63 (uint t - uint f)"
    unfolding sint_word_ariths(2) sint_small [OF assms(1)] sint_small [OF assms(2)] by simp
  also have "\<dots> = uint t - uint f"
  proof (rule signed_take_bit_int_eq_self)
    show "- (2 ^ 63) \<le> uint t - uint f" "uint t - uint f < 2 ^ 63"
      using uint_small [OF assms(1)] uint_small [OF assms(2)] by linarith+
  qed
  finally show ?thesis .
qed

lemma divq_step_best:
  assumes "pll_best fin t S conf" "S \<subseteq> Collect (pll_cand fin)" "unat t < 2 ^ 63"
    and "pll_cand fin (divr conf, divf conf, i)"
    and "unat (post_divr conf) = unat fin div (divr conf + 1)"
    and "unat (post_divf conf) = unat fin div (divr conf + 1) * 2 * (divf conf + 1)"
  shows "pll_best fin t (insert (divr conf, divf conf, i) S) (divq_step i conf)"
proof -
  let ?c = "(divr conf, divf conf, i)"
  have u: "unat (drop_bit i (post_divf conf)) = pll_freq fin ?c"
    unfolding unat_drop_bit_eq assms(6) pll_freq_def split_conv by (rule drop_bit_eq_div)
  have b: "unat (drop_bit i (post_divf conf)) < 2 ^ 63"
    using pll_freq_bound [OF assms(4)] unfolding u by simp
  have rb: "unat (result conf) < 2 ^ 63"
  proof (cases "pll_found conf")
    case True
    then have "pll_cand fin (divr_found conf, divf_found conf, divq_found conf)"
        "unat (result conf) = pll_freq fin (divr_found conf, divf_found conf, divq_found conf)"
      using assms(1,2) by (auto simp: pll_best_def pll_hit_def)
    then show ?thesis using pll_freq_bound [of fin "(divr_found conf, divf_found conf, divq_found conf)"] by simp
  qed (use assms(1) in \<open>simp add: pll_best_def\<close>)
  have t: "target conf = t" using assms(1) by (simp add: pll_best_def)
  have d: "\<bar>sint (t - drop_bit i (post_divf conf))\<bar> = pll_dist t (pll_freq fin ?c)"
      "\<bar>sint (t - result conf)\<bar> = pll_dist t (unat (result conf))"
    using sint_diff [OF assms(3) b] sint_diff [OF assms(3) rb] by (simp_all add: pll_dist_def flip: u)
  show ?thesis
  proof (cases "pll_dist t (unat (result conf)) \<le> pll_dist t (pll_freq fin ?c)")
    case True
    then have "divq_step i conf = conf" by (simp add: divq_step_def Let_def t d)
    then show ?thesis using assms(1) True unfolding pll_best_def by simp
  next
    case False
    then have s: "divq_step i conf = conf\<lparr>result := drop_bit i (post_divf conf), divr_found := divr conf,
        post_divr_found := post_divr conf, divf_found := divf conf, divq_found := i, pll_found := True\<rparr>"
      by (simp add: divq_step_def Let_def t d)
    have "pll_dist t (unat (result conf)) \<le> pll_dist t 0"
      using assms(1) by (cases "pll_found conf") (auto simp: pll_best_def pll_hit_def)
    moreover have "\<forall>c\<in>S. pll_dist t (unat (result conf)) \<le> pll_dist t (pll_freq fin c)"
      using assms(1) unfolding pll_best_def by blast
    ultimately have le: "\<forall>c\<in>S. pll_dist t (pll_freq fin ?c) \<le> pll_dist t (pll_freq fin c)"
        and lt: "pll_dist t (pll_freq fin ?c) < pll_dist t 0" using False by (auto intro: order.trans)
    then have "pll_hit fin t (divq_step i conf)" by (simp add: s pll_hit_def u assms(5))
    then show ?thesis using le t by (simp add: pll_best_def s u)
  qed
qed

lemma divq_step_same: "divr (divq_step i conf) = divr conf" "post_divr (divq_step i conf) = post_divr conf"
  "divf (divq_step i conf) = divf conf" "post_divf (divq_step i conf) = post_divf conf"
  by (simp_all add: divq_step_def Let_def)

lemma fold_best:
  assumes "\<And>i S conf. i \<in> set xs \<Longrightarrow> P conf \<Longrightarrow> pll_best fin t S conf \<Longrightarrow> S \<subseteq> Collect (pll_cand fin) \<Longrightarrow>
      pll_best fin t (S \<union> C i) (step i conf) \<and> P (step i conf)"
    and "\<And>i. i \<in> set xs \<Longrightarrow> C i \<subseteq> Collect (pll_cand fin)"
    and "P conf" "pll_best fin t S conf" "S \<subseteq> Collect (pll_cand fin)"
  shows "pll_best fin t (S \<union> (\<Union>i\<in>set xs. C i)) (fold step xs conf) \<and> P (fold step xs conf)"
  using assms
proof (induction xs arbitrary: S conf)
  case (Cons i xs)
  have "pll_best fin t (S \<union> C i) (step i conf)" "P (step i conf)"
    using Cons.prems(1) [of i conf S] Cons.prems(3-5) by auto
  moreover have "S \<union> C i \<subseteq> Collect (pll_cand fin)" using Cons.prems(2) [of i] Cons.prems(5) by auto
  moreover have "S \<union> (\<Union>i\<in>set (i # xs). C i) = (S \<union> C i) \<union> (\<Union>i\<in>set xs. C i)" by auto
  ultimately show ?case using Cons.IH [of "step i conf" "S \<union> C i"] Cons.prems(1,2) by (simp only: fold_Cons o_apply) simp
qed simp

lemma find_divq_best:
  assumes "pll_best fin t S conf" "S \<subseteq> Collect (pll_cand fin)" "unat t < 2 ^ 63"
    and "pll_cand fin (r, f, 0)" "divr conf = r" "divf conf = f"
    and "unat (post_divr conf) = unat fin div (r + 1)"
    and "unat (post_divf conf) = unat fin div (r + 1) * 2 * (f + 1)"
  shows "pll_best fin t (S \<union> {c. fst c = r \<and> fst (snd c) = f \<and> pll_cand fin c}) (snd (clk_prci_find_divq conf)) \<and>
    divr (snd (clk_prci_find_divq conf)) = r \<and> post_divr (snd (clk_prci_find_divq conf)) = post_divr conf"
proof -
  let ?P = "\<lambda>c. divr c = r \<and> divf c = f \<and> post_divr c = post_divr conf \<and> post_divf c = post_divf conf"
  have q: "pll_cand fin (r, f, i)" if "i < 7" for i using assms(4) that by (simp add: pll_cand_def)
  have step: "pll_best fin t (S' \<union> {(r, f, i)}) (divq_step i conf') \<and> ?P (divq_step i conf')"
    if a: "i \<in> set [0..<7]" "?P conf'" "pll_best fin t S' conf'" "S' \<subseteq> Collect (pll_cand fin)" for i S' conf'
    using divq_step_best [OF a(3,4) assms(3), of i] q [of i] assms(7,8) a(1,2) by (simp add: divq_step_same)
  have "pll_best fin t (S \<union> (\<Union>i\<in>set [0..<7]. {(r, f, i)})) (fold divq_step [0..<7] conf) \<and> ?P (fold divq_step [0..<7] conf)"
    using q assms(1,2,5,6) by (intro fold_best [where P = ?P] step) auto
  moreover have "(\<Union>i\<in>set [0..<7]. {(r, f, i)}) = {c. fst c = r \<and> fst (snd c) = f \<and> pll_cand fin c}"
    using q by (auto simp: pll_cand_def)
  ultimately show ?thesis by (simp only: clk_prci_find_divq_def Let_def snd_conv)
qed

lemma unat_of_nat_id: "of_nat (unat x) = (x :: u64)"
  by simp

lemma pll_best_pre:
  "pll_best fin t S (conf\<lparr>divf := f, post_divf := x\<rparr>) = pll_best fin t S conf"
  "pll_best fin t S (conf\<lparr>divr := r, post_divr := y\<rparr>) = pll_best fin t S conf"
  by (simp_all add: pll_best_def pll_hit_def)

lemma divf_step_best:
  assumes "pll_best fin t S conf" "S \<subseteq> Collect (pll_cand fin)" "unat t < 2 ^ 63"
    and "i < 512" "r < 64" "divr conf = r" "unat (post_divr conf) = unat fin div (r + 1)"
    and "7 * MHZ \<le> unat fin div (r + 1)" "unat fin div (r + 1) < 200 * MHZ"
  shows "pll_best fin t (S \<union> {c. fst c = r \<and> fst (snd c) = i \<and> pll_cand fin c}) (divf_step i conf) \<and>
    divr (divf_step i conf) = r \<and> post_divr (divf_step i conf) = post_divr conf"
proof -
  let ?F = "unat fin div (r + 1) * 2 * (i + 1)" and ?f = "post_divr conf * 2 * of_nat (i + 1)"
  have "?F \<le> 200 * MHZ * 2 * 512" using assms(4,9) by (intro mult_le_mono) simp_all
  then have b: "?F < 2 ^ 64" by simp
  have "?f = of_nat ?F" unfolding assms(7) [symmetric] by (simp only: of_nat_mult of_nat_numeral unat_of_nat_id)
  then have f: "unat ?f = ?F" using b by (simp only: unat_of_nat take_bit_nat_eq_self) (simp add: take_bit_nat_eq_self)
  have c: "pll_cand fin (r, i, q) \<longleftrightarrow> q < 7 \<and> 2400 * MHZ \<le> ?F \<and> ?F < 4800 * MHZ" for q
    using assms(4,5,8,9) by (auto simp: pll_cand_def)
  have lt: "?f < PRCI_VCO_MIN \<longleftrightarrow> ?F < 2400 * MHZ" "PRCI_VCO_MAX \<le> ?f \<longleftrightarrow> 4800 * MHZ \<le> ?F"
    unfolding word_less_nat_alt word_le_nat_alt f by simp_all
  show ?thesis
  proof (cases "?F < 2400 * MHZ \<or> 4800 * MHZ \<le> ?F")
    case True
    then have "\<not> pll_cand fin (r, i, q)" for q unfolding c by linarith
    then have "{c. fst c = r \<and> fst (snd c) = i \<and> pll_cand fin c} = {}" by auto
    moreover have "divf_step i conf = conf" unfolding divf_step_def Let_def lt using True by (simp only: if_True)
    ultimately show ?thesis using assms(1,6) by (simp only: Un_empty_right)
  next
    case False
    let ?conf = "conf\<lparr>divf := i, post_divf := ?f\<rparr>"
    have s: "divf_step i conf = snd (clk_prci_find_divq ?conf)"
      unfolding divf_step_def Let_def lt using False by (simp only: if_False)
    have "pll_best fin t S ?conf" using assms(1) by (simp only: pll_best_pre)
    then show ?thesis
      using find_divq_best [of fin t S ?conf r i] assms(2,3,6,7) f c [of 0] False unfolding s by simp
  qed
qed

lemma divr_step_best:
  assumes "pll_best fin t S conf" "S \<subseteq> Collect (pll_cand fin)" "unat t < 2 ^ 63" "i < 64"
  shows "pll_best fin t (S \<union> {c. fst c = i \<and> pll_cand fin c}) (divr_step fin i conf)"
proof -
  let ?F = "unat fin div (i + 1)" and ?f = "fin div of_nat (i + 1)"
  have "unat (of_nat (i + 1) :: u64) = i + 1" using assms(4) by (simp only: unat_of_nat) (simp add: take_bit_nat_eq_self)
  then have f: "unat ?f = ?F" by (simp add: unat_div_distrib del: of_nat_Suc of_nat_add)
  have lt: "?f < PRCI_REF_MIN \<longleftrightarrow> ?F < 7 * MHZ" "PRCI_REF_MAX \<le> ?f \<longleftrightarrow> 200 * MHZ \<le> ?F"
    unfolding word_less_nat_alt word_le_nat_alt f by simp_all
  show ?thesis
  proof (cases "?F < 7 * MHZ \<or> 200 * MHZ \<le> ?F")
    case True
    then have "{c. fst c = i \<and> pll_cand fin c} = {}" by (auto simp: pll_cand_def)
    moreover have "divr_step fin i conf = conf" unfolding divr_step_def Let_def lt using True by (simp only: if_True)
    ultimately show ?thesis using assms(1) by (simp only: Un_empty_right)
  next
    case False
    let ?conf = "conf\<lparr>divr := i, post_divr := ?f\<rparr>"
    let ?P = "\<lambda>c. divr c = i \<and> post_divr c = ?f"
    let ?C = "\<lambda>j. {c. fst c = i \<and> fst (snd c) = j \<and> pll_cand fin c}"
    define xs where "xs = [0..<(512::nat)]"
    have xs: "set xs = {0..<512}" unfolding xs_def by (rule set_upt)
    have s: "divr_step fin i conf = fold divf_step xs ?conf"
      unfolding divr_step_def Let_def lt clk_prci_find_divf_def snd_conv xs_def using False by (simp only: if_False)
    have step: "pll_best fin t (S' \<union> ?C j) (divf_step j conf') \<and> ?P (divf_step j conf')"
      if "j \<in> set xs" "?P conf'" "pll_best fin t S' conf'" "S' \<subseteq> Collect (pll_cand fin)" for j S' conf'
      using divf_step_best [OF that(3,4) assms(3), of j i] that(1,2) assms(4) f False xs by simp
    have "pll_best fin t S ?conf" using assms(1) by (simp only: pll_best_pre)
    then have "pll_best fin t (S \<union> (\<Union>j\<in>set xs. ?C j)) (fold divf_step xs ?conf) \<and> ?P (fold divf_step xs ?conf)"
      using assms(2) by (intro fold_best [where P = ?P] step) auto
    moreover have "(\<Union>j\<in>set xs. ?C j) = {c. fst c = i \<and> pll_cand fin c}" by (auto simp: pll_cand_def xs)
    ultimately show ?thesis by (simp only: s)
  qed
qed

lemma divr_fold_best:
  assumes "unat (target conf) < 2 ^ 63"
  shows "pll_best fin (target conf) (Collect (pll_cand fin)) (fold (divr_step fin) [0..<64] (conf\<lparr>result := 0, pll_found := False\<rparr>))"
proof -
  let ?C = "\<lambda>j. {c. fst c = j \<and> pll_cand fin c}" and ?conf = "conf\<lparr>result := 0, pll_found := False\<rparr>"
  define xs where "xs = [0..<(64::nat)]"
  have xs: "set xs = {0..<64}" unfolding xs_def by (rule set_upt)
  have "pll_best fin (target conf) {} ?conf" by (simp add: pll_best_def)
  then have "pll_best fin (target conf) ({} \<union> (\<Union>j\<in>set xs. ?C j)) (fold (divr_step fin) xs ?conf) \<and> True"
    using assms by (intro fold_best [where P = "\<lambda>_. True"]) (auto simp: divr_step_best xs)
  moreover have "{} \<union> (\<Union>j\<in>set xs. ?C j) = Collect (pll_cand fin)" by (auto simp: pll_cand_def xs)
  ultimately show ?thesis by (simp only: xs_def)
qed

lemma filter_range_ok:
  "PRCI_REF_MIN \<le> f \<Longrightarrow> f < PRCI_REF_MAX \<Longrightarrow> clk_prci_filter_range f = (0, Some (pll_range (unat f))) \<and>
    1 \<le> pll_range (unat f) \<and> pll_range (unat f) \<le> 7"
  by (auto simp: clk_prci_filter_range_def pll_range_def word_less_nat_alt word_le_nat_alt not_less)

lemma find_divr_nearest:
  assumes "unat (target conf) < 2 ^ 63"
  shows "if \<exists>c. pll_cand fin c \<and> pll_dist (target conf) (pll_freq fin c) < pll_dist (target conf) 0
    then \<exists>conf'. clk_prci_find_divr fin conf = (0, conf') \<and> pll_nearest fin (target conf) conf'
    else fst (clk_prci_find_divr fin conf) = - EINVAL"
proof -
  let ?t = "target conf" and ?E = "\<exists>c. pll_cand fin c \<and> pll_dist (target conf) (pll_freq fin c) < pll_dist (target conf) 0"
  define d where "d = fold (divr_step fin) [0..<64] (conf\<lparr>result := 0, pll_found := False\<rparr>)"
  have best: "pll_best fin ?t (Collect (pll_cand fin)) d" unfolding d_def by (rule divr_fold_best [OF assms])
  have eq: "clk_prci_find_divr fin conf = (if pll_found d then
      (case clk_prci_filter_range (post_divr_found d) of (r, v) \<Rightarrow>
        let conf = (case v of None \<Rightarrow> d | Some v \<Rightarrow> d\<lparr>range := v\<rparr>) in (if r \<noteq> 0 then - EINVAL else 0, conf)) else (- EINVAL, d))"
    unfolding clk_prci_find_divr_def Let_def d_def ..
  let ?b = "(divr_found d, divf_found d, divq_found d)"
  show ?thesis
  proof (cases "pll_found d")
    case True
    then have hit: "pll_hit fin ?t d" and cand: "pll_cand fin ?b" and
        le: "\<And>c. pll_cand fin c \<Longrightarrow> pll_dist ?t (unat (result d)) \<le> pll_dist ?t (pll_freq fin c)"
      using best unfolding pll_best_def by auto
    have fr: "unat (result d) = pll_freq fin ?b" "pll_dist ?t (unat (result d)) < pll_dist ?t 0"
        "unat (post_divr_found d) = unat fin div (divr_found d + 1)"
      using hit unfolding pll_hit_def by blast+
    have "7 * MHZ \<le> unat (post_divr_found d)" "unat (post_divr_found d) < 200 * MHZ"
      using cand unfolding fr(3) pll_cand_def by auto
    then obtain n where n: "clk_prci_filter_range (post_divr_found d) = (0, Some n)" "1 \<le> n" "n \<le> 7"
        "n = pll_range (unat (post_divr_found d))"
      using filter_range_ok [of "post_divr_found d"] by (auto simp: word_le_nat_alt word_less_nat_alt)
    have "clk_prci_find_divr fin conf = (0, d\<lparr>range := n\<rparr>)" unfolding eq using True n(1) by simp
    moreover have "pll_nearest fin ?t (d\<lparr>range := n\<rparr>)"
      using cand fr(1,3) n(2-4) le unfolding pll_nearest_def by (simp add: Let_def)
    moreover have ?E using cand fr(1,2) by metis
    ultimately show ?thesis by simp
  next
    case False
    then have "\<forall>c. pll_cand fin c \<longrightarrow> pll_dist ?t 0 \<le> pll_dist ?t (pll_freq fin c)"
      using best unfolding pll_best_def by auto
    then have "\<not> ?E" by (auto simp: not_less)
    then show ?thesis using False eq by simp
  qed
qed

text \<open>
  C29. The search for the dividers of a PLL for a target below 2 ^ 63 Hz is optimal: of all dividers
  that keep the reference and the VCO in their ranges it finds ones whose output frequency is nearest
  to the target, with the filter range that belongs to the frequency of the divided reference, and it
  fails exactly when no such frequency is nearer to the target than 0 is.
\<close>

theorem clk_prci_find_divr_optimal:
  assumes "unat (target conf) < 2 ^ 63"
  shows "if \<exists>c. pll_cand fin c \<and> pll_dist (target conf) (pll_freq fin c) < pll_dist (target conf) 0
    then \<exists>conf'. clk_prci_find_divr fin conf = (0, conf') \<and> pll_nearest fin (target conf) conf'
    else fst (clk_prci_find_divr fin conf) = - EINVAL"
  using assms by (rule find_divr_nearest)

theorem clk_prci_find_divr_optimal_witness:
  "\<exists>conf. clk_prci_find_divr 33333333 (pllcfg_zero\<lparr>target := 1000000000\<rparr>) = (0, conf) \<and> pll_nearest 33333333 1000000000 conf"
proof -
  have "pll_cand 33333333 (0, 59, 2) \<and> pll_dist 1000000000 (pll_freq 33333333 (0, 59, 2)) < pll_dist 1000000000 0"
    by (simp add: pll_cand_def pll_freq_def pll_dist_def)
  then show ?thesis
    using clk_prci_find_divr_optimal [of "pllcfg_zero\<lparr>target := 1000000000\<rparr>" 33333333]
    by (auto split: if_splits simp: pllcfg_zero_def)
qed

lemma bit_of_nat_small: "n < 2 ^ k \<Longrightarrow> k \<le> j \<Longrightarrow> \<not> bit (of_nat n :: u32) j"
proof -
  assume a: "n < 2 ^ k" "k \<le> j"
  then have "take_bit k n = n" by (simp add: take_bit_nat_eq_self)
  then have "\<not> bit n j" using a(2) by (metis bit_take_bit_iff not_le)
  then show ?thesis by (simp add: bit_simps)
qed

text \<open>The fields of the configuration register.\<close>

lemma pllcfg_word_fields:
  assumes "divr_found conf < 64" "divf_found conf < 512" "divq_found conf < 8" "range conf < 8"
  shows "take_bit 6 (pllcfg_word conf) = of_nat (divr_found conf)"
    "take_bit 9 (drop_bit 6 (pllcfg_word conf)) = of_nat (divf_found conf)"
    "take_bit 3 (drop_bit 15 (pllcfg_word conf)) = of_nat (divq_found conf)"
    "take_bit 3 (drop_bit 18 (pllcfg_word conf)) = of_nat (range conf)"
    "bit (pllcfg_word conf) 25"
proof -
  note b = bit_of_nat_small [of _ 6, simplified, OF assms(1)] bit_of_nat_small [of _ 9, simplified, OF assms(2)]
    bit_of_nat_small [of _ 3, simplified, OF assms(3)] bit_of_nat_small [of _ 3, simplified, OF assms(4)]
  show "take_bit 6 (pllcfg_word conf) = of_nat (divr_found conf)"
    using b by (intro bit_word_eqI) (auto simp: pllcfg_word_def bit_simps not_le)
  show "take_bit 9 (drop_bit 6 (pllcfg_word conf)) = of_nat (divf_found conf)"
    using b by (intro bit_word_eqI) (auto simp: pllcfg_word_def bit_simps not_le)
  show "take_bit 3 (drop_bit 15 (pllcfg_word conf)) = of_nat (divq_found conf)"
    using b by (intro bit_word_eqI) (auto simp: pllcfg_word_def bit_simps not_le)
  show "take_bit 3 (drop_bit 18 (pllcfg_word conf)) = of_nat (range conf)"
    using b by (intro bit_word_eqI) (auto simp: pllcfg_word_def bit_simps not_le)
  show "bit (pllcfg_word conf) 25" by (simp add: pllcfg_word_def bit_simps)
qed

lemma update_pllcfg_locks:
  assumes "pll_reg dev (of_int off) cfg left" "clk_prci_find_divr (freq_in p) (pllcfg_zero\<lparr>target := freq\<rparr>) = (0, conf)"
  shows "\<exists>w. clk_prci_update_pllcfg dev freq upd off p = Some (0, (upd (result conf) p)\<lparr>prci_hw := w\<rparr>) \<and> cfg w = pllcfg_word conf"
proof -
  let ?w = "k_device_write32 dev (pllcfg_word conf) (of_int off) (prci_hw (upd (result conf) p))"
  have "\<exists>v w. wait_until (k_device_read32 dev (of_int off)) ?w (\<lambda>v. v AND push_bit 31 1 \<noteq> 0) = Some (v, w) \<and>
      v AND push_bit 31 1 \<noteq> 0 \<and> cfg w = pllcfg_word conf"
    using assms(1) unfolding pll_reg_def by (intro wait_until_ends [where left = left]) (blast, metis, metis)
  then show ?thesis by (auto simp: clk_prci_update_pllcfg_def assms(2))
qed

text \<open>
  C31. Setting the frequency of one of the three PLLs, whose lock comes, to less than 2 ^ 63 Hz ends.
  When dividers are found, the driver reports from then on the frequency that is nearest to the
  requested one, the register has the dividers, the filter range of the divided reference and the
  feedback selection in their fields, and the other clocks keep their frequency; else nothing is
  changed. The frequency of the clock TLCLK cannot be set, it is half of the core clock.
\<close>

theorem clk_prci_set_freq_sets:
  assumes "pll_reg dev (of_int (fst (pllcfg_offs ! nat index))) cfg left" "index \<in> {0, 2, 3}" "unat freq < 2 ^ 63"
  shows "clk_prci_set_freq dev 1 freq p = Some (- EINVAL, p) \<and>
   (if \<exists>c. pll_cand (freq_in p) c \<and> pll_dist freq (pll_freq (freq_in p) c) < pll_dist freq 0
    then \<exists>conf p'. clk_prci_set_freq dev index freq p = Some (0, p') \<and> pll_nearest (freq_in p) freq conf \<and>
      clk_prci_get_freq index p' = (0, Some (result conf)) \<and>
      (\<forall>i. i \<in> {0, 2, 3} \<and> i \<noteq> index \<longrightarrow> clk_prci_get_freq i p' = clk_prci_get_freq i p) \<and>
      clk_prci_get_freq 1 p' = (0, map_option (\<lambda>f. f div 2) (snd (clk_prci_get_freq 2 p'))) \<and>
      take_bit 6 (cfg (prci_hw p')) = of_nat (divr_found conf) \<and>
      take_bit 9 (drop_bit 6 (cfg (prci_hw p'))) = of_nat (divf_found conf) \<and>
      take_bit 3 (drop_bit 15 (cfg (prci_hw p'))) = of_nat (divq_found conf) \<and>
      take_bit 3 (drop_bit 18 (cfg (prci_hw p'))) = of_nat (pll_range (unat (freq_in p) div (divr_found conf + 1))) \<and>
      bit (cfg (prci_hw p')) 25
    else clk_prci_set_freq dev index freq p = Some (- EINVAL, p))"
    (is "?T \<and> (if ?E then ?A else ?B)")
proof (rule conjI, simp add: clk_prci_set_freq_def, cases ?E)
  case True
  then obtain conf where conf: "clk_prci_find_divr (freq_in p) (pllcfg_zero\<lparr>target := freq\<rparr>) = (0, conf)" "pll_nearest (freq_in p) freq conf"
    using find_divr_nearest [of "pllcfg_zero\<lparr>target := freq\<rparr>" "freq_in p"] assms(3) by (auto split: if_splits)
  have "divr_found conf < 64" "divf_found conf < 512" "divq_found conf < 8" "range conf < 8"
    using conf(2) by (auto simp: pll_nearest_def pll_cand_def Let_def)
  note fields = pllcfg_word_fields [OF this]
  have rng: "range conf = pll_range (unat (freq_in p) div (divr_found conf + 1))"
    using conf(2) by (simp add: pll_nearest_def Let_def)
  note u = update_pllcfg_locks [OF assms(1) conf(1)]
  from assms(2) consider "index = 0" | "index = 2" | "index = 3" by auto
  then show "if ?E then ?A else ?B"
  proof cases
    case 1
    then show "if ?E then ?A else ?B" using True conf(2) fields rng u [of "\<lambda>f. freq_ddrctrl_update (\<lambda>_. f)"]
      by (auto simp: clk_prci_set_freq_def clk_prci_get_freq_def)
  next
    case 2
    then show "if ?E then ?A else ?B" using True conf(2) fields rng u [of "\<lambda>f. freq_core_update (\<lambda>_. f)"]
      by (auto simp: clk_prci_set_freq_def clk_prci_get_freq_def)
  next
    case 3
    then show "if ?E then ?A else ?B" using True conf(2) fields rng u [of "\<lambda>f. freq_gemgxl_update (\<lambda>_. f)"]
      by (auto simp: clk_prci_set_freq_def clk_prci_get_freq_def)
  qed
next
  case False
  then have "fst (clk_prci_find_divr (freq_in p) (pllcfg_zero\<lparr>target := freq\<rparr>)) = - EINVAL"
    using find_divr_nearest [of "pllcfg_zero\<lparr>target := freq\<rparr>" "freq_in p"] assms(3) by (simp split: if_splits)
  then have "clk_prci_update_pllcfg dev freq upd off p = Some (- EINVAL, p)" for upd off
    by (cases "clk_prci_find_divr (freq_in p) (pllcfg_zero\<lparr>target := freq\<rparr>)") (simp add: clk_prci_update_pllcfg_def)
  then show "if ?E then ?A else ?B" using False assms(2) by (auto simp: clk_prci_set_freq_def)
qed

lemma locked_dev_reg: "pll_reg locked_dev off (\<lambda>h. h off) (\<lambda>_. 0)"
proof -
  have "(w OR push_bit 31 1) AND push_bit 31 1 \<noteq> (0 :: u32)" for w
  proof
    assume "(w OR push_bit 31 1) AND push_bit 31 1 = (0 :: u32)"
    then have "bit ((w OR push_bit 31 1) AND push_bit 31 1 :: u32) 31 = bit (0 :: u32) 31" by simp
    then show False by (simp add: bit_simps)
  qed
  then show ?thesis by (auto simp: pll_reg_def locked_dev_def ram_dev_def k_device_read32_def k_device_write32_def)
qed

theorem clk_prci_set_freq_sets_witness:
  "\<exists>conf p'. clk_prci_set_freq locked_dev 2 1000000000
      \<lparr>clk_in = None, index_clk_in = 0, freq_in = 33333333, freq_ddrctrl = 5, freq_core = 0, freq_gemgxl = 6, prci_hw = (\<lambda>_. 0)\<rparr> = Some (0, p') \<and>
    pll_nearest 33333333 1000000000 conf \<and> clk_prci_get_freq 2 p' = (0, Some (result conf)) \<and> clk_prci_get_freq 0 p' = (0, Some 5)"
proof -
  have "pll_cand 33333333 (0, 59, 2) \<and> pll_dist 1000000000 (pll_freq 33333333 (0, 59, 2)) < pll_dist 1000000000 0"
    by (simp add: pll_cand_def pll_freq_def pll_dist_def)
  then have e: "\<exists>c. pll_cand 33333333 c \<and> pll_dist 1000000000 (pll_freq 33333333 c) < pll_dist 1000000000 0" ..
  let ?p = "\<lparr>clk_in = None, index_clk_in = 0, freq_in = 33333333, freq_ddrctrl = 5, freq_core = 0, freq_gemgxl = 6, prci_hw = (\<lambda>_. 0)\<rparr> :: (u64 \<Rightarrow> u32) clk_prci_priv"
  have "clk_prci_get_freq 0 ?p = (0, Some 5)" by (simp add: clk_prci_get_freq_def)
  then show ?thesis
    using clk_prci_set_freq_sets [of locked_dev 2, OF locked_dev_reg, of 1000000000 ?p] e by (auto split: if_splits)
qed

subsection \<open>The contract of a clock\<close>

text \<open>
  What the drivers with an input clock rely on: a clock that is there reports its frequency, enabling it
  succeeds, and enabling and disabling change no frequency.
\<close>

locale clk_provider =
  fixes ops :: "'s k_clk_driver_ops" and there :: "int \<Rightarrow> bool" and freq :: "'s \<Rightarrow> int \<Rightarrow> u64"
  assumes get: "there i \<Longrightarrow> \<exists>f. clk_get_freq ops = Some f \<and> f i s = (0, Some (freq s i))"
    and not_there: "\<not> there i \<Longrightarrow> \<exists>f. clk_get_freq ops = Some f \<and> f i s = (- EINVAL, None)"
    and enable: "there i \<Longrightarrow> \<exists>f s'. clk_enable ops = Some f \<and> f i s = Some (0, s') \<and> freq s' = freq s"
    and disable: "there i \<Longrightarrow> \<exists>f s'. clk_disable ops = Some f \<and> f i s = Some (0, s') \<and> freq s' = freq s"
begin

lemma get_frequency:
  "k_clk_get_frequency (Some ops) i s = (if there i then (0, Some (freq s i)) else (- EINVAL, None))"
  using get [of i s] not_there [of i s] by (auto simp: k_clk_get_frequency_def)

lemma switch:
  assumes "there i"
  shows "\<exists>s1 s2. k_clk_enable (Some ops) i s = Some (0, s1) \<and> k_clk_disable (Some ops) i s1 = Some (0, s2) \<and>
    freq s1 = freq s \<and> freq s2 = freq s"
proof -
  obtain f s1 where f: "clk_enable ops = Some f" "f i s = Some (0, s1)" "freq s1 = freq s"
    using enable [OF assms] by blast
  obtain g s2 where g: "clk_disable ops = Some g" "g i s1 = Some (0, s2)" "freq s2 = freq s1"
    using disable [OF assms] by blast
  show ?thesis using f g by (simp add: k_clk_enable_def k_clk_disable_def)
qed

text \<open>A driver takes its clock into use and knows its frequency, or reports that there is no such clock.\<close>

lemma attach:
  assumes "k_clk_get_clk_from_config cstr s dev 0 = Some (0, Some (c, n))" "clks c = Some ops"
  shows "if there (sint n)
    then \<exists>cs'. clk_attach cstr clks s dev ci cs =
      Some (0, ci\<lparr>in_clk := Some c, in_index := sint n, in_freq := freq cs (sint n)\<rparr>, cs') \<and> freq cs' = freq cs
    else clk_attach cstr clks s dev ci cs = Some (- EINVAL, ci\<lparr>in_clk := Some c, in_index := sint n\<rparr>, cs)"
proof (cases "there (sint n)")
  case True
  obtain cs' where "k_clk_enable (Some ops) (sint n) cs = Some (0, cs')" "freq cs' = freq cs"
    using switch [OF True, of cs] by blast
  then show ?thesis using True assms by (simp add: clk_attach_def get_frequency)
next
  case False
  then show ?thesis using assms by (simp add: clk_attach_def get_frequency)
qed

end

interpretation fixed_provider: clk_provider clk_fixed_clk_ops "\<lambda>i. i = 0" "\<lambda>p i. fixed_freq p"
  by unfold_locales (simp_all add: clk_fixed_clk_ops_def clk_fixed_get_freq_def clk_fixed_enable_def clk_fixed_disable_def)

lemma update_bit_freq: "fst (update_bit dev n on off p) = 0" "prci_freq (snd (update_bit dev n on off p)) = prci_freq p"
  by (simp_all add: update_bit_def prci_freq_def clk_prci_get_freq_def fun_eq_iff split: prod.splits)

lemma prci_switch:
  assumes "0 \<le> i" "i < 4"
  shows "\<exists>p'. clk_prci_enable dev i p = Some (0, p') \<and> prci_freq p' = prci_freq p"
    and "\<exists>p'. clk_prci_disable dev i p = Some (0, p') \<and> prci_freq p' = prci_freq p"
proof -
  have "prci_index i = Some (nat (if i = 1 then 2 else i))" using assms by (simp add: prci_index_def Let_def)
  then obtain n where n: "prci_index i = Some n" by blast
  have u: "\<exists>p'. update_bit dev b on off p = (0, p') \<and> prci_freq p' = prci_freq p" for b on off p
    using update_bit_freq [of dev b on off p] by (metis prod.collapse)
  have c: "\<exists>p'. (if off \<noteq> - 1 then update_bit dev b on off p else (0, p)) = (0, p') \<and> prci_freq p' = prci_freq p" for b on off p
    using u [of b on off p] by simp
  obtain p1 where p1: "(if snd (pllcfg_offs ! n) \<noteq> - 1 then update_bit dev 24 True (snd (pllcfg_offs ! n)) p else (0, p)) = (0, p1)"
      "prci_freq p1 = prci_freq p"
    using c by blast
  obtain p2 where "(if clksel_offs ! n \<noteq> - 1 then update_bit dev 0 False (clksel_offs ! n) p1 else (0, p1)) = (0, p2)"
      "prci_freq p2 = prci_freq p1"
    using c by blast
  with p1 show "\<exists>p'. clk_prci_enable dev i p = Some (0, p') \<and> prci_freq p' = prci_freq p"
    unfolding clk_prci_enable_def n clk_prci_update_cke_def clk_prci_update_clksel_def Let_def Option.bind.simps by simp
  obtain q1 where q1: "(if clksel_offs ! n \<noteq> - 1 then update_bit dev 0 True (clksel_offs ! n) p else (0, p)) = (0, q1)"
      "prci_freq q1 = prci_freq p"
    using c by blast
  obtain q2 where "(if snd (pllcfg_offs ! n) \<noteq> - 1 then update_bit dev 24 False (snd (pllcfg_offs ! n)) q1 else (0, q1)) = (0, q2)"
      "prci_freq q2 = prci_freq q1"
    using c by blast
  with q1 show "\<exists>p'. clk_prci_disable dev i p = Some (0, p') \<and> prci_freq p' = prci_freq p"
    unfolding clk_prci_disable_def n clk_prci_update_cke_def clk_prci_update_clksel_def Let_def Option.bind.simps by simp
qed

interpretation prci_provider: clk_provider "clk_prci_clk_ops dev" "\<lambda>i. 0 \<le> i \<and> i < 4" prci_freq for dev :: "'h rdev"
proof
  have four: "i = 0 \<or> i = 1 \<or> i = 2 \<or> i = 3" if "0 \<le> i \<and> i < 4" for i :: int using that by auto
  show "\<exists>f. clk_get_freq (clk_prci_clk_ops dev) = Some f \<and> f i s = (0, Some (prci_freq s i))" if "0 \<le> i \<and> i < 4" for i s
    using four [OF that] by (auto simp: clk_prci_clk_ops_def clk_prci_get_freq_def prci_freq_def)
  show "\<exists>f. clk_get_freq (clk_prci_clk_ops dev) = Some f \<and> f i s = (- EINVAL, None)" if "\<not> (0 \<le> i \<and> i < 4)" for i s
    using that by (auto simp: clk_prci_clk_ops_def clk_prci_get_freq_def)
  show "\<exists>f s'. clk_enable (clk_prci_clk_ops dev) = Some f \<and> f i s = Some (0, s') \<and> prci_freq s' = prci_freq s" if "0 \<le> i \<and> i < 4" for i s
    using prci_switch(1) [OF conjunct1 [OF that] conjunct2 [OF that]] by (simp add: clk_prci_clk_ops_def)
  show "\<exists>f s'. clk_disable (clk_prci_clk_ops dev) = Some f \<and> f i s = Some (0, s') \<and> prci_freq s' = prci_freq s" if "0 \<le> i \<and> i < 4" for i s
    using prci_switch(2) [OF conjunct1 [OF that] conjunct2 [OF that]] by (simp add: clk_prci_clk_ops_def)
qed

end
