(* ===== verification/Drivers.thy ===== *)
theory Drivers
  imports Uart Intc Clk Clock Proc
begin

section \<open>Start of UARTs, timers and the reset device\<close>

text \<open>
  The operations \<open>add\<close> and \<open>remove\<close> of the UART drivers \<^verbatim>\<open>ns/16550.c\<close>, \<^verbatim>\<open>sifive/uart0.c\<close> and \<^verbatim>\<open>xilinx/uart_lite.c\<close>,
  \<^verbatim>\<open>driver/timer/timer.c\<close> with the drivers \<^verbatim>\<open>nsitexe/icu_timer.c\<close> and \<^verbatim>\<open>sifive/clint_timer.c\<close>, and
  \<^verbatim>\<open>driver/reset/reset.c\<close> with \<^verbatim>\<open>sifive/qemu_test.c\<close>.  They connect a device with its clock and its
  interrupt controller.  \<open>clks\<close>, \<open>padd\<close> and \<open>premove\<close> are the operations of the clock and controller
  devices, \<open>func\<close> is the address of the handler function and \<open>pr\<close> that of the private data.
\<close>

record ('d, 'c, 'p, 'h) drv_state =
  ps_dev :: "'d dstate"
  ps_clk :: 'c
  ps_irq :: "hstore \<times> 'p"
  ps_hw :: 'h

subsection \<open>UARTs\<close>

record 'h uart_priv =
  ur_clk :: clk_input
  ur_irq :: irq_input
  ur_ns :: "'h uart_ns16550_priv"

text \<open>Registers mapped and the interrupt registered; \<open>en\<close> enables the interrupt of the device.\<close>

definition uart_irq_start ::
    "(u64 \<Rightarrow> string) \<Rightarrow> (devptr \<Rightarrow> 'p handler_op option) \<Rightarrow> nat \<Rightarrow> u64 \<Rightarrow> devptr \<Rightarrow> ('h \<Rightarrow> int \<times> 'h) \<Rightarrow> irq_input \<Rightarrow>
     ('d, 'c, 'p, 'h) drv_state \<Rightarrow> (int \<times> irq_input \<times> ('d, 'c, 'p, 'h) drv_state) option" where
  "uart_irq_start cstr padd func pr d en q st = do {
     (r, q, hp) \<leftarrow> irq_attach cstr padd func pr (ps_dev st) (devs (ps_dev st) d) q (ps_irq st);
     let st = st\<lparr>ps_irq := hp\<rparr>
     in if r \<noteq> 0 then Some (r, q, st)
     else if irq_intc q = None then Some (0, q, st)
     else let (r, h) = en (ps_hw st) in Some (r, q, st\<lparr>ps_hw := h\<rparr>)
   }"

definition uart_irq_stop ::
    "(devptr \<Rightarrow> 'p handler_op option) \<Rightarrow> ('h \<Rightarrow> int \<times> 'h) \<Rightarrow> irq_input \<Rightarrow> ('d, 'c, 'p, 'h) drv_state \<Rightarrow>
     (int \<times> irq_input \<times> ('d, 'c, 'p, 'h) drv_state) option" where
  "uart_irq_stop premove dis q st =
     (case irq_intc q of
        None \<Rightarrow> Some (0, q, st)
      | Some c \<Rightarrow>
          let (r, h) = dis (ps_hw st); st = st\<lparr>ps_hw := h\<rparr>
          in if r \<noteq> 0 then Some (r, q, st)
          else do {
            (r, q, hp) \<leftarrow> irq_detach premove c q (ps_irq st);
            Some (r, q, st\<lparr>ps_irq := hp\<rparr>)
          })"

definition addr_shift_of :: "u32 \<Rightarrow> u32 option" where
  "addr_shift_of w = (if w = 1 then Some 0 else if w = 2 then Some 1 else if w = 4 then Some 2 else None)"

definition uart_ns16550_add ::
    "(u64 \<Rightarrow> string) \<Rightarrow> 'd drv_ops \<Rightarrow> (devptr \<Rightarrow> 'c k_clk_driver_ops option) \<Rightarrow> (devptr \<Rightarrow> 'p handler_op option) \<Rightarrow> nat \<Rightarrow> u64 \<Rightarrow>
     devptr \<Rightarrow> 'h uart_priv option \<Rightarrow> ('d, 'c, 'p, 'h) drv_state \<Rightarrow>
     (int \<times> 'h uart_priv option \<times> ('d, 'c, 'p, 'h) drv_state) option" where
  "uart_ns16550_add cstr ops clks padd func pr d priv st =
     (case priv of
        None \<Rightarrow> Some (- EINVAL, None, st)
      | Some p \<Rightarrow> do {
          (r, w) \<leftarrow> k_device_read_conf_u32 (Some (devs (ps_dev st) d)) (Some ''reg-width'') 0;
          let w = (if r \<noteq> 0 then 4 else the w)
          in case addr_shift_of w of
            None \<Rightarrow> Some (- EINVAL, Some p, st)
          | Some sh \<Rightarrow>
              let p = p\<lparr>ur_ns := (ur_ns p)\<lparr>ns_addr_shift := sh\<rparr>\<rparr>
              in do {
                (r, ci, cs) \<leftarrow> clk_attach cstr clks (ps_dev st) (devs (ps_dev st) d) (ur_clk p) (ps_clk st);
                let p = p\<lparr>ur_clk := ci, ur_ns := (ur_ns p)\<lparr>ns_freq_in := in_freq ci\<rparr>\<rparr>;
                    st = st\<lparr>ps_clk := cs\<rparr>
                in if r \<noteq> 0 then Some (r, Some p, st)
                else do {
                  (r, s) \<leftarrow> k_io_mmap_device ops d (ps_dev st);
                  let st = st\<lparr>ps_dev := s\<rparr>;
                      p = p\<lparr>ur_ns := (ur_ns p)\<lparr>ns_dev := mapped s d (ns_dev (ur_ns p))\<rparr>\<rparr>
                  in if r \<noteq> 0 then Some (r, Some p, st)
                  else do {
                    (r, q, st) \<leftarrow> uart_irq_start cstr padd func pr d (uart_ns16550_enable_intr (ur_ns p)) (ur_irq p) st;
                    let p = p\<lparr>ur_irq := q\<rparr>
                    in if r \<noteq> 0 then Some (r, Some p, st)
                    else do {
                      (r, conf) \<leftarrow> k_uart_read_default_config (devs (ps_dev st) d);
                      if r \<noteq> 0 then Some (r, Some p, st)
                      else do {
                        let conf = (if baud conf = 0 then conf\<lparr>baud := 9600\<rparr> else conf)
                        in do {
                          (r, h) \<leftarrow> uart_ns16550_set_config (ur_ns p) conf (ps_hw st);
                          Some (if r \<noteq> 0 then r else 0, Some p, st\<lparr>ps_hw := h\<rparr>)
                        }
                      }
                    }
                  }
                }
              }
        })"

definition uart_ns16550_remove ::
    "(devptr \<Rightarrow> 'c k_clk_driver_ops option) \<Rightarrow> (devptr \<Rightarrow> 'p handler_op option) \<Rightarrow>
     'h uart_priv option \<Rightarrow> ('d, 'c, 'p, 'h) drv_state \<Rightarrow> (int \<times> 'h uart_priv option \<times> ('d, 'c, 'p, 'h) drv_state) option" where
  "uart_ns16550_remove clks premove priv st =
     (case priv of
        None \<Rightarrow> Some (- EINVAL, None, st)
      | Some p \<Rightarrow> do {
          (r, q, st) \<leftarrow> uart_irq_stop premove (uart_ns16550_disable_intr (ur_ns p)) (ur_irq p) st;
          let p = p\<lparr>ur_irq := q\<rparr>
          in if r \<noteq> 0 then Some (r, Some p, st)
          else do {
            (r, cs) \<leftarrow> k_clk_disable (Option.bind (in_clk (ur_clk p)) clks) (in_index (ur_clk p)) (ps_clk st);
            Some (if r \<noteq> 0 then r else - ENOTSUP, Some p, st\<lparr>ps_clk := cs\<rparr>)
          }
        })"

record uart_sifive_priv =
  sf_clk :: clk_input
  sf_irq :: irq_input
  sf_conf :: k_uart_config

definition uart_sifive_get_config :: "uart_sifive_priv \<Rightarrow> int \<times> k_uart_config" where
  "uart_sifive_get_config p = (0, sf_conf p)"

definition uart_sifive_intr :: "int \<Rightarrow> hptr \<Rightarrow> int" where
  "uart_sifive_intr event hnd = EVENT_HANDLED"

definition uart_sifive_add ::
    "(u64 \<Rightarrow> string) \<Rightarrow> 'd drv_ops \<Rightarrow> (devptr \<Rightarrow> 'c k_clk_driver_ops option) \<Rightarrow> (devptr \<Rightarrow> 'p handler_op option) \<Rightarrow> 'h rdev \<Rightarrow>
     nat \<Rightarrow> u64 \<Rightarrow> devptr \<Rightarrow> uart_sifive_priv option \<Rightarrow> ('d, 'c, 'p, 'h) drv_state \<Rightarrow>
     (int \<times> uart_sifive_priv option \<times> ('d, 'c, 'p, 'h) drv_state) option" where
  "uart_sifive_add cstr ops clks padd dev func pr d priv st =
     (case priv of
        None \<Rightarrow> Some (- EINVAL, None, st)
      | Some p \<Rightarrow> do {
          (r, ci, cs) \<leftarrow> clk_attach cstr clks (ps_dev st) (devs (ps_dev st) d) (sf_clk p) (ps_clk st);
          let p = p\<lparr>sf_clk := ci\<rparr>; st = st\<lparr>ps_clk := cs\<rparr>
          in if r \<noteq> 0 then Some (r, Some p, st)
          else do {
            (r, s) \<leftarrow> k_io_mmap_device ops d (ps_dev st);
            let st = st\<lparr>ps_dev := s\<rparr>; dev = mapped s d dev
            in if r \<noteq> 0 then Some (r, Some p, st)
            else
              let h = k_device_write32 dev (1 OR push_bit 16 1) 0x08 (ps_hw st);
                  h = k_device_write32 dev (1 OR push_bit 16 0) 0x0c h
              in do {
                (r, q, st) \<leftarrow> uart_irq_start cstr padd func pr d (uart_sifive_enable_intr dev) (sf_irq p) (st\<lparr>ps_hw := h\<rparr>);
                let p = p\<lparr>sf_irq := q\<rparr>
                in if r \<noteq> 0 then Some (r, Some p, st)
                else do {
                  (r, conf) \<leftarrow> k_uart_read_default_config (devs (ps_dev st) d);
                  if r \<noteq> 0 then Some (r, Some p, st)
                  else let conf = (if baud conf = 0 then conf\<lparr>baud := 9600\<rparr> else conf)
                  in do {
                    (r, c, h) \<leftarrow> uart_sifive_set_config dev (in_freq (sf_clk p)) conf (ps_hw st);
                    Some (if r \<noteq> 0 then r else 0, Some (p\<lparr>sf_conf := c\<rparr>), st\<lparr>ps_hw := h\<rparr>)
                  }
                }
              }
          }
        })"

definition uart_sifive_remove ::
    "(devptr \<Rightarrow> 'c k_clk_driver_ops option) \<Rightarrow> (devptr \<Rightarrow> 'p handler_op option) \<Rightarrow> 'h rdev \<Rightarrow>
     uart_sifive_priv \<Rightarrow> ('d, 'c, 'p, 'h) drv_state \<Rightarrow> (int \<times> uart_sifive_priv \<times> ('d, 'c, 'p, 'h) drv_state) option" where
  "uart_sifive_remove clks premove dev p st = do {
     (r, q, st) \<leftarrow> uart_irq_stop premove (uart_sifive_disable_intr dev) (sf_irq p) st;
     let p = p\<lparr>sf_irq := q\<rparr>
     in if r \<noteq> 0 then Some (r, p, st)
     else do {
       (r, cs) \<leftarrow> k_clk_disable (Option.bind (in_clk (sf_clk p)) clks) (in_index (sf_clk p)) (ps_clk st);
       Some (if r \<noteq> 0 then r else - ENOTSUP, p, st\<lparr>ps_clk := cs\<rparr>)
     }
   }"

definition uart_lite_add ::
    "(u64 \<Rightarrow> string) \<Rightarrow> 'd drv_ops \<Rightarrow> (devptr \<Rightarrow> 'p handler_op option) \<Rightarrow> 'h rdev \<Rightarrow>
     nat \<Rightarrow> u64 \<Rightarrow> devptr \<Rightarrow> irq_input option \<Rightarrow> ('d, 'c, 'p, 'h) drv_state \<Rightarrow>
     (int \<times> irq_input option \<times> ('d, 'c, 'p, 'h) drv_state) option" where
  "uart_lite_add cstr ops padd dev func pr d priv st =
     (case priv of
        None \<Rightarrow> Some (- EINVAL, None, st)
      | Some q \<Rightarrow> do {
          (r, s) \<leftarrow> k_io_mmap_device ops d (ps_dev st);
          let st = st\<lparr>ps_dev := s\<rparr>
          in if r \<noteq> 0 then Some (r, Some q, st)
          else do {
            (r, q, st) \<leftarrow> uart_irq_start cstr padd func pr d (uart_lite_enable_intr (mapped s d dev)) q st;
            Some (r, Some q, st)
          }
        })"

definition uart_lite_remove ::
    "(devptr \<Rightarrow> 'p handler_op option) \<Rightarrow> 'h rdev \<Rightarrow>
     irq_input \<Rightarrow> ('d, 'c, 'p, 'h) drv_state \<Rightarrow> (int \<times> irq_input \<times> ('d, 'c, 'p, 'h) drv_state) option" where
  "uart_lite_remove premove dev q st = do {
     (r, q, st) \<leftarrow> uart_irq_stop premove (uart_lite_disable_intr dev) q st;
     Some (if r \<noteq> 0 then r else - ENOTSUP, q, st)
   }"

subsection \<open>Timers\<close>

text \<open>A device with the configuration \<open>system\<close> becomes the default, here for timers and the reset device.\<close>

definition k_timer_get_default :: "devptr option \<Rightarrow> devptr option" where
  "k_timer_get_default timer_default = timer_default"

definition k_timer_set_default :: "devptr option \<Rightarrow> devptr option \<Rightarrow> int \<times> devptr option" where
  "k_timer_set_default timer timer_default = (0, timer)"

definition add_system_device ::
    "'d drv_ops \<Rightarrow> devptr \<Rightarrow> busptr option \<Rightarrow> (devptr option \<Rightarrow> devptr option \<Rightarrow> int \<times> devptr option) \<Rightarrow>
     'd dstate \<times> devptr option \<Rightarrow> (int \<times> 'd dstate \<times> devptr option) option" where
  "add_system_device ops d parent set_system st =
     (let (s, system) = st
      in do {
        (r, s) \<leftarrow> k_device_add ops (Some d) parent s;
        if IS_ERROR r then Some (r, s, system)
        else do {
          (r, v) \<leftarrow> k_device_read_conf_u32 (Some (devs s d)) (Some ''system'') 0;
          let v = (if r \<noteq> 0 then 0 else the v)
          in Some (0, s, if v \<noteq> 0 then snd (set_system (Some d) system) else system)
        }
      })"

definition k_timer_add_device ::
    "'d drv_ops \<Rightarrow> devptr \<Rightarrow> busptr option \<Rightarrow> 'd dstate \<times> devptr option \<Rightarrow> (int \<times> 'd dstate \<times> devptr option) option" where
  "k_timer_add_device ops d parent st = add_system_device ops d parent k_timer_set_default st"

definition k_timer_remove_device :: "devptr option \<Rightarrow> int" where
  "k_timer_remove_device timer = k_device_remove timer"

record timer_icu_priv =
  icu_in :: clk_input

abbreviation (input) ICU_REG_MTIME :: u64 where "ICU_REG_MTIME \<equiv> 0x0108"

definition timer_icu_get_freq :: "timer_icu_priv \<Rightarrow> int \<times> u64 option" where
  "timer_icu_get_freq p = (if in_freq (icu_in p) = 0 then (- EINVAL, None) else (0, Some (in_freq (icu_in p))))"

definition timer_icu_get_raw :: "'h rdev \<Rightarrow> 'h \<Rightarrow> int \<times> u64 \<times> 'h" where
  "timer_icu_get_raw dev h = (let (v, h) = k_device_read64 dev ICU_REG_MTIME h in (0, v, h))"

definition timer_icu_add ::
    "(u64 \<Rightarrow> string) \<Rightarrow> 'd drv_ops \<Rightarrow> (devptr \<Rightarrow> 'c k_clk_driver_ops option) \<Rightarrow> devptr \<Rightarrow> timer_icu_priv option \<Rightarrow>
     'd dstate \<Rightarrow> 'c \<Rightarrow> (int \<times> timer_icu_priv option \<times> 'd dstate \<times> 'c) option" where
  "timer_icu_add cstr ops clks d priv s cs =
     (case priv of
        None \<Rightarrow> Some (- EINVAL, None, s, cs)
      | Some p \<Rightarrow> do {
          (r, s) \<leftarrow> k_io_mmap_device ops d s;
          if r \<noteq> 0 then Some (r, Some p, s, cs)
          else do {
            (r, ci, cs) \<leftarrow> clk_attach cstr clks s (devs s d) (icu_in p) cs;
            Some (r, Some (p\<lparr>icu_in := ci\<rparr>), s, cs)
          }
        })"

definition timer_icu_remove :: "devptr \<Rightarrow> int" where
  "timer_icu_remove dev = 0"

text \<open>The timer of the CLINT: the clock, the registers, then a handler for each line of the configuration.\<close>

definition timer_clint_add ::
    "(u64 \<Rightarrow> string) \<Rightarrow> 'd drv_ops \<Rightarrow> (devptr \<Rightarrow> 'c k_clk_driver_ops option) \<Rightarrow> (devptr \<Rightarrow> 'p handler_op option) \<Rightarrow> nat \<Rightarrow> u64 \<Rightarrow>
     devptr \<Rightarrow> clk_input option \<Rightarrow> 'd dstate \<Rightarrow> 'c \<Rightarrow> 'p attach_state \<Rightarrow>
     (int \<times> clk_input option \<times> 'd dstate \<times> 'c \<times> 'p attach_state) option" where
  "timer_clint_add cstr ops clks padd func pr d priv s cs st =
     (case priv of
        None \<Rightarrow> Some (- EINVAL, None, s, cs, st)
      | Some ci \<Rightarrow> do {
          (r, ci, cs) \<leftarrow> clk_attach cstr clks s (devs s d) ci cs;
          if r \<noteq> 0 then Some (r, Some ci, s, cs, st)
          else do {
            (r, s) \<leftarrow> k_io_mmap_device ops d s;
            if r \<noteq> 0 then Some (r, Some ci, s, cs, st)
            else let (r, len) = k_intc_get_conf_length (devs s d)
            in if r \<noteq> 0 then Some (r, Some ci, s, cs, st)
            else do {
              len \<leftarrow> len;
              (r, st) \<leftarrow> attach_loop cstr padd func pr s (devs s d) [0..len - 1] st;
              Some (r, Some ci, s, cs, st)
            }
          }
        })"

definition timer_clint_remove :: "devptr \<Rightarrow> int" where
  "timer_clint_remove dev = 0"

subsection \<open>Reset\<close>

definition k_reset_get_system :: "devptr option \<Rightarrow> devptr option" where
  "k_reset_get_system reset_system = reset_system"

definition k_reset_set_system :: "devptr option \<Rightarrow> devptr option \<Rightarrow> int \<times> devptr option" where
  "k_reset_set_system reset reset_system = (0, reset)"

definition k_reset_add_device ::
    "'d drv_ops \<Rightarrow> devptr \<Rightarrow> busptr option \<Rightarrow> 'd dstate \<times> devptr option \<Rightarrow> (int \<times> 'd dstate \<times> devptr option) option" where
  "k_reset_add_device ops d parent st = add_system_device ops d parent k_reset_set_system st"

definition k_reset_remove_device :: "devptr option \<Rightarrow> int" where
  "k_reset_remove_device reset = k_device_remove reset"

abbreviation (input) FINISH_PASS :: u32 where "FINISH_PASS \<equiv> 0x5555"
abbreviation (input) FINISH_RESET :: u32 where "FINISH_RESET \<equiv> 0x7777"
abbreviation (input) REG_FINISH :: u64 where "REG_FINISH \<equiv> 0"

definition reset_sifive_qemu_test_reboot :: "'h rdev \<Rightarrow> 'h \<Rightarrow> int \<times> 'h" where
  "reset_sifive_qemu_test_reboot d h = (0, k_device_write32 d FINISH_RESET REG_FINISH h)"

definition reset_sifive_qemu_test_shutdown :: "'h rdev \<Rightarrow> 'h \<Rightarrow> int \<times> 'h" where
  "reset_sifive_qemu_test_shutdown d h = (0, k_device_write32 d FINISH_PASS REG_FINISH h)"

definition reset_sifive_qemu_test_power_off :: "'h rdev \<Rightarrow> 'h \<Rightarrow> int \<times> 'h" where
  "reset_sifive_qemu_test_power_off d h = (0, k_device_write32 d FINISH_PASS REG_FINISH h)"

definition reset_sifive_qemu_test_add :: "'d drv_ops \<Rightarrow> devptr \<Rightarrow> bool \<Rightarrow> 'd dstate \<Rightarrow> (int \<times> 'd dstate) option" where
  "reset_sifive_qemu_test_add ops d has_priv s = (if \<not> has_priv then Some (- EINVAL, s) else k_io_mmap_device ops d s)"

definition reset_sifive_qemu_test_remove :: "devptr \<Rightarrow> int" where
  "reset_sifive_qemu_test_remove dev = - ENOTSUP"

definition sifive_qemu_test_reset_ops :: "'h rdev \<Rightarrow> 'h k_reset_driver_ops" where
  "sifive_qemu_test_reset_ops d =
     \<lparr>rst_reboot = Some (reset_sifive_qemu_test_reboot d), rst_shutdown = Some (reset_sifive_qemu_test_shutdown d),
      rst_power_off = Some (reset_sifive_qemu_test_power_off d)\<rparr>"

subsection \<open>Example systems\<close>

definition plic_soc :: "nat dstate" where
  "plic_soc = wit_probed\<lparr>devs := (\<lambda>d. if d = 2 then (devs wit_probed 2)\<lparr>dev_conf := Some [
     \<lparr>cf_name = ''interrupts'', cf_count = 2, cf_val = [1, 10]\<rparr>, \<lparr>cf_name = ''clocks'', cf_count = 2, cf_val = [1, 0]\<rparr>]\<rparr>
     else devs wit_probed d)\<rparr>"

definition soc_names :: "u64 \<Rightarrow> string" where
  "soc_names a = ''clk0''"

text \<open>The same system with the device that serves both references not yet probed.\<close>

definition early_soc :: "(nat, unit, unit, unit) drv_state" where
  "early_soc = \<lparr>ps_dev = plic_soc\<lparr>devs := (devs plic_soc)(3 := (devs plic_soc 3)\<lparr>dev_probed := False\<rparr>)\<rparr>,
     ps_clk = (), ps_irq = (example_trap, ()), ps_hw = ()\<rparr>"

subsection \<open>Interrupts and order of start\<close>

lemma plic_rep_next:
  assumes "plic_rep (hs, p) f" "\<And>x. hnd_next (hs' x) = hnd_next (hs x)"
  shows "plic_rep (hs', p) f"
  using assms(1) unfolding plic_rep_def Let_def split_conv assms(2) .

lemma sint_of_nat_u32: "n < 2 ^ 31 \<Longrightarrow> sint (of_nat n :: u32) = int n"
proof -
  assume n: "n < 2 ^ 31"
  have u: "uint (of_nat n :: u32) = int n"
    using n by (simp only: uint_nat unat_of_nat) (simp add: take_bit_nat_eq_self)
  show ?thesis unfolding sint_uint u
    using n by (intro signed_take_bit_int_eq_self) simp_all
qed

text \<open>
  A device that registers its interrupt at the PLIC is served: \<open>irq_attach\<close>, which all drivers with one line use,
  succeeds for a free source, and from then on a claim of that source calls the function of the
  driver, with its number, exactly once.
\<close>

theorem irq_attach_delivers:
  assumes "k_intc_get_intc_from_config cstr s dev 0 = Some (0, Some (c, of_nat irq))" "irq < 64"
    and "padd c = Some (intc_plic_add_handler rd)" "plic_rep (hs, p) g" "g irq = []"
    and "hnd_next (hs (irq_hnd q)) = None" "func \<noteq> 0"
  shows "\<exists>q' hs' p'. irq_attach cstr padd func pr s dev q (hs, p) = Some (0, q', hs', p') \<and>
    irq_intc q' = Some c \<and> irq_num q' = int irq \<and> plic_rep (hs', p') (g(irq := [irq_hnd q])) \<and> eh_priv (hs' (irq_hnd q)) = pr \<and>
    (\<forall>p'' w call t. plic_hnd p'' = plic_hnd p' \<and> k_device_read32 rd (REG_CLAIM 0) (plic_hw p'') = (of_nat irq, w) \<longrightarrow>
      intc_plic_intr rd call hs' p'' t =
        (let (r, t') = call func (int irq) (irq_hnd q) t
         in Some (if r = 1 then 1 else 2, p''\<lparr>plic_hw := k_device_write32 rd (of_nat irq) (REG_CLAIM 0) w\<rparr>, t')))"
proof -
  let ?h = "irq_hnd q"
  let ?hs = "hs(?h := (hs ?h)\<lparr>eh_func := func, eh_priv := pr\<rparr>)"
  have n: "sint (of_nat irq :: u32) = int irq" using assms(2) by (simp add: sint_of_nat_u32)
  have rep: "plic_rep (?hs, p) g"
    by (rule plic_rep_next [OF assms(4)]) simp
  have "plic_line (int irq) = Some irq" "plic_fresh (?hs, p) g irq ?h"
    using assms(2,5,6) by (simp_all add: plic_line_def plic_fresh_def)
  note a = plic_add_line [OF rep this]
  define p' where "p' = p\<lparr>plic_hnd := (plic_hnd p)[irq := Some ?h], plic_hw := snd (intc_plic_enable_interrupt rd (int irq) 0 (plic_hw p))\<rparr>"
  define hs' where "hs' = set_event ?hs ?h (int irq)"
  have "irq_attach cstr padd func pr s dev q (hs, p) = Some (0, q\<lparr>irq_intc := Some c, irq_num := int irq\<rparr>, hs', p')"
    using assms(1,3,7) a(1) [of rd] by (simp add: irq_attach_def n k_intc_add_handler_def hs'_def p'_def)
  moreover have rep': "plic_rep (hs', p') (g(irq := [?h]))"
    using plic_intc.rep_event [OF a(2)] assms(5) by (simp add: hs'_def p'_def)
  moreover have "intc_plic_intr rd call hs' p'' t =
        (let (r, t') = call func (int irq) ?h t
         in Some (if r = 1 then 1 else 2, p''\<lparr>plic_hw := k_device_write32 rd (of_nat irq) (REG_CLAIM 0) w\<rparr>, t'))"
    if "plic_hnd p'' = plic_hnd p'" "k_device_read32 rd (REG_CLAIM 0) (plic_hw p'') = (of_nat irq, w)" for p'' w call t
  proof -
    have "chain hs' (Some ?h) [?h]" using assms(6) by (simp add: hs'_def)
    moreover have "eh_event (hs' ?h) = int irq" "eh_func (hs' ?h) = func" by (simp_all add: hs'_def set_event_def)
    moreover have "length (plic_hnd p') = 64" "plic_hnd p' ! irq = Some ?h"
      using plic_rep_line(3) [OF assms(4)] assms(2) by (simp_all add: p'_def)
    moreover have "unat (of_nat irq :: u32) = irq" using assms(2) by (simp add: unat_of_nat take_bit_nat_eq_self)
    ultimately show ?thesis
      using that assms(2) k_event_handle_generic_list [of hs' "Some ?h" "[?h]" call "int irq" t]
      by (auto simp: intc_plic_intr_def uint_nat split: prod.splits)
  qed
  ultimately show ?thesis by (auto simp: hs'_def set_event_def)
qed

lemma plic_soc_ref: "k_intc_get_intc_from_config soc_names plic_soc (devs plic_soc 2) 0 = Some (0, Some (3, 10))"
  by (simp add: k_intc_get_intc_from_config_def conf_ref_def k_device_read_conf_str_def k_device_read_conf_u32_def read_conf_def
      device_find_conf_def conf_entry_def k_bus_find_device_def find_in.simps k_tolower_def k_isupper_def soc_names_def
      plic_soc_def wit_probed_def wit_state_def wit_device_def wit_bus_def)

theorem irq_attach_delivers_witness:
  "\<exists>q hs' p'. irq_attach soc_names (\<lambda>_. Some (intc_plic_add_handler ram_dev)) 7 0 plic_soc (devs plic_soc 2)
      \<lparr>irq_intc = None, irq_hnd = 8, irq_num = 0\<rparr> (example_trap, example_plic) = Some (0, q, hs', p') \<and> irq_num q = 10 \<and>
    intc_plic_intr ram_dev (\<lambda>f e h t. (1, (f, e) # t)) hs' (p'\<lparr>plic_hw := (\<lambda>_. 10)\<rparr>) [] =
      Some (1, p'\<lparr>plic_hw := (\<lambda>_. 10)\<rparr>, [(7, 10)])"
proof -
  have r: "k_device_write32 ram_dev 10 (REG_CLAIM 0) (\<lambda>_. 10) = (\<lambda>_. 10)" "k_device_read32 ram_dev (REG_CLAIM 0) (\<lambda>_. 10) = (10, \<lambda>_. 10)"
    by (auto simp: ram_dev_def k_device_write32_def k_device_read32_def)
  have "hnd_next (example_trap 8) = None" "((\<lambda>_. [])(4 := [6 :: nat])) (10 :: nat) = []" by (simp_all add: example_trap_def)
  then obtain q hs' p' where q: "irq_attach soc_names (\<lambda>_. Some (intc_plic_add_handler ram_dev)) 7 0 plic_soc (devs plic_soc 2)
      \<lparr>irq_intc = None, irq_hnd = 8, irq_num = 0\<rparr> (example_trap, example_plic) = Some (0, q, hs', p')" "irq_num q = 10"
    and i: "\<forall>p'' w call t. plic_hnd p'' = plic_hnd p' \<and> k_device_read32 ram_dev (REG_CLAIM 0) (plic_hw p'') = (10, w) \<longrightarrow>
      intc_plic_intr ram_dev call hs' p'' t =
        (let (r, t') = call 7 10 8 (t :: (nat \<times> int) list)
         in Some (if r = 1 then 1 else 2, p''\<lparr>plic_hw := k_device_write32 ram_dev 10 (REG_CLAIM 0) w\<rparr>, t'))"
    using irq_attach_delivers [of soc_names plic_soc "devs plic_soc 2" 3 10 "\<lambda>_. Some (intc_plic_add_handler ram_dev)" ram_dev
        example_trap example_plic "(\<lambda>_. [])(4 := [6])" "\<lparr>irq_intc = None, irq_hnd = 8, irq_num = 0\<rparr>" 7 0]
      plic_soc_ref example_plic_rep by auto
  have "intc_plic_intr ram_dev (\<lambda>f e h t. (1, (f, e) # t)) hs' (p'\<lparr>plic_hw := (\<lambda>_. 10)\<rparr>) [] =
      Some (1, p'\<lparr>plic_hw := (\<lambda>_. 10)\<rparr>, [(7, 10)])"
    using i [rule_format, of "p'\<lparr>plic_hw := (\<lambda>_. 10)\<rparr>" "\<lambda>_. 10" "\<lambda>f e h t. (1, (f, e) # t)" "[]"] r by simp
  with q show ?thesis by blast
qed

lemma conf_ref_waits:
  assumes "read_conf (Some dev) (Some key) 0 = Some (0, Some a)" "read_conf (Some dev) (Some key) 1 = Some (0, Some n)"
    and "k_bus_find_device s (Some bus_root) (Some (cstr a)) = Some (- EAGAIN, None)"
  shows "conf_ref cstr key s dev 0 = Some (- EAGAIN, None)"
  using assms by (simp add: conf_ref_def k_device_read_conf_str_def k_device_read_conf_u32_def)

text \<open>
  A device whose clock is configured but not yet probed: the UARTs and the timer report \<open>EAGAIN\<close> and leave
  everything as it was, so that probing tries them again.  With the interrupt controller it is different:
  when that is not yet probed, the driver goes on without an interrupt and reports success, and it
  is not tried again.
\<close>

theorem driver_add_deferred:
  assumes "read_conf (Some (devs (ps_dev st) d)) (Some key) 0 = Some (0, Some a)"
    and "read_conf (Some (devs (ps_dev st) d)) (Some key) 1 = Some (0, Some n)"
    and "k_bus_find_device (ps_dev st) (Some bus_root) (Some (cstr a)) = Some (- EAGAIN, None)"
  shows "(key = ''clocks'' \<longrightarrow>
     uart_sifive_add cstr ops clks padd dev func pr d (Some p) st = Some (- EAGAIN, Some p, st) \<and>
     timer_clint_add cstr ops clks padd func pr d (Some ci) (ps_dev st) cs es = Some (- EAGAIN, Some ci, ps_dev st, cs, es) \<and>
     (read_conf (Some (devs (ps_dev st) d)) (Some ''reg-width'') 0 = Some (0, Some 4) \<longrightarrow>
        (\<exists>u'. uart_ns16550_add cstr ops clks padd func pr d (Some u) st = Some (- EAGAIN, Some u', st)))) \<and>
    (key = ''interrupts'' \<longrightarrow>
     uart_irq_start cstr padd func pr d en q st = Some (0, q\<lparr>irq_intc := None\<rparr>, st))"
  using conf_ref_waits [where cstr = cstr, OF assms]
  by (auto simp: uart_sifive_add_def timer_clint_add_def uart_ns16550_add_def clk_attach_def k_clk_get_clk_from_config_def
      k_device_read_conf_u32_def addr_shift_of_def Let_def uart_irq_start_def irq_attach_def k_intc_get_intc_from_config_def)

lemma early_soc_waits:
  "read_conf (Some (devs (ps_dev early_soc) 2)) (Some ''clocks'') 0 = Some (0, Some 1)"
  "read_conf (Some (devs (ps_dev early_soc) 2)) (Some ''clocks'') 1 = Some (0, Some 0)"
  "read_conf (Some (devs (ps_dev early_soc) 2)) (Some ''interrupts'') 0 = Some (0, Some 1)"
  "read_conf (Some (devs (ps_dev early_soc) 2)) (Some ''interrupts'') 1 = Some (0, Some 10)"
  "k_bus_find_device (ps_dev early_soc) (Some bus_root) (Some (soc_names 1)) = Some (- EAGAIN, None)"
  by (simp_all add: read_conf_def device_find_conf_def conf_entry_def k_bus_find_device_def find_in.simps k_tolower_def
      k_isupper_def soc_names_def early_soc_def plic_soc_def wit_probed_def wit_state_def wit_device_def wit_bus_def)

theorem driver_add_deferred_witness:
  "(\<forall>padd dev p. uart_sifive_add soc_names wit_ops (\<lambda>_. None) padd dev 7 0 2 (Some p) early_soc = Some (- EAGAIN, Some p, early_soc)) \<and>
   (\<forall>padd en q. uart_irq_start soc_names padd 7 0 2 en q early_soc = Some (0, q\<lparr>irq_intc := None\<rparr>, early_soc))"
  by (intro conjI allI driver_add_deferred [where cstr = soc_names, OF early_soc_waits(1,2,5), THEN conjunct1, rule_format, OF refl, THEN conjunct1]
      driver_add_deferred [where cstr = soc_names, OF early_soc_waits(3,4,5), THEN conjunct2, rule_format, OF refl])

end
