(* ===== verification/Trap.thy ===== *)
theory Trap
  imports Arch "HOL-Library.Monad_Syntax"
begin

section \<open>Trap entry and exit\<close>

text \<open>
  \<^verbatim>\<open>arch/riscv/isr.S\<close>, \<^verbatim>\<open>arch/riscv/switch.S\<close> and the macros of
  \<^verbatim>\<open>arch/riscv/include/bmetal/arch/cpu.h\<close> of the 64-bit machine-mode build.  A machine is the
  integer registers, the control registers the code touches, the memory as 64-bit words, and \<open>cenv\<close>,
  whatever the C code keeps elsewhere.  One definition per label; a block that ends in a jump ends in
  the definition of its target.  A call of a C function is a step of the parameter \<open>c\<close>, which gives
  the machine at the return, or \<open>None\<close> when the function does not return.  A word access is at an
  address that is a multiple of eight away from the frame pointer, so two offsets of a frame never
  overlap.
\<close>

datatype reg = Rra | Rsp | Rgp | Rtp | Rt0 | Rt1 | Rt2 | Rt3 | Rt4 | Rt5 | Rt6 | Ra0 | Ra1 | Ra2 | Ra3 |
    Ra4 | Ra5 | Ra6 | Ra7 | Rs0 | Rs1 | Rs2 | Rs3 | Rs4 | Rs5 | Rs6 | Rs7 | Rs8 | Rs9 | Rs10 |
    Rs11

record 'e machine =
  gpr :: "reg \<Rightarrow> u64"
  xepc :: u64
  xstatus :: u64
  xscratch :: u64
  xcause :: u64
  words :: "u64 \<Rightarrow> u64"
  cenv :: 'e

datatype cfun = C_set_current_user_regs | C_sys_unknown | C_interrupt | C_exception | C_at u64

type_synonym 'e c_code = "cfun \<Rightarrow> 'e machine \<Rightarrow> 'e machine option"

text \<open>The offsets \<open>REGOFF_\<close> of a register in \<open>struct k_arch_riscv_user_regs\<close>.\<close>

fun reg_index :: "reg \<Rightarrow> nat" where
  "reg_index Rra = 0"
| "reg_index Rsp = 1"
| "reg_index Rgp = 2"
| "reg_index Rtp = 3"
| "reg_index Rt0 = 4"
| "reg_index Rt1 = 5"
| "reg_index Rt2 = 6"
| "reg_index Rt3 = 7"
| "reg_index Rt4 = 8"
| "reg_index Rt5 = 9"
| "reg_index Rt6 = 10"
| "reg_index Ra0 = 11"
| "reg_index Ra1 = 12"
| "reg_index Ra2 = 13"
| "reg_index Ra3 = 14"
| "reg_index Ra4 = 15"
| "reg_index Ra5 = 16"
| "reg_index Ra6 = 17"
| "reg_index Ra7 = 18"
| "reg_index Rs0 = 19"
| "reg_index Rs1 = 20"
| "reg_index Rs2 = 21"
| "reg_index Rs3 = 22"
| "reg_index Rs4 = 23"
| "reg_index Rs5 = 24"
| "reg_index Rs6 = 25"
| "reg_index Rs7 = 26"
| "reg_index Rs8 = 27"
| "reg_index Rs9 = 28"
| "reg_index Rs10 = 29"
| "reg_index Rs11 = 30"

abbreviation (input) REGSIZE :: u64 where "REGSIZE \<equiv> 8"
abbreviation (input) REGOFF_MEPC :: u64 where "REGOFF_MEPC \<equiv> REGSIZE * 31"
abbreviation (input) REGOFF_MSTATUS :: u64 where "REGOFF_MSTATUS \<equiv> REGSIZE * 32"
abbreviation (input) REGOFF_MSCRATCH :: u64 where "REGOFF_MSCRATCH \<equiv> REGSIZE * 33"
abbreviation (input) REGOFF_ALL :: u64 where "REGOFF_ALL \<equiv> REGSIZE * 34"

definition regoff :: "reg \<Rightarrow> u64" where
  "regoff r = REGSIZE * of_nat (reg_index r)"

definition set_gpr :: "reg \<Rightarrow> u64 \<Rightarrow> 'e machine \<Rightarrow> 'e machine" where
  "set_gpr r v m = m\<lparr>gpr := (gpr m)(r := v)\<rparr>"

definition OP_ST :: "reg \<Rightarrow> u64 \<Rightarrow> reg \<Rightarrow> 'e machine \<Rightarrow> 'e machine" where
  "OP_ST r off pt m = m\<lparr>words := (words m)(gpr m pt + off := gpr m r)\<rparr>"

definition OP_LD :: "reg \<Rightarrow> u64 \<Rightarrow> reg \<Rightarrow> 'e machine \<Rightarrow> 'e machine" where
  "OP_LD r off pt m = set_gpr r (words m (gpr m pt + off)) m"

definition caller_regs :: "reg list" where
  "caller_regs = [Rra, Rt0, Rt1, Rt2, Rt3, Rt4, Rt5, Rt6, Ra0, Ra1, Ra2, Ra3, Ra4, Ra5, Ra6,
                 Ra7]"

definition callee_regs :: "reg list" where
  "callee_regs = [Rs0, Rs1, Rs2, Rs3, Rs4, Rs5, Rs6, Rs7, Rs8, Rs9, Rs10, Rs11]"

definition special_regs :: "reg list" where
  "special_regs = [Rgp, Rtp]"

text \<open>The macros \<open>OP_CALLER_REGS\<close>, \<open>OP_CALLEE_REGS\<close> and \<open>OP_SPECIAL_REGS\<close>, by their register list.\<close>

fun op_regs :: "(reg \<Rightarrow> u64 \<Rightarrow> reg \<Rightarrow> 'e machine \<Rightarrow> 'e machine) \<Rightarrow> reg list \<Rightarrow> reg \<Rightarrow> 'e machine \<Rightarrow> 'e machine" where
  "op_regs OP [] pt m = m"
| "op_regs OP (r # rs) pt m = op_regs OP rs pt (OP r (regoff r) pt m)"

definition store_status_regs :: "reg \<Rightarrow> 'e machine \<Rightarrow> 'e machine" where
  "store_status_regs tmp m =
     (let m = set_gpr tmp (xepc m) m;
          m = OP_ST tmp REGOFF_MEPC Rsp m;
          m = set_gpr tmp (xstatus m) m;
          m = OP_ST tmp REGOFF_MSTATUS Rsp m;
          m = set_gpr tmp (xscratch m) m
      in OP_ST tmp REGOFF_MSCRATCH Rsp m)"

definition load_status_regs :: "reg \<Rightarrow> 'e machine \<Rightarrow> 'e machine" where
  "load_status_regs tmp m =
     (let m = OP_LD tmp REGOFF_MEPC Rsp m;
          m = m\<lparr>xepc := gpr m tmp\<rparr>;
          m = OP_LD tmp REGOFF_MSTATUS Rsp m;
          m = m\<lparr>xstatus := gpr m tmp\<rparr>;
          m = OP_LD tmp REGOFF_MSCRATCH Rsp m
      in m\<lparr>xscratch := gpr m tmp\<rparr>)"

subsection \<open>The way out\<close>

abbreviation (input) MAX_SYSCALLS :: u64 where "MAX_SYSCALLS \<equiv> 448"
abbreviation (input) RV_CAUSE_EXC_ECALL_M :: u64 where "RV_CAUSE_EXC_ECALL_M \<equiv> 11"

text \<open>Up to the \<open>mret\<close>, which resumes at \<open>xepc\<close> with the interrupt enable bit \<open>xstatus\<close> holds.\<close>

definition k_trap_end :: "'e machine \<Rightarrow> 'e machine" where
  "k_trap_end m =
     (let m = set_gpr Rt0 XSTATUS_MIE m;
          m = m\<lparr>xstatus := xstatus m AND NOT (gpr m Rt0)\<rparr>;
          m = load_status_regs Rt0 m;
          m = op_regs OP_LD caller_regs Rsp m;
          m = op_regs OP_LD callee_regs Rsp m;
          m = op_regs OP_LD special_regs Rsp m
      in OP_LD Rsp (regoff Rsp) Rsp m)"

definition k_trap_exception :: "'e c_code \<Rightarrow> 'e machine \<Rightarrow> 'e machine option" where
  "k_trap_exception c m = do {
     m \<leftarrow> c C_exception (set_gpr Ra0 (xcause m) m);
     Some (k_trap_end m)
   }"

definition k_trap_interrupt :: "'e c_code \<Rightarrow> 'e machine \<Rightarrow> 'e machine option" where
  "k_trap_interrupt c m = do {
     m \<leftarrow> c C_interrupt (set_gpr Ra0 (xcause m) m);
     Some (k_trap_end m)
   }"

definition k_trap_syscall_end :: "'e machine \<Rightarrow> 'e machine" where
  "k_trap_syscall_end m = k_trap_end (OP_ST Ra0 (regoff Ra0) Rsp m)"

definition mv :: "reg \<Rightarrow> reg \<Rightarrow> 'e machine \<Rightarrow> 'e machine" where
  "mv rd rs m = set_gpr rd (gpr m rs) m"

definition k_trap_syscall_unknown :: "'e c_code \<Rightarrow> 'e machine \<Rightarrow> 'e machine option" where
  "k_trap_syscall_unknown c m =
     (let m = mv Ra6 Ra5 m;
          m = mv Ra5 Ra4 m;
          m = mv Ra4 Ra3 m;
          m = mv Ra3 Ra2 m;
          m = mv Ra2 Ra1 m;
          m = mv Ra1 Ra0 m;
          m = mv Ra0 Ra7 m
      in do {
        m \<leftarrow> c C_sys_unknown m;
        Some (k_trap_syscall_end m)
      })"

text \<open>\<open>tbl\<close> is the array \<open>k_table_syscalls\<close>, \<open>la\<close> its address; the load of entry \<open>n\<close> gives \<open>tbl ! n\<close>.\<close>

definition k_trap_syscall :: "'e c_code \<Rightarrow> u64 \<Rightarrow> u64 list \<Rightarrow> 'e machine \<Rightarrow> 'e machine option" where
  "k_trap_syscall c la tbl m =
     (let m = set_gpr Rt0 (xepc m) m;
          m = set_gpr Rt0 (gpr m Rt0 + 4) m;
          m = OP_ST Rt0 REGOFF_MEPC Rsp m
      in if sint (gpr m Ra7) < 0 then k_trap_syscall_unknown c m
      else
        let m = set_gpr Rt0 MAX_SYSCALLS m
        in if sint (gpr m Rt0) \<le> sint (gpr m Ra7) then k_trap_syscall_unknown c m
        else
          let m = set_gpr Rt0 la m;
              m = set_gpr Rt1 (push_bit 3 (gpr m Ra7)) m;
              m = set_gpr Rt0 (gpr m Rt0 + gpr m Rt1) m;
              m = set_gpr Rt0 (tbl ! unat ((gpr m Rt0 - la) div REGSIZE)) m
          in if gpr m Rt0 = 0 then k_trap_syscall_unknown c m
          else do {
            m \<leftarrow> c (C_at (gpr m Rt0)) m;
            Some (k_trap_syscall_end m)
          })"

definition k_trap_common :: "'e c_code \<Rightarrow> u64 \<Rightarrow> u64 list \<Rightarrow> 'e machine \<Rightarrow> 'e machine option" where
  "k_trap_common c la tbl m =
     (let m = set_gpr Rt0 (xcause m) m;
          m = set_gpr Rt1 RV_CAUSE_EXC_ECALL_M m
      in if gpr m Rt0 = gpr m Rt1 then k_trap_syscall c la tbl m
      else
        let m = set_gpr Rt1 (NOT 0) m;
            m = set_gpr Rt1 (drop_bit 1 (gpr m Rt1)) m;
            m = set_gpr Rt1 (NOT (gpr m Rt1)) m;
            m = set_gpr Rt0 (gpr m Rt0 AND gpr m Rt1) m
        in if gpr m Rt0 \<noteq> 0 then k_trap_interrupt c m else k_trap_exception c m)"

subsection \<open>The way in\<close>

definition csrrw_sp :: "'e machine \<Rightarrow> 'e machine" where
  "csrrw_sp m = m\<lparr>gpr := (gpr m)(Rsp := xscratch m), xscratch := gpr m Rsp\<rparr>"

definition k_trap_in_kernel :: "'e c_code \<Rightarrow> u64 \<Rightarrow> u64 list \<Rightarrow> 'e machine \<Rightarrow> 'e machine option" where
  "k_trap_in_kernel c la tbl m =
     (let m = csrrw_sp m;
          m = set_gpr Rsp (gpr m Rsp - REGOFF_ALL) m;
          m = op_regs OP_ST caller_regs Rsp m;
          m = op_regs OP_ST callee_regs Rsp m;
          m = op_regs OP_ST special_regs Rsp m;
          m = store_status_regs Rt0 m;
          m = set_gpr Rt0 (gpr m Rsp + REGOFF_ALL) m;
          m = OP_ST Rt0 (regoff Rsp) Rsp m
      in k_trap_common c la tbl m)"

definition k_trap_in_user :: "'e c_code \<Rightarrow> u64 \<Rightarrow> u64 list \<Rightarrow> 'e machine \<Rightarrow> 'e machine option" where
  "k_trap_in_user c la tbl m =
     (let m = set_gpr Rsp (gpr m Rsp - REGOFF_ALL) m;
          m = op_regs OP_ST caller_regs Rsp m;
          m = op_regs OP_ST callee_regs Rsp m;
          m = op_regs OP_ST special_regs Rsp m;
          m = store_status_regs Rt0 m;
          m = set_gpr Rt0 (xscratch m) m;
          m = OP_ST Rt0 (regoff Rsp) Rsp m;
          m = set_gpr Rt0 (gpr m Rsp + REGOFF_ALL) m;
          m = OP_ST Rt0 REGOFF_MSCRATCH Rsp m;
          m = m\<lparr>xscratch := 0\<rparr>;
          m = mv Ra0 Rsp m
      in do {
        m \<leftarrow> c C_set_current_user_regs m;
        k_trap_common c la tbl (op_regs OP_LD [Ra0, Ra1, Ra2, Ra3, Ra4, Ra5, Ra6, Ra7] Rsp m)
      })"

definition k_trap_start :: "'e c_code \<Rightarrow> u64 \<Rightarrow> u64 list \<Rightarrow> 'e machine \<Rightarrow> 'e machine option" where
  "k_trap_start c la tbl m =
     (let m = csrrw_sp m
      in if gpr m Rsp = 0 then k_trap_in_kernel c la tbl m else k_trap_in_user c la tbl m)"

subsection \<open>Context copy\<close>

definition k_arch_copy_current_context :: "'e machine \<Rightarrow> 'e machine" where
  "k_arch_copy_current_context m =
     (let m = OP_ST Rsp (regoff Rsp) Ra0 m;
          m = op_regs OP_ST caller_regs Ra0 m;
          m = op_regs OP_ST callee_regs Ra0 m;
          m = op_regs OP_ST special_regs Ra0 m;
          m = set_gpr Rt0 (xepc m) m;
          m = OP_ST Rt0 REGOFF_MEPC Ra0 m;
          m = set_gpr Rt0 (xstatus m) m;
          m = OP_ST Rt0 REGOFF_MSTATUS Ra0 m;
          m = set_gpr Rt0 (xscratch m) m;
          m = OP_ST Rt0 REGOFF_MSCRATCH Ra0 m
      in OP_LD Rt0 (regoff Rt0) Ra0 m)"

subsection \<open>Reference definitions\<close>

text \<open>The structure a frame holds, and the context of the interrupted code as the same structure.\<close>

definition frame_at :: "(u64 \<Rightarrow> u64) \<Rightarrow> u64 \<Rightarrow> k_arch_user_regs" where
  "frame_at w b =
     \<lparr>rv_ra = w (b + regoff Rra), rv_sp = w (b + regoff Rsp), rv_gp = w (b + regoff Rgp), rv_tp
      = w (b + regoff Rtp), rv_t0 = w (b + regoff Rt0), rv_t1 = w (b + regoff Rt1), rv_t2 = w (b
      + regoff Rt2), rv_t3 = w (b + regoff Rt3), rv_t4 = w (b + regoff Rt4), rv_t5 = w (b +
      regoff Rt5), rv_t6 = w (b + regoff Rt6), rv_a0 = w (b + regoff Ra0), rv_a1 = w (b + regoff
      Ra1), rv_a2 = w (b + regoff Ra2), rv_a3 = w (b + regoff Ra3), rv_a4 = w (b + regoff Ra4),
      rv_a5 = w (b + regoff Ra5), rv_a6 = w (b + regoff Ra6), rv_a7 = w (b + regoff Ra7), rv_s0
      = w (b + regoff Rs0), rv_s1 = w (b + regoff Rs1), rv_s2 = w (b + regoff Rs2), rv_s3 = w (b
      + regoff Rs3), rv_s4 = w (b + regoff Rs4), rv_s5 = w (b + regoff Rs5), rv_s6 = w (b +
      regoff Rs6), rv_s7 = w (b + regoff Rs7), rv_s8 = w (b + regoff Rs8), rv_s9 = w (b + regoff
      Rs9), rv_s10 = w (b + regoff Rs10), rv_s11 = w (b + regoff Rs11), rv_mepc = w (b +
      REGOFF_MEPC), rv_mstatus = w (b + REGOFF_MSTATUS), rv_mscratch = w (b + REGOFF_MSCRATCH)\<rparr>"

definition context_of :: "'e machine \<Rightarrow> k_arch_user_regs" where
  "context_of m =
     \<lparr>rv_ra = gpr m Rra, rv_sp = gpr m Rsp, rv_gp = gpr m Rgp, rv_tp = gpr m Rtp, rv_t0 = gpr m
      Rt0, rv_t1 = gpr m Rt1, rv_t2 = gpr m Rt2, rv_t3 = gpr m Rt3, rv_t4 = gpr m Rt4, rv_t5 =
      gpr m Rt5, rv_t6 = gpr m Rt6, rv_a0 = gpr m Ra0, rv_a1 = gpr m Ra1, rv_a2 = gpr m Ra2,
      rv_a3 = gpr m Ra3, rv_a4 = gpr m Ra4, rv_a5 = gpr m Ra5, rv_a6 = gpr m Ra6, rv_a7 = gpr m
      Ra7, rv_s0 = gpr m Rs0, rv_s1 = gpr m Rs1, rv_s2 = gpr m Rs2, rv_s3 = gpr m Rs3, rv_s4 =
      gpr m Rs4, rv_s5 = gpr m Rs5, rv_s6 = gpr m Rs6, rv_s7 = gpr m Rs7, rv_s8 = gpr m Rs8,
      rv_s9 = gpr m Rs9, rv_s10 = gpr m Rs10, rv_s11 = gpr m Rs11, rv_mepc = xepc m, rv_mstatus
      = xstatus m, rv_mscratch = xscratch m\<rparr>"

text \<open>
  What a C function does, seen from the frame below its stack: its argument registers, the frame and
  the C state give the value it returns, the frame and the C state.  The calling convention keeps
  the stack pointer, and \<open>k_cpu_set_current_user_regs\<close> touches neither the frame nor a control register.
\<close>

type_synonym 'e c_sem = "cfun \<Rightarrow> u64 list \<Rightarrow> k_arch_user_regs \<Rightarrow> 'e \<Rightarrow> (u64 \<times> k_arch_user_regs \<times> 'e) option"

fun c_args :: "cfun \<Rightarrow> reg list" where
  "c_args C_set_current_user_regs = [Ra0]"
| "c_args C_sys_unknown = [Ra0, Ra1, Ra2, Ra3, Ra4, Ra5, Ra6]"
| "c_args C_interrupt = [Ra0]"
| "c_args C_exception = [Ra0]"
| "c_args (C_at a) = [Ra0, Ra1, Ra2, Ra3, Ra4, Ra5]"

definition c_abi :: "'e c_code \<Rightarrow> 'e c_sem \<Rightarrow> bool" where
  "c_abi c sem \<longleftrightarrow>
     (\<forall>f m. case sem f (map (gpr m) (c_args f)) (frame_at (words m) (gpr m Rsp)) (cenv m) of
        None \<Rightarrow> c f m = None
      | Some (v, fr, e) \<Rightarrow> \<exists>m'. c f m = Some m' \<and> gpr m' Ra0 = v \<and> gpr m' Rsp = gpr m Rsp \<and>
          frame_at (words m') (gpr m Rsp) = fr \<and> cenv m' = e \<and>
          (f = C_set_current_user_regs \<longrightarrow>
             fr = frame_at (words m) (gpr m Rsp) \<and> xcause m' = xcause m \<and> xepc m' = xepc m))"

text \<open>The trap handler as a function on the context it interrupts.\<close>

definition syscall_fn :: "u64 list \<Rightarrow> u64 \<Rightarrow> u64 option" where
  "syscall_fn tbl n = (if n < MAX_SYSCALLS \<and> tbl ! unat n \<noteq> 0 then Some (tbl ! unat n) else None)"

definition trap_handler :: "'e c_sem \<Rightarrow> u64 list \<Rightarrow> u64 \<Rightarrow> k_arch_user_regs \<Rightarrow> 'e \<Rightarrow> (k_arch_user_regs \<times> 'e) option" where
  "trap_handler sem tbl cause u e =
     (if cause = RV_CAUSE_EXC_ECALL_M then do {
        let as = [rv_a0 u, rv_a1 u, rv_a2 u, rv_a3 u, rv_a4 u, rv_a5 u];
        let u' = u\<lparr>rv_mepc := rv_mepc u + 4\<rparr>;
        (v, fr, e) \<leftarrow> (case syscall_fn tbl (rv_a7 u) of
            Some a \<Rightarrow> sem (C_at a) as u' e
          | None \<Rightarrow> sem C_sys_unknown (rv_a7 u # as) u' e);
        Some (fr\<lparr>rv_a0 := v\<rparr>, e)
      }
      else do {
        (v, fr, e) \<leftarrow> sem (if cause < 0x8000000000000000 then C_exception else C_interrupt) [cause] u e;
        Some (fr, e)
      })"

text \<open>From user mode the C code first learns where the frame is.\<close>

definition trap_spec :: "'e c_sem \<Rightarrow> u64 list \<Rightarrow> 'e machine \<Rightarrow> (k_arch_user_regs \<times> 'e) option" where
  "trap_spec sem tbl m =
     (if xscratch m = 0 then trap_handler sem tbl (xcause m) (context_of m) (cenv m)
      else do {
        (v, fr, e) \<leftarrow> sem C_set_current_user_regs [xscratch m - REGOFF_ALL] (context_of m) (cenv m);
        trap_handler sem tbl (xcause m) (context_of m) e
      })"

text \<open>The four stores every entry makes, with the frame below \<open>sp\<close> already reserved.\<close>

definition save_regs :: "'e machine \<Rightarrow> 'e machine" where
  "save_regs m = store_status_regs Rt0 (op_regs OP_ST special_regs Rsp (op_regs OP_ST callee_regs Rsp
     (op_regs OP_ST caller_regs Rsp m)))"

abbreviation trap_result :: "'e machine \<Rightarrow> k_arch_user_regs \<times> 'e" where
  "trap_result m \<equiv> (context_of m, cenv m)"

text \<open>The words of a structure, and C code that runs a given meaning: it writes the frame back to the stack.\<close>

definition frame_words :: "k_arch_user_regs \<Rightarrow> u64 list" where
  "frame_words fr =
     [rv_ra fr, rv_sp fr, rv_gp fr, rv_tp fr, rv_t0 fr, rv_t1 fr, rv_t2 fr, rv_t3 fr, rv_t4 fr,
      rv_t5 fr, rv_t6 fr, rv_a0 fr, rv_a1 fr, rv_a2 fr, rv_a3 fr, rv_a4 fr, rv_a5 fr, rv_a6 fr,
      rv_a7 fr, rv_s0 fr, rv_s1 fr, rv_s2 fr, rv_s3 fr, rv_s4 fr, rv_s5 fr, rv_s6 fr, rv_s7 fr,
      rv_s8 fr, rv_s9 fr, rv_s10 fr, rv_s11 fr, rv_mepc fr, rv_mstatus fr, rv_mscratch fr]"

definition put_frame :: "k_arch_user_regs \<Rightarrow> u64 \<Rightarrow> (u64 \<Rightarrow> u64) \<Rightarrow> u64 \<Rightarrow> u64" where
  "put_frame fr b w a =
     (if a - b < REGOFF_ALL \<and> (a - b) mod REGSIZE = 0 then frame_words fr ! unat ((a - b) div REGSIZE) else w a)"

definition c_run :: "'e c_sem \<Rightarrow> 'e c_code" where
  "c_run sem f m = do {
     (v, fr, e) \<leftarrow> sem f (map (gpr m) (c_args f)) (frame_at (words m) (gpr m Rsp)) (cenv m);
     Some (m\<lparr>gpr := (gpr m)(Ra0 := v), words := put_frame fr (gpr m Rsp) (words m), cenv := e\<rparr>)
   }"

text \<open>A machine that traps from user mode with the given call number and cause.\<close>

definition example_machine :: "u64 \<Rightarrow> u64 \<Rightarrow> 'e \<Rightarrow> 'e machine" where
  "example_machine n cause e =
     \<lparr>gpr = (\<lambda>r. if r = Ra7 then n else 0), xepc = 0x80000000, xstatus = 0x1880, xscratch = 0x90000000, xcause = cause,
      words = (\<lambda>_. 0), cenv = e\<rparr>"

subsection \<open>Registers and frames\<close>

lemma regoff_inj: "regoff r = regoff s \<longleftrightarrow> r = s"
  by (cases r; cases s; simp add: regoff_def)

lemma set_gpr_simps [simp]:
  "gpr (set_gpr r v m) = (gpr m)(r := v)" "xepc (set_gpr r v m) = xepc m" "xstatus (set_gpr r v m) = xstatus m"
  "xscratch (set_gpr r v m) = xscratch m" "xcause (set_gpr r v m) = xcause m" "words (set_gpr r v m) = words m"
  "cenv (set_gpr r v m) = cenv m"
  by (simp_all add: set_gpr_def)

lemma OP_ST_simps [simp]:
  "gpr (OP_ST r off pt m) = gpr m" "xepc (OP_ST r off pt m) = xepc m" "xstatus (OP_ST r off pt m) = xstatus m"
  "xscratch (OP_ST r off pt m) = xscratch m" "xcause (OP_ST r off pt m) = xcause m" "cenv (OP_ST r off pt m) = cenv m"
  "words (OP_ST r off pt m) = (words m)(gpr m pt + off := gpr m r)"
  by (simp_all add: OP_ST_def)

lemma OP_LD_simps [simp]:
  "gpr (OP_LD r off pt m) = (gpr m)(r := words m (gpr m pt + off))" "xepc (OP_LD r off pt m) = xepc m"
  "xstatus (OP_LD r off pt m) = xstatus m" "xscratch (OP_LD r off pt m) = xscratch m"
  "xcause (OP_LD r off pt m) = xcause m" "words (OP_LD r off pt m) = words m" "cenv (OP_LD r off pt m) = cenv m"
  by (simp_all add: OP_LD_def)

lemma op_regs_ST [simp]:
  "gpr (op_regs OP_ST rs pt m) = gpr m" "xepc (op_regs OP_ST rs pt m) = xepc m"
  "xstatus (op_regs OP_ST rs pt m) = xstatus m" "xscratch (op_regs OP_ST rs pt m) = xscratch m"
  "xcause (op_regs OP_ST rs pt m) = xcause m" "cenv (op_regs OP_ST rs pt m) = cenv m"
  by (induction rs arbitrary: m) simp_all

lemma op_regs_LD [simp]:
  "xepc (op_regs OP_LD rs pt m) = xepc m" "xstatus (op_regs OP_LD rs pt m) = xstatus m"
  "xscratch (op_regs OP_LD rs pt m) = xscratch m" "xcause (op_regs OP_LD rs pt m) = xcause m"
  "cenv (op_regs OP_LD rs pt m) = cenv m" "words (op_regs OP_LD rs pt m) = words m"
  by (induction rs arbitrary: m) simp_all

text \<open>Storing a list of registers writes their words and no other; loading them back reads the frame.\<close>

lemma words_op_regs:
  "words (op_regs OP_ST rs pt m) a =
     (if \<exists>r\<in>set rs. a = gpr m pt + regoff r then gpr m (SOME r. a = gpr m pt + regoff r) else words m a)"
proof (induction rs arbitrary: m)
  case (Cons r rs)
  have "(SOME s. gpr m pt + regoff r = gpr m pt + regoff s) = r"
    by (rule some_equality) (simp_all add: regoff_inj)
  then show ?case
    by (auto simp: Cons.IH)
qed simp

lemma words_op_regs_in:
  assumes "r \<in> set rs"
  shows "words (op_regs OP_ST rs pt m) (gpr m pt + regoff r) = gpr m r"
proof -
  have "(SOME s. gpr m pt + regoff r = gpr m pt + regoff s) = r"
    by (rule some_equality) (simp_all add: regoff_inj)
  with assms show ?thesis
    by (auto simp: words_op_regs)
qed

lemma words_op_regs_out:
  "a \<notin> (\<lambda>r. gpr m pt + regoff r) ` set rs \<Longrightarrow> words (op_regs OP_ST rs pt m) a = words m a"
  by (auto simp: words_op_regs)

lemma gpr_op_regs:
  "pt \<notin> set rs \<Longrightarrow> gpr (op_regs OP_LD rs pt m) r = (if r \<in> set rs then words m (gpr m pt + regoff r) else gpr m r)"
  by (induction rs arbitrary: m) auto

lemma regoff_status: "regoff r \<noteq> 248" "regoff r \<noteq> 256" "regoff r \<noteq> 264"
  by (cases r; simp add: regoff_def)+

lemma reg_lists:
  "r \<in> set caller_regs \<or> r \<in> set callee_regs \<or> r \<in> set special_regs \<longleftrightarrow> r \<noteq> Rsp"
  by (cases r) (simp_all add: caller_regs_def callee_regs_def special_regs_def)

lemma sp_not_listed: "Rsp \<notin> set caller_regs" "Rsp \<notin> set callee_regs" "Rsp \<notin> set special_regs"
  by (simp_all add: caller_regs_def callee_regs_def special_regs_def)

lemma save_regs_simps [simp]:
  "xepc (save_regs m) = xepc m" "xstatus (save_regs m) = xstatus m" "xscratch (save_regs m) = xscratch m"
  "xcause (save_regs m) = xcause m" "cenv (save_regs m) = cenv m" "gpr (save_regs m) = (gpr m)(Rt0 := xscratch m)"
  by (simp_all add: save_regs_def store_status_regs_def Let_def)

lemma save_regs_gpr:
  assumes "r \<noteq> Rsp"
  shows "words (save_regs m) (gpr m Rsp + regoff r) = gpr m r"
  using assms reg_lists [of r]
  by (auto simp: save_regs_def store_status_regs_def Let_def regoff_status words_op_regs_in words_op_regs regoff_inj)

lemma save_regs_status:
  "words (save_regs m) (gpr m Rsp + 248) = xepc m" "words (save_regs m) (gpr m Rsp + 256) = xstatus m"
  "words (save_regs m) (gpr m Rsp + 264) = xscratch m"
  by (simp_all add: save_regs_def store_status_regs_def Let_def)

lemma save_regs_frame:
  "frame_at ((words (save_regs m))(gpr m Rsp + regoff Rsp := a)) (gpr m Rsp) = (context_of m)\<lparr>rv_sp := a\<rparr>"
  "frame_at ((words (save_regs m))(gpr m Rsp + regoff Rsp := a, gpr m Rsp + 264 := b)) (gpr m Rsp) =
     (context_of m)\<lparr>rv_sp := a, rv_mscratch := b\<rparr>"
  by (simp_all add: frame_at_def context_of_def save_regs_gpr save_regs_status regoff_status regoff_inj
      regoff_status [symmetric])

lemma load_all_gpr:
  assumes "m' = op_regs OP_LD special_regs Rsp (op_regs OP_LD callee_regs Rsp (op_regs OP_LD caller_regs Rsp m))"
  shows "gpr m' r = (if r = Rsp then gpr m Rsp else words m (gpr m Rsp + regoff r))"
  using reg_lists [of r] unfolding assms by (auto simp: gpr_op_regs sp_not_listed)

lemma load_status_simps [simp]:
  "xepc (load_status_regs Rt0 m) = words m (gpr m Rsp + 248)" "xstatus (load_status_regs Rt0 m) = words m (gpr m Rsp + 256)"
  "xscratch (load_status_regs Rt0 m) = words m (gpr m Rsp + 264)" "words (load_status_regs Rt0 m) = words m"
  "cenv (load_status_regs Rt0 m) = cenv m" "gpr (load_status_regs Rt0 m) = (gpr m)(Rt0 := words m (gpr m Rsp + 264))"
  by (simp_all add: load_status_regs_def Let_def)

lemma k_trap_end_context:
  "context_of (k_trap_end m) = frame_at (words m) (gpr m Rsp)" "cenv (k_trap_end m) = cenv m"
  by (simp_all add: k_trap_end_def Let_def load_all_gpr [OF refl] frame_at_def context_of_def)

text \<open>Both entries leave the interrupted context in the frame.\<close>

lemma k_trap_start_kernel:
  assumes "xscratch m = 0"
  obtains m1 where "k_trap_start c la tbl m = k_trap_common c la tbl m1" "frame_at (words m1) (gpr m1 Rsp) = context_of m"
    "\<And>r. r \<noteq> Rsp \<Longrightarrow> r \<noteq> Rt0 \<Longrightarrow> gpr m1 r = gpr m r" "xcause m1 = xcause m" "xepc m1 = xepc m" "cenv m1 = cenv m"
proof -
  let ?m0 = "set_gpr Rsp (gpr m Rsp - 272) m"
  let ?m1 = "OP_ST Rt0 (regoff Rsp) Rsp (set_gpr Rt0 (gpr (save_regs ?m0) Rsp + 272) (save_regs ?m0))"
  have sw: "csrrw_sp (csrrw_sp m) = m" by (simp add: csrrw_sp_def)
  have "k_trap_start c la tbl m = k_trap_common c la tbl ?m1"
    using assms by (simp add: k_trap_start_def k_trap_in_kernel_def Let_def save_regs_def sw)
      (simp add: csrrw_sp_def)
  moreover have "frame_at (words ?m1) (gpr ?m1 Rsp) = context_of m"
    using save_regs_frame(1) [of ?m0 "gpr m Rsp"] by (simp add: context_of_def)
  ultimately show thesis
    by (rule that) simp_all
qed

lemma k_trap_start_user:
  assumes "xscratch m \<noteq> 0"
  obtains m1 where "k_trap_start c la tbl m = do {
      m \<leftarrow> c C_set_current_user_regs m1;
      k_trap_common c la tbl (op_regs OP_LD [Ra0, Ra1, Ra2, Ra3, Ra4, Ra5, Ra6, Ra7] Rsp m) }"
    "gpr m1 Rsp = xscratch m - 272" "gpr m1 Ra0 = xscratch m - 272"
    "frame_at (words m1) (xscratch m - 272) = context_of m" "xcause m1 = xcause m" "xepc m1 = xepc m" "cenv m1 = cenv m"
proof -
  let ?mc = "csrrw_sp m"
  let ?m0 = "set_gpr Rsp (gpr ?mc Rsp - 272) ?mc"
  let ?m1 = "OP_ST Rt0 (regoff Rsp) Rsp (set_gpr Rt0 (xscratch (save_regs ?m0)) (save_regs ?m0))"
  let ?m2 = "OP_ST Rt0 264 Rsp (set_gpr Rt0 (gpr ?m1 Rsp + 272) ?m1)"
  let ?m3 = "mv Ra0 Rsp (?m2\<lparr>xscratch := 0\<rparr>)"
  have "k_trap_start c la tbl m = do {
      m \<leftarrow> c C_set_current_user_regs ?m3;
      k_trap_common c la tbl (op_regs OP_LD [Ra0, Ra1, Ra2, Ra3, Ra4, Ra5, Ra6, Ra7] Rsp m) }"
    using assms unfolding k_trap_start_def k_trap_in_user_def Let_def save_regs_def by (simp add: csrrw_sp_def)
  moreover have "frame_at (words ?m3) (xscratch m - 272) = context_of m"
    using save_regs_frame(2) [of ?m0 "gpr m Rsp" "xscratch m"] by (simp add: context_of_def csrrw_sp_def mv_def)
  moreover have "gpr ?m3 Rsp = xscratch m - 272" "gpr ?m3 Ra0 = xscratch m - 272"
    "xcause ?m3 = xcause m" "xepc ?m3 = xepc m" "cenv ?m3 = cenv m"
    by (simp_all add: mv_def csrrw_sp_def)
  ultimately show thesis
    using that by blast
qed

lemma c_abi_map:
  assumes "c_abi c sem" and g: "\<And>m' v fr e. gpr m' Ra0 = v \<Longrightarrow> gpr m' Rsp = gpr m Rsp \<Longrightarrow>
      frame_at (words m') (gpr m Rsp) = fr \<Longrightarrow> cenv m' = e \<Longrightarrow> g m' = h v fr e"
  shows "map_option g (c f m) =
    map_option (\<lambda>(v, fr, e). h v fr e) (sem f (map (gpr m) (c_args f)) (frame_at (words m) (gpr m Rsp)) (cenv m))"
proof (cases "sem f (map (gpr m) (c_args f)) (frame_at (words m) (gpr m Rsp)) (cenv m)")
  case (Some x)
  obtain v fr e where x: "x = (v, fr, e)" by (cases x)
  with Some assms(1) obtain m' where "c f m = Some m'" "gpr m' Ra0 = v" "gpr m' Rsp = gpr m Rsp"
    "frame_at (words m') (gpr m Rsp) = fr" "cenv m' = e"
    unfolding c_abi_def by (auto dest!: spec [of _ f] spec [of _ m])
  with Some x g show ?thesis by simp
qed (use assms(1) in \<open>auto simp: c_abi_def dest!: spec [of _ f] spec [of _ m]\<close>)

lemma frame_upd:
  "frame_at (w(b + 248 := v)) b = (frame_at w b)\<lparr>rv_mepc := v\<rparr>"
  "frame_at (w(b + regoff Ra0 := v)) b = (frame_at w b)\<lparr>rv_a0 := v\<rparr>"
  by (simp_all add: frame_at_def regoff_inj regoff_status regoff_status [symmetric])

lemma bind_Some_map: "x \<bind> (\<lambda>(v, fr, e). Some (h v fr e)) = map_option (\<lambda>(v, fr, e). h v fr e) x"
  by (cases x) auto

lemma bind_Some_snd: "x \<bind> (\<lambda>(v, y). Some y) = map_option (\<lambda>(v, y). id y) x"
  by (cases x) auto

lemma map_bind_Some: "map_option g (x \<bind> (\<lambda>a. Some (h a))) = map_option (g \<circ> h) x"
  by (cases x) simp_all

lemma syscall_end_result:
  "gpr m' Ra0 = v \<Longrightarrow> gpr m' Rsp = b \<Longrightarrow> frame_at (words m') b = fr \<Longrightarrow> cenv m' = e \<Longrightarrow>
     trap_result (k_trap_syscall_end m') = (fr\<lparr>rv_a0 := v\<rparr>, e)"
  by (simp add: k_trap_syscall_end_def k_trap_end_context frame_upd)

lemma k_trap_syscall_unknown_result:
  assumes "c_abi c sem"
  shows "map_option trap_result (k_trap_syscall_unknown c m) =
    map_option (\<lambda>(v, fr, e). (fr\<lparr>rv_a0 := v\<rparr>, e))
      (sem C_sys_unknown (map (gpr m) [Ra7, Ra0, Ra1, Ra2, Ra3, Ra4, Ra5]) (frame_at (words m) (gpr m Rsp)) (cenv m))"
proof -
  define m1 where "m1 = mv Ra0 Ra7 (mv Ra1 Ra0 (mv Ra2 Ra1 (mv Ra3 Ra2 (mv Ra4 Ra3 (mv Ra5 Ra4 (mv Ra6 Ra5 m))))))"
  have m1: "map (gpr m1) (c_args C_sys_unknown) = map (gpr m) [Ra7, Ra0, Ra1, Ra2, Ra3, Ra4, Ra5]"
    "words m1 = words m" "cenv m1 = cenv m" "gpr m1 Rsp = gpr m Rsp"
    by (simp_all add: m1_def mv_def)
  have "map_option (trap_result \<circ> k_trap_syscall_end) (c C_sys_unknown m1) =
    map_option (\<lambda>(v, fr, e). (fr\<lparr>rv_a0 := v\<rparr>, e))
      (sem C_sys_unknown (map (gpr m1) (c_args C_sys_unknown)) (frame_at (words m1) (gpr m1 Rsp)) (cenv m1))"
    by (rule c_abi_map [OF assms]) (simp add: syscall_end_result)
  then show ?thesis
    by (simp only: m1) (simp add: k_trap_syscall_unknown_def Let_def m1_def [symmetric] map_bind_Some)
qed

lemma syscall_number:
  fixes n :: u64
  shows "sint n < 0 \<or> 448 \<le> sint n \<longleftrightarrow> \<not> n < 448"
proof (cases "bit (uint n) 63")
  case True
  then have "2 ^ 63 \<le> uint n"
    by (metis bit_take_bit_iff less_irrefl not_le take_bit_int_eq_self unsigned_greater_eq)
  then have "\<not> n < 448" by (simp add: word_less_def)
  with True show ?thesis by (simp add: sint_uint signed_take_bit_negative_iff)
next
  case False
  have "take_bit (Suc 63) (uint n) = uint n" by (rule bintr_uint) simp
  with False have "sint n = uint n"
    by (simp only: take_bit_Suc_from_most) (simp add: sint_uint signed_take_bit_eq_if_positive)
  then show ?thesis by (auto simp: word_less_def)
qed

lemma top_bit:
  fixes w :: u64
  shows "w AND NOT (mask 63) = 0 \<longleftrightarrow> w < 0x8000000000000000"
proof -
  have "w AND NOT (mask 63) = 0 \<longleftrightarrow> take_bit 63 w = w"
    by (auto simp: bit_eq_iff bit_simps)
  then show ?thesis by (simp add: word_unat_eq_iff unsigned_take_bit_eq take_bit_nat_eq_self_iff word_less_nat_alt)
qed

lemma table_index:
  fixes n :: u64
  assumes "n < 448"
  shows "unat ((la + push_bit 3 n - la) div 8) = unat n"
proof -
  have "unat n < 448" using assms by (simp add: word_less_nat_alt)
  then have "unat (n * 8) = unat n * 8" by (subst unat_mult_lem [THEN iffD1]) simp_all
  then show ?thesis by (simp add: push_bit_eq_mult unat_div)
qed

lemma k_trap_syscall_result:
  assumes "c_abi c sem" "u = frame_at (words m) (gpr m Rsp)" "xepc m = rv_mepc u"
    "gpr m Ra0 = rv_a0 u" "gpr m Ra1 = rv_a1 u" "gpr m Ra2 = rv_a2 u" "gpr m Ra3 = rv_a3 u" "gpr m Ra4 = rv_a4 u"
    "gpr m Ra5 = rv_a5 u" "gpr m Ra7 = rv_a7 u" "xcause m = 11"
  shows "map_option trap_result (k_trap_syscall c la tbl m) = trap_handler sem tbl (xcause m) u (cenv m)"
proof -
  define m1 where "m1 = OP_ST Rt0 248 Rsp (set_gpr Rt0 (xepc m + 4) (set_gpr Rt0 (xepc m) m))"
  have m1: "frame_at (words m1) (gpr m1 Rsp) = u\<lparr>rv_mepc := rv_mepc u + 4\<rparr>"
    by (simp add: m1_def frame_upd assms(2, 3))
  have bo: "map_option trap_result (k_trap_syscall_unknown c m') = trap_handler sem tbl (xcause m) u (cenv m)"
    if "syscall_fn tbl (rv_a7 u) = None" "words m' = words m1" "cenv m' = cenv m" "\<And>r. r \<noteq> Rt0 \<Longrightarrow> r \<noteq> Rt1 \<Longrightarrow> gpr m' r = gpr m1 r" for m'
    using that(1-3) that(4) [of Rsp] that(4) [of Ra0] that(4) [of Ra1] that(4) [of Ra2] that(4) [of Ra3] that(4) [of Ra4]
      that(4) [of Ra5] that(4) [of Ra7] assms(4-) m1
    by (simp add: k_trap_syscall_unknown_result [OF assms(1)] trap_handler_def m1_def bind_Some_map)
  have n: "gpr m1 Ra7 = rv_a7 u" "cenv m1 = cenv m" by (simp_all add: m1_def assms(10))
  show ?thesis
  proof (cases "syscall_fn tbl (rv_a7 u)")
    case None
    then have "sint (rv_a7 u) < 0 \<or> 448 \<le> sint (rv_a7 u) \<or>
      tbl ! unat ((la + push_bit 3 (rv_a7 u) - la) div 8) = 0"
      using syscall_number [of "rv_a7 u"] table_index [of "rv_a7 u" la] by (auto simp: syscall_fn_def split: if_splits)
    then show ?thesis
      unfolding k_trap_syscall_def Let_def
      using n by (auto simp: m1_def [symmetric] bo [OF None] simp del: OP_ST_simps)
  next
    case (Some a)
    then have a: "\<not> sint (rv_a7 u) < 0" "\<not> 448 \<le> sint (rv_a7 u)" "a \<noteq> 0"
      "tbl ! unat ((la + push_bit 3 (rv_a7 u) - la) div 8) = a"
      using syscall_number [of "rv_a7 u"] table_index [of "rv_a7 u" la] by (auto simp: syscall_fn_def split: if_splits)
    let ?m2 = "set_gpr Rt0 a (set_gpr Rt0 (la + push_bit 3 (rv_a7 u)) (set_gpr Rt1 (push_bit 3 (rv_a7 u))
      (set_gpr Rt0 la (set_gpr Rt0 448 m1))))"
    have "map_option (trap_result \<circ> k_trap_syscall_end) (c (C_at a) ?m2) =
      map_option (\<lambda>(v, fr, e). (fr\<lparr>rv_a0 := v\<rparr>, e))
        (sem (C_at a) (map (gpr ?m2) (c_args (C_at a))) (frame_at (words ?m2) (gpr ?m2 Rsp)) (cenv ?m2))"
      by (rule c_abi_map [OF assms(1)]) (simp add: syscall_end_result)
    also have "\<dots> = trap_handler sem tbl (xcause m) u (cenv m)"
      using Some m1 assms(4-) by (simp add: trap_handler_def bind_Some_map m1_def)
    finally show ?thesis
      using a n unfolding k_trap_syscall_def Let_def
      by (simp add: m1_def [symmetric] map_bind_Some del: OP_ST_simps)
  qed
qed

lemma k_trap_common_result:
  assumes "c_abi c sem" "u = frame_at (words m) (gpr m Rsp)" "xepc m = rv_mepc u"
    "gpr m Ra0 = rv_a0 u" "gpr m Ra1 = rv_a1 u" "gpr m Ra2 = rv_a2 u" "gpr m Ra3 = rv_a3 u" "gpr m Ra4 = rv_a4 u"
    "gpr m Ra5 = rv_a5 u" "gpr m Ra7 = rv_a7 u"
  shows "map_option trap_result (k_trap_common c la tbl m) = trap_handler sem tbl (xcause m) u (cenv m)"
proof (cases "xcause m = 11")
  case True
  let ?m1 = "set_gpr Rt1 11 (set_gpr Rt0 (xcause m) m)"
  have "map_option trap_result (k_trap_syscall c la tbl ?m1) = trap_handler sem tbl (xcause ?m1) u (cenv ?m1)"
    by (rule k_trap_syscall_result [OF assms(1)]) (simp_all add: assms(2-) True)
  then show ?thesis
    using True by (simp add: k_trap_common_def Let_def)
next
  case False
  have call: "map_option (trap_result \<circ> k_trap_end) (c f (set_gpr Ra0 (xcause m) m')) =
      map_option (\<lambda>(v, fr, e). (fr, e)) (sem f [xcause m] u (cenv m))"
    if "c_args f = [Ra0]" "words m' = words m" "cenv m' = cenv m" "gpr m' Rsp = gpr m Rsp" for f m'
    using c_abi_map [OF assms(1), of "set_gpr Ra0 (xcause m) m'" "trap_result \<circ> k_trap_end" "\<lambda>v fr e. (fr, e)" f] that
    by (simp add: k_trap_end_context assms(2))
  show ?thesis
    using False top_bit [of "xcause m"]
    by (simp add: k_trap_common_def Let_def trap_handler_def k_trap_interrupt_def k_trap_exception_def map_bind_Some
        call bind_Some_map bind_Some_snd del: id_apply)
qed

lemma trap_user_refines:
  assumes "c_abi c sem" and False: "xscratch m \<noteq> 0"
  shows "map_option trap_result (k_trap_start c la tbl m) = trap_spec sem tbl m"
proof -
  obtain m1 where m1: "k_trap_start c la tbl m = do {
      m \<leftarrow> c C_set_current_user_regs m1;
      k_trap_common c la tbl (op_regs OP_LD [Ra0, Ra1, Ra2, Ra3, Ra4, Ra5, Ra6, Ra7] Rsp m) }"
    "gpr m1 Rsp = xscratch m - 272" "gpr m1 Ra0 = xscratch m - 272"
    "frame_at (words m1) (xscratch m - 272) = context_of m" "xcause m1 = xcause m" "xepc m1 = xepc m" "cenv m1 = cenv m"
    using k_trap_start_user [OF False, of c la tbl] by blast
  have abi: "case sem C_set_current_user_regs [xscratch m - 272] (context_of m) (cenv m) of
        None \<Rightarrow> c C_set_current_user_regs m1 = None
      | Some (v, fr, e) \<Rightarrow> \<exists>m'. c C_set_current_user_regs m1 = Some m' \<and> gpr m' Rsp = xscratch m - 272 \<and>
          frame_at (words m') (xscratch m - 272) = context_of m \<and> cenv m' = e \<and> xcause m' = xcause m \<and> xepc m' = xepc m"
    using assms(1) m1 unfolding c_abi_def
    by (auto dest!: spec [of _ C_set_current_user_regs] spec [of _ m1] split: option.splits)
  show ?thesis
  proof (cases "sem C_set_current_user_regs [xscratch m - 272] (context_of m) (cenv m)")
    case None
    with abi False show ?thesis by (simp add: m1(1) trap_spec_def)
  next
    case (Some x)
    obtain v fr e where x: "x = (v, fr, e)" by (cases x)
    with Some abi obtain m2 where m2: "c C_set_current_user_regs m1 = Some m2" "gpr m2 Rsp = xscratch m - 272"
      "frame_at (words m2) (xscratch m - 272) = context_of m" "cenv m2 = e" "xcause m2 = xcause m" "xepc m2 = xepc m"
      by auto
    define m3 where "m3 = op_regs OP_LD [Ra0, Ra1, Ra2, Ra3, Ra4, Ra5, Ra6, Ra7] Rsp m2"
    have m3: "context_of m = frame_at (words m3) (gpr m3 Rsp)" "xepc m3 = rv_mepc (context_of m)" "xcause m3 = xcause m" "cenv m3 = e"
      using m2 by (simp_all add: m3_def context_of_def)
    have as: "gpr m3 Ra0 = rv_a0 (context_of m)" "gpr m3 Ra1 = rv_a1 (context_of m)" "gpr m3 Ra2 = rv_a2 (context_of m)"
      "gpr m3 Ra3 = rv_a3 (context_of m)" "gpr m3 Ra4 = rv_a4 (context_of m)" "gpr m3 Ra5 = rv_a5 (context_of m)"
      "gpr m3 Ra7 = rv_a7 (context_of m)"
      unfolding m2(3) [symmetric] by (simp_all add: m3_def frame_at_def m2(2))
    show ?thesis
      using k_trap_common_result [OF assms(1) m3(1, 2) as, of la tbl] Some x False
      by (simp add: m1(1) m2(1) m3_def [symmetric] m3(3, 4) trap_spec_def del: op_regs.simps)
  qed
qed

lemma k_trap_start_refines:
  assumes "c_abi c sem"
  shows "map_option trap_result (k_trap_start c la tbl m) = trap_spec sem tbl m"
proof (cases "xscratch m = 0")
  case True
  obtain m1 where m1: "k_trap_start c la tbl m = k_trap_common c la tbl m1" "frame_at (words m1) (gpr m1 Rsp) = context_of m"
    "\<And>r. r \<noteq> Rsp \<Longrightarrow> r \<noteq> Rt0 \<Longrightarrow> gpr m1 r = gpr m r" "xcause m1 = xcause m" "xepc m1 = xepc m" "cenv m1 = cenv m"
    using k_trap_start_kernel [OF True, of c la tbl] by blast
  show ?thesis
    using k_trap_common_result [OF assms m1(2) [symmetric], of la tbl] True m1
    by (simp add: trap_spec_def context_of_def)
qed (rule trap_user_refines [OF assms])

lemma frame_put [simp]: "frame_at (put_frame fr b w) b = fr"
  by (simp add: frame_at_def put_frame_def regoff_def frame_words_def)

lemma c_abi_run:
  assumes "\<And>as fr e v fr' e'. sem C_set_current_user_regs as fr e = Some (v, fr', e') \<Longrightarrow> fr' = fr"
  shows "c_abi (c_run sem) sem"
  using assms by (auto simp: c_abi_def c_run_def split: option.splits)

lemma a0_off: "Ra0 \<notin> set callee_regs" "Ra0 \<notin> set special_regs"
  by (simp_all add: callee_regs_def special_regs_def)

text \<open>The context a new thread starts from is the caller's.\<close>

lemma k_arch_copy_current_context_frame:
  "frame_at (words (k_arch_copy_current_context m)) (gpr m Ra0) = context_of m"
  "gpr (k_arch_copy_current_context m) = gpr m"
proof -
  let ?m1 = "op_regs OP_ST special_regs Ra0 (op_regs OP_ST callee_regs Ra0 (op_regs OP_ST caller_regs Ra0
    (OP_ST Rsp (regoff Rsp) Ra0 m)))"
  have w: "words ?m1 (gpr m Ra0 + regoff r) = gpr m r" for r
    using reg_lists [of r] by (cases "r = Rsp") (auto simp: words_op_regs words_op_regs_in regoff_inj sp_not_listed)
  then show "frame_at (words (k_arch_copy_current_context m)) (gpr m Ra0) = context_of m"
    "gpr (k_arch_copy_current_context m) = gpr m"
    by (simp_all add: k_arch_copy_current_context_def Let_def frame_at_def context_of_def regoff_status)
qed

text \<open>
  C32. A trap refines its handler.  Whatever code a trap interrupts, in user mode or in the kernel, the
  assembly saves its context in a frame, runs the C function the cause and the call number select
  with the arguments of the interrupted code, and resumes the context the C code left in that frame.
  Every register, the program counter, the status and the scratch register go through the frame
  unchanged unless the C code changed them; a system call also advances the program counter by 4 and
  replaces \<open>a0\<close> by its result.
\<close>

theorem trap_refines:
  assumes "c_abi c sem"
  shows "map_option trap_result (k_trap_start c la tbl m) = trap_spec sem tbl m"
  by (rule k_trap_start_refines [OF assms])

theorem trap_refines_witness:
  "map_option trap_result (k_trap_start (c_run (\<lambda>f as fr e. Some (0, fr, Suc e))) 0 [] (example_machine 5 0x8000000000000007 (0 :: nat))) =
     Some (context_of (example_machine 5 0x8000000000000007 (0 :: nat)), 2)"
proof -
  have "c_abi (c_run (\<lambda>f as fr e. Some (0, fr, Suc e))) (\<lambda>f as fr e. Some (0, fr, Suc e))"
    by (rule c_abi_run) simp
  from trap_refines [OF this] show ?thesis
    by (simp add: trap_spec_def trap_handler_def example_machine_def)
qed

end
