(* ===== verification/Syscall.thy ===== *)
theory Syscall
  imports Trap Proc Futex File Mmap
begin

section \<open>System call dispatch\<close>

text \<open>
  The table \<open>k_table_syscalls\<close> of \<^verbatim>\<open>sys/libc/support.c\<close> in the 64-bit build, the wrappers of
  \<^verbatim>\<open>include/bmetal/syscall.h\<close>, the identity calls of \<^verbatim>\<open>sys/syscall.c\<close>, and the C code behind a
  trap: the calls that work on the kernel state of \<open>Proc\<close> and \<open>Futex\<close>.  The calls that reach user
  structures or files are the field \<open>se_other\<close>, their models are in \<open>Clock\<close>, \<open>File\<close> and \<open>Mmap\<close>.
  The handlers of interrupts and exceptions are the field \<open>se_event\<close>.
\<close>

datatype syscall = Sys_uname | Sys_prlimit64 | Sys_getuid | Sys_geteuid | Sys_getgid | Sys_getegid | Sys_getpid |
    Sys_gettid | Sys_clock_gettime64 | Sys_clock_settime64 | Sys_gettimeofday | Sys_settimeofday |
    Sys_getrandom | Sys_openat | Sys_close | Sys_ioctl | Sys_read | Sys_write | Sys_writev |
    Sys_brk | Sys_mmap | Sys_munmap | Sys_madvise | Sys_mprotect | Sys_clone | Sys_futex64 |
    Sys_set_robust_list | Sys_set_tid_address | Sys_exit_group | Sys_exit | Sys_reboot | Sys_clone3
    | Sys_context_switch

definition all_syscalls :: "syscall list" where
  "all_syscalls =
     [Sys_uname, Sys_prlimit64, Sys_getuid, Sys_geteuid, Sys_getgid, Sys_getegid, Sys_getpid,
      Sys_gettid, Sys_clock_gettime64, Sys_clock_settime64, Sys_gettimeofday, Sys_settimeofday,
      Sys_getrandom, Sys_openat, Sys_close, Sys_ioctl, Sys_read, Sys_write, Sys_writev, Sys_brk,
      Sys_mmap, Sys_munmap, Sys_madvise, Sys_mprotect, Sys_clone, Sys_futex64, Sys_set_robust_list,
      Sys_set_tid_address, Sys_exit_group, Sys_exit, Sys_reboot, Sys_clone3, Sys_context_switch]"

text \<open>\<open>entry\<close> gives the address of a wrapper.\<close>

definition syscall_entries :: "(nat \<times> syscall) list" where
  "syscall_entries =
     [(160, Sys_uname), (261, Sys_prlimit64), (174, Sys_getuid), (175, Sys_geteuid), (176,
      Sys_getgid), (177, Sys_getegid), (172, Sys_getpid), (178, Sys_gettid), (113,
      Sys_clock_gettime64), (112, Sys_clock_settime64), (169, Sys_gettimeofday), (170,
      Sys_settimeofday), (278, Sys_getrandom), (56, Sys_openat), (57, Sys_close), (29, Sys_ioctl),
      (63, Sys_read), (64, Sys_write), (66, Sys_writev), (214, Sys_brk), (222, Sys_mmap), (215,
      Sys_munmap), (233, Sys_madvise), (226, Sys_mprotect), (220, Sys_clone), (98, Sys_futex64),
      (99, Sys_set_robust_list), (96, Sys_set_tid_address), (94, Sys_exit_group), (93, Sys_exit),
      (142, Sys_reboot), (435, Sys_clone3), (441, Sys_context_switch)]"

fun fill_table :: "(syscall \<Rightarrow> u64) \<Rightarrow> (nat \<times> syscall) list \<Rightarrow> u64 list \<Rightarrow> u64 list" where
  "fill_table entry [] t = t"
| "fill_table entry ((n, f) # es) t = fill_table entry es (t[n := entry f])"

definition k_table_syscalls :: "(syscall \<Rightarrow> u64) \<Rightarrow> u64 list" where
  "k_table_syscalls entry = fill_table entry syscall_entries (replicate 448 0)"

subsection \<open>Identity calls\<close>

definition k_sys_getuid :: int where
  "k_sys_getuid = 0"

definition k_sys_geteuid :: int where
  "k_sys_geteuid = 0"

definition k_sys_getgid :: int where
  "k_sys_getgid = 0"

definition k_sys_getegid :: int where
  "k_sys_getegid = 0"

definition k_sys_getpid :: "'h kernel \<Rightarrow> int option" where
  "k_sys_getpid k = k_proc_get_pid k"

definition k_sys_gettid :: "int \<Rightarrow> 'h kernel \<Rightarrow> int option" where
  "k_sys_gettid hart k = k_thread_get_tid k hart"

text \<open>\<open>k_sys_futex32\<close> converts the timeout, which the futex code does not read, and calls the 64-bit one.\<close>

definition k_sys_futex32 ::
    "kconfig \<Rightarrow> 'h k_cpu_driver_ops \<Rightarrow> int \<Rightarrow> (u64 \<Rightarrow> u32 \<Rightarrow> u32 \<Rightarrow> 'h kernel \<Rightarrow> (int \<times> 'h kernel) option) \<Rightarrow>
     u64 \<Rightarrow> u32 \<Rightarrow> u32 \<Rightarrow> u32 \<Rightarrow> 'h kernel \<Rightarrow> (int \<times> 'h kernel) option" where
  "k_sys_futex32 cfg ops hart wait uaddr op val val3 k = k_sys_futex64 cfg ops hart wait uaddr op val val3 k"

subsection \<open>The wrappers\<close>

record 'h sys_env =
  se_cfg :: kconfig
  se_layout :: layout
  se_ops :: "'h k_cpu_driver_ops"
  se_reset :: "'h k_reset_driver_ops option"
  se_wait :: "u64 \<Rightarrow> u32 \<Rightarrow> u32 \<Rightarrow> 'h kernel \<Rightarrow> (int \<times> 'h kernel) option"
  se_ctx :: k_arch_user_regs
  se_junk :: k_clone_args
  se_other :: "syscall \<Rightarrow> u64 list \<Rightarrow> 'h kernel \<Rightarrow> (u64 \<times> 'h kernel) option"
  se_event :: "bool \<Rightarrow> u64 \<Rightarrow> k_arch_user_regs \<Rightarrow> 'h kernel \<Rightarrow> (u64 \<times> k_arch_user_regs \<times> 'h kernel) option"

definition ret :: "(int \<times> 'h kernel) option \<Rightarrow> (u64 \<times> 'h kernel) option" where
  "ret r = map_option (\<lambda>(v, k). (of_int v, k)) r"

definition k_sys_wrap :: "'h sys_env \<Rightarrow> int \<Rightarrow> syscall \<Rightarrow> u64 list \<Rightarrow> 'h kernel \<Rightarrow> (u64 \<times> 'h kernel) option" where
  "k_sys_wrap se hart f as k =
     (let a = (\<lambda>n. as ! n); i = (\<lambda>n. ucast (as ! n) :: u32) in
      case f of
        Sys_getuid \<Rightarrow> Some (of_int k_sys_getuid, k)
      | Sys_geteuid \<Rightarrow> Some (of_int k_sys_geteuid, k)
      | Sys_getgid \<Rightarrow> Some (of_int k_sys_getgid, k)
      | Sys_getegid \<Rightarrow> Some (of_int k_sys_getegid, k)
      | Sys_getpid \<Rightarrow> do { v \<leftarrow> k_sys_getpid k; Some (of_int v, k) }
      | Sys_gettid \<Rightarrow> do { v \<leftarrow> k_sys_gettid hart k; Some (of_int v, k) }
      | Sys_mprotect \<Rightarrow> Some (k_sys_mprotect (a 0) (a 1) (sint (i 2)), k)
      | Sys_clone \<Rightarrow> ret (k_sys_clone (se_cfg se) (se_layout se) (se_ops se) hart (se_ctx se) (se_junk se)
                       (a 0) (a 1) (a 2) (a 3) (a 4) k)
      | Sys_futex64 \<Rightarrow> ret (k_sys_futex64 (se_cfg se) (se_ops se) hart (se_wait se) (a 0) (i 1) (i 2) (i 5) k)
      | Sys_set_robust_list \<Rightarrow> ret (k_sys_set_robust_list hart (a 0) (a 1) k)
      | Sys_set_tid_address \<Rightarrow> ret (k_sys_set_tid_address hart (a 0) k)
      | Sys_exit_group \<Rightarrow> ret (k_sys_exit_group (se_cfg se) (se_layout se) (se_ops se) hart (i 0) k)
      | Sys_exit \<Rightarrow> ret (k_sys_exit (se_cfg se) (se_layout se) (se_ops se) hart (i 0) k)
      | Sys_reboot \<Rightarrow> ret (Some (k_sys_reboot (se_reset se) (i 0) (i 1) (i 2) k))
      | Sys_context_switch \<Rightarrow> ret (k_sys_context_switch hart k)
      | _ \<Rightarrow> se_other se f as k)"

subsection \<open>The C code behind a trap\<close>

definition k_cpu_set_user_regs :: "cptr \<Rightarrow> k_arch_user_regs \<Rightarrow> 'h kernel \<Rightarrow> 'h kernel" where
  "k_cpu_set_user_regs c fr = upd_cpu c (cpu_regs_update (\<lambda>_. fr))"

definition k_cpu_set_current_user_regs :: "int \<Rightarrow> k_arch_user_regs \<Rightarrow> 'h kernel \<Rightarrow> 'h kernel option" where
  "k_cpu_set_current_user_regs hart fr k = do {
     c \<leftarrow> k_cpu_get_current k hart;
     Some (k_cpu_set_user_regs c fr k)
   }"

text \<open>
  The pointer \<open>regs\<close> of the current CPU names the frame of the trap, so \<open>cpu_regs\<close> is the frame: it is
  read when the C code starts and written back when it returns.
\<close>

definition kernel_sem :: "'h sys_env \<Rightarrow> int \<Rightarrow> (syscall \<Rightarrow> u64) \<Rightarrow> 'h kernel c_sem" where
  "kernel_sem se hart entry f as fr k =
     (case f of
        C_set_current_user_regs \<Rightarrow> do {
          k \<leftarrow> k_cpu_set_current_user_regs hart fr k;
          Some (hd as, fr, k)
        }
      | C_sys_unknown \<Rightarrow> Some (of_int (k_sys_unknown (sint (hd as))), fr, k)
      | C_interrupt \<Rightarrow> se_event se True (hd as) fr k
      | C_exception \<Rightarrow> se_event se False (hd as) fr k
      | C_at a \<Rightarrow> do {
          s \<leftarrow> find (\<lambda>s. entry s = a) all_syscalls;
          c \<leftarrow> k_cpu_get_current k hart;
          (v, k) \<leftarrow> k_sys_wrap se hart s as (k_cpu_set_user_regs c fr k);
          Some (v, cpu_regs (cpu_dev k c), k)
        })"

subsection \<open>Reference definitions\<close>

abbreviation syscall_args :: "'e machine \<Rightarrow> u64 list" where
  "syscall_args m \<equiv> map (gpr m) [Ra0, Ra1, Ra2, Ra3, Ra4, Ra5]"

text \<open>The context a system call resumes: the next instruction.\<close>

definition after_ecall :: "'e machine \<Rightarrow> k_arch_user_regs" where
  "after_ecall m = (context_of m)\<lparr>rv_mepc := xepc m + 4\<rparr>"

text \<open>An address for every wrapper.\<close>

fun example_entry_index :: "syscall list \<Rightarrow> syscall \<Rightarrow> nat" where
  "example_entry_index [] f = 1"
| "example_entry_index (g # gs) f = (if f = g then 1 else Suc (example_entry_index gs f))"

definition example_entry :: "syscall \<Rightarrow> u64" where
  "example_entry f = of_nat (example_entry_index all_syscalls f)"

definition example_env :: "unit sys_env" where
  "example_env =
     \<lparr>se_cfg = riscv_qemu_virt_64, se_layout = example_layout, se_ops = example_ops, se_reset = None,
      se_wait = (\<lambda>_ _ _ k. Some (0, k)), se_ctx = regs0, se_junk = example_args, se_other = (\<lambda>_ _ k. Some (0, k)),
      se_event = (\<lambda>_ _ fr k. Some (0, fr, k))\<rparr>"

subsection \<open>The table and the traps\<close>

lemma fill_table_nth:
  assumes "distinct (map fst es)" "\<forall>e\<in>set es. fst e < length t" "n < length t"
  shows "fill_table entry es t ! n = (case map_of es n of Some f \<Rightarrow> entry f | None \<Rightarrow> t ! n)"
  using assms
proof (induction entry es t rule: fill_table.induct)
  case (2 entry k f es t)
  have "map_of es k = None" using 2(2) by (simp add: map_of_eq_None_iff)
  with 2 show ?case by (auto split: option.splits)
qed simp

lemma syscall_entries_distinct: "distinct (map fst syscall_entries)" "\<forall>e\<in>set syscall_entries. fst e < 448"
  by (simp_all add: syscall_entries_def)

lemma k_table_syscalls_nth:
  "n < 448 \<Longrightarrow> k_table_syscalls entry ! n = (case map_of syscall_entries n of Some f \<Rightarrow> entry f | None \<Rightarrow> 0)"
  unfolding k_table_syscalls_def
  by (subst fill_table_nth) (simp_all add: syscall_entries_distinct split: option.splits)

lemma syscall_fn_table:
  assumes "\<forall>f. entry f \<noteq> 0"
  shows "syscall_fn (k_table_syscalls entry) n = map_option entry (map_of syscall_entries (unat n))"
proof (cases "n < 448")
  case True
  then have "unat n < 448" by (simp add: word_less_nat_alt)
  with True assms show ?thesis by (simp add: syscall_fn_def k_table_syscalls_nth split: option.splits)
next
  case False
  then have "map_of syscall_entries (unat n) = None"
    using syscall_entries_distinct(2) by (auto simp: map_of_eq_None_iff word_less_nat_alt)
  with False show ?thesis by (simp add: syscall_fn_def)
qed

lemma kernel_sem_set_regs:
  "kernel_sem se hart entry C_set_current_user_regs as fr k = Some (v, fr', k') \<Longrightarrow> fr' = fr"
  by (auto simp: kernel_sem_def split: Option.bind_splits)

lemma find_entry:
  assumes "inj entry"
  shows "find (\<lambda>s. entry s = entry f) all_syscalls = Some f"
  using inj_eq [OF assms] by (cases f) (simp_all add: all_syscalls_def)

lemma set_user_regs_simps [simp]:
  "k_ti (k_cpu_set_user_regs c f k) = k_ti k" "lock_smp (k_cpu_set_user_regs c f k) = lock_smp k"
  "cpu_dev (k_cpu_set_user_regs c f k) c = (cpu_dev k c)\<lparr>cpu_regs := f\<rparr>"
  by (simp_all add: k_cpu_set_user_regs_def upd_cpu_def)

lemma set_user_regs_again: "k_cpu_set_user_regs c f (k_cpu_set_user_regs c g k) = k_cpu_set_user_regs c f k"
  by (simp add: k_cpu_set_user_regs_def upd_cpu_def)

lemma get_current_set_user_regs: "k_cpu_get_current (k_cpu_set_user_regs c f k) hart = k_cpu_get_current k hart"
  by (rule k_cpu_get_current_cong) (simp_all add: k_cpu_set_user_regs_def upd_cpu_def)

lemma context_of_fields:
  "rv_a0 (context_of m) = gpr m Ra0" "rv_a1 (context_of m) = gpr m Ra1" "rv_a2 (context_of m) = gpr m Ra2"
  "rv_a3 (context_of m) = gpr m Ra3" "rv_a4 (context_of m) = gpr m Ra4" "rv_a5 (context_of m) = gpr m Ra5"
  "rv_a7 (context_of m) = gpr m Ra7" "rv_mepc (context_of m) = xepc m"
  by (simp_all add: context_of_def)

lemma ecall_result:
  assumes "c_abi cc (kernel_sem se hart entry)" "inj entry" "\<forall>f. entry f \<noteq> 0"
    and "xscratch m \<noteq> 0" "xcause m = 11" "k_cpu_get_current (cenv m) hart = Some c"
  shows "map_option trap_result (k_trap_start cc la (k_table_syscalls entry) m) =
    (case map_of syscall_entries (unat (gpr m Ra7)) of
       Some f \<Rightarrow> do {
         (v, k) \<leftarrow> k_sys_wrap se hart f (syscall_args m) (k_cpu_set_user_regs c (after_ecall m) (cenv m));
         Some ((cpu_regs (cpu_dev k c))\<lparr>rv_a0 := v\<rparr>, k)
       }
     | None \<Rightarrow> Some ((after_ecall m)\<lparr>rv_a0 := of_int (- ENOTSUP)\<rparr>, k_cpu_set_user_regs c (context_of m) (cenv m)))"
  unfolding k_trap_start_refines [OF assms(1)]
  using assms(4-)
  by (simp add: trap_spec_def trap_handler_def kernel_sem_def k_cpu_set_current_user_regs_def
      syscall_fn_table [OF assms(3)] context_of_fields after_ecall_def find_entry [OF assms(2)]
      get_current_set_user_regs set_user_regs_again k_sys_unknown_def case_prod_unfold split: option.splits)

text \<open>
  C33. The dispatch of a system call from user mode.  The call number selects the wrapper of the table,
  which gets the six argument registers; the value it returns is in \<open>a0\<close> and the program goes on
  behind the \<open>ecall\<close> with the registers the kernel left in its frame.  A number without an entry
  returns \<open>-ENOTSUP\<close> and keeps every other register.
\<close>

theorem ecall_dispatch:
  assumes "c_abi cc (kernel_sem se hart entry)" "inj entry" "\<forall>f. entry f \<noteq> 0"
    and "xscratch m \<noteq> 0" "xcause m = 11" "k_cpu_get_current (cenv m) hart = Some c"
  shows "map_option trap_result (k_trap_start cc la (k_table_syscalls entry) m) =
    (case map_of syscall_entries (unat (gpr m Ra7)) of
       Some f \<Rightarrow> do {
         (v, k) \<leftarrow> k_sys_wrap se hart f (syscall_args m) (k_cpu_set_user_regs c (after_ecall m) (cenv m));
         Some ((cpu_regs (cpu_dev k c))\<lparr>rv_a0 := v\<rparr>, k)
       }
     | None \<Rightarrow> Some ((after_ecall m)\<lparr>rv_a0 := of_int (- ENOTSUP)\<rparr>, k_cpu_set_user_regs c (context_of m) (cenv m)))"
  by (rule ecall_result [OF assms])

lemma example_entry_inj: "inj example_entry"
proof (rule injI)
  fix f g assume "example_entry f = example_entry g"
  then show "f = g"
    by (cases f) (cases g, simp_all add: example_entry_def all_syscalls_def)+
qed

lemma example_entry_nonzero: "\<forall>f. example_entry f \<noteq> 0"
proof
  fix f show "example_entry f \<noteq> 0"
    by (cases f) (simp_all add: example_entry_def all_syscalls_def)
qed

lemma kernel_sem_abi: "c_abi (c_run (kernel_sem se hart entry)) (kernel_sem se hart entry)"
  by (rule c_abi_run) (rule kernel_sem_set_regs)

theorem ecall_dispatch_witness:
  "map_option trap_result (k_trap_start (c_run (kernel_sem example_env 1 example_entry)) 0x80001000
     (k_table_syscalls example_entry) (example_machine 174 11 example_kernel)) =
   Some ((after_ecall (example_machine 174 11 example_kernel))\<lparr>rv_a0 := 0\<rparr>,
     k_cpu_set_user_regs 1 (after_ecall (example_machine 174 11 example_kernel)) example_kernel)"
proof -
  let ?m = "example_machine 174 11 example_kernel"
  have m: "xscratch ?m \<noteq> 0" "xcause ?m = 11" "k_cpu_get_current (cenv ?m) 1 = Some 1" "cenv ?m = example_kernel"
    using example_kernel_hart1(1) by (simp_all add: example_machine_def)
  have "map_of syscall_entries (unat (gpr ?m Ra7)) = Some Sys_getuid"
    by (simp add: example_machine_def syscall_entries_def)
  then show ?thesis
    using ecall_dispatch [OF kernel_sem_abi example_entry_inj example_entry_nonzero m(1-3), where se = example_env and la = "0x80001000"]
    by (simp add: k_sys_wrap_def k_sys_getuid_def m(4))
qed

lemma k_sys_context_switch_to_task:
  assumes "k_cpu_get_current k hart = Some c" "unlocked (lock_smp k)"
    and "cpu_ti (cpu_dev k c) = Some i" "ti_idle (cpu_dev k c) = Some i" "ti_task (cpu_dev k c) = Some t"
    and "t \<noteq> i" "i < length (k_ti k)"
  shows "\<exists>k'. k_sys_context_switch hart k = Some (sint (rv_a0 (ti_regs (k_ti k ! t))), k') \<and>
    cpu_ti (cpu_dev k' c) = Some t \<and> cpu_regs (cpu_dev k' c) = ti_regs (k_ti k ! t) \<and>
    ti_regs (k_ti k' ! i) = cpu_regs (cpu_dev k c) \<and> unlocked (lock_smp k')"
proof -
  let ?l = "\<lparr>lock_val = 1, lock_id = hart\<rparr>"
  let ?k0 = "k\<lparr>lock_smp := ?l\<rparr>"
  have "k_cpu_get_current ?k0 hart = Some c"
    using k_cpu_get_current_cong [of ?k0 k hart] assms(1) by simp
  note sw = context_switch_to_task [OF this, of i t]
  show ?thesis
    using assms k_thread_context_switch_locked [OF assms(2) sw refl]
    by (simp add: k_sys_context_switch_def retval_def) (simp add: kernel_ops unlocked_def)
qed

text \<open>
  C34. The switch to a task, from the \<open>ecall\<close> of \<open>k_arch_context_switch\<close> in the idle thread to the first
  instruction of the task: the machine leaves the trap with every register of the task, its
  program counter, its status and its interrupt stack, the task is the current thread of the CPU, and
  the saved context of the idle thread is the one behind its \<open>ecall\<close>.
\<close>

theorem ecall_context_switch:
  assumes "c_abi cc (kernel_sem se hart entry)" "inj entry" "\<forall>f. entry f \<noteq> 0"
    and "xscratch m \<noteq> 0" "xcause m = 11" "gpr m Ra7 = 441"
    and "cenv m = k" "k_cpu_get_current k hart = Some c" "unlocked (lock_smp k)"
    and "cpu_ti (cpu_dev k c) = Some i" "ti_idle (cpu_dev k c) = Some i" "ti_task (cpu_dev k c) = Some t"
    and "t \<noteq> i" "i < length (k_ti k)"
  shows "\<exists>m'. k_trap_start cc la (k_table_syscalls entry) m = Some m' \<and> context_of m' = ti_regs (k_ti k ! t) \<and>
    cpu_ti (cpu_dev (cenv m') c) = Some t \<and> ti_regs (k_ti (cenv m') ! i) = (context_of m)\<lparr>rv_mepc := xepc m + 4\<rparr> \<and>
    unlocked (lock_smp (cenv m'))"
proof -
  let ?k0 = "k_cpu_set_user_regs c (after_ecall m) k"
  have "\<exists>k'. k_sys_context_switch hart ?k0 = Some (sint (rv_a0 (ti_regs (k_ti ?k0 ! t))), k') \<and>
    cpu_ti (cpu_dev k' c) = Some t \<and> cpu_regs (cpu_dev k' c) = ti_regs (k_ti ?k0 ! t) \<and>
    ti_regs (k_ti k' ! i) = cpu_regs (cpu_dev ?k0 c) \<and> unlocked (lock_smp k')"
    by (rule k_sys_context_switch_to_task)
      (use assms in \<open>simp_all add: get_current_set_user_regs\<close>)
  then obtain k' where k': "k_sys_context_switch hart ?k0 = Some (sint (rv_a0 (ti_regs (k_ti k ! t))), k')"
    "cpu_ti (cpu_dev k' c) = Some t" "cpu_regs (cpu_dev k' c) = ti_regs (k_ti k ! t)"
    "ti_regs (k_ti k' ! i) = after_ecall m" "unlocked (lock_smp k')"
    by auto
  have "map_of syscall_entries (unat (gpr m Ra7)) = Some Sys_context_switch"
    by (simp add: assms(6) syscall_entries_def)
  then have "map_option trap_result (k_trap_start cc la (k_table_syscalls entry) m) = Some (ti_regs (k_ti k ! t), k')"
    using ecall_result [OF assms(1-5), of c la] assms(7,8) k' by (simp add: k_sys_wrap_def ret_def)
  then show ?thesis
    using k' by (auto simp: after_ecall_def)
qed

theorem ecall_context_switch_witness:
  "\<exists>m'. k_trap_start (c_run (kernel_sem example_env 1 example_entry)) 0x80001000 (k_table_syscalls example_entry)
      (example_machine 441 11 (k_cpu_set_thread_task 1 (Some 3) example_kernel)) = Some m' \<and>
    context_of m' = ti_regs (k_ti example_kernel ! 3) \<and> cpu_ti (cpu_dev (cenv m') 1) = Some 3"
proof -
  let ?k = "k_cpu_set_thread_task 1 (Some 3) example_kernel"
  have "k_cpu_get_current ?k 1 = Some 1"
    using k_cpu_get_current_cong [of ?k example_kernel 1] example_kernel_hart1(1) by (simp add: kernel_ops)
  from ecall_context_switch [OF kernel_sem_abi example_entry_inj example_entry_nonzero _ _ _ refl,
      of "example_machine 441 11 ?k" 1 1 2 3 example_env "0x80001000"] this example_kernel_hart1
  show ?thesis
    by (auto simp: kernel_ops example_machine_def)
qed

end
