(* ===== verification/Wake.thy ===== *)
theory Wake
  imports Args
begin

section \<open>Waking the other harts\<close>

text \<open>
  The handshake between \<open>cpu_riscv_wakeup\<close> of \<^verbatim>\<open>driver/cpu/riscv.c\<close>, which the leader runs once per
  CPU, and the start code \<open>k_reset\<close>, \<open>k_start_for_sub\<close> and \<open>k_start_for_common\<close> of
  \<^verbatim>\<open>arch/riscv/start.S\<close>, which every other hart runs.  They share \<open>k_boot_proc\<close>, \<open>k_boot_sp_idle\<close>,
  \<open>k_boot_sp_intr\<close> and \<open>k_boot_done\<close>.  A step is one access to a shared variable, by the leader or by
  any hart, so the steps of the harts interleave freely; accesses take effect in program order.
  A hart resets at any time: the first thing it does to the shared variables is to store -1 in
  \<open>k_boot_proc\<close>, also when the leader has just written it.
\<close>

datatype lead_pc = Ld_next | Ld_idle | Ld_intr | Ld_test | Ld_notify | Ld_release

datatype child_pc = Ch_reset | Ch_wait | Ch_sp | Ch_scratch | Ch_done | Ch_common | Ch_init

record child =
  ch_pc :: child_pc
  ch_sp :: u64
  ch_xscratch :: u64
  ch_tp :: u64

text \<open>\<open>todo\<close> lists the CPUs the leader has still to wake, by their numbers \<open>id_cpu\<close> and \<open>id_phys\<close>.\<close>

record wake_state =
  boot_proc :: u64
  boot_sp_idle :: u64
  boot_sp_intr :: u64
  boot_done :: bool
  lead :: lead_pc
  todo :: "(nat \<times> u64) list"
  hart_of :: "u64 \<Rightarrow> child"

definition idle_top :: "kconfig \<Rightarrow> layout \<Rightarrow> nat \<Rightarrow> u64" where
  "idle_top cfg sy c = sym_stack_idle sy + of_nat ((c + 1) * IDLE_STACK_SIZE cfg)"

definition intr_top :: "kconfig \<Rightarrow> layout \<Rightarrow> nat \<Rightarrow> u64" where
  "intr_top cfg sy c = sym_stack_intr sy + of_nat ((c + 1) * INTR_STACK_SIZE cfg)"

abbreviation (input) CPUREGOFF_ALL :: u64 where "CPUREGOFF_ALL \<equiv> 16"

text \<open>The leader in \<open>cpu_riscv_wakeup\<close>.\<close>

inductive lead_step :: "kconfig \<Rightarrow> layout \<Rightarrow> wake_state \<Rightarrow> wake_state \<Rightarrow> bool" for cfg sy where
  clear_done: "\<lbrakk>lead s = Ld_next; todo s \<noteq> []\<rbrakk> \<Longrightarrow> lead_step cfg sy s (s\<lparr>boot_done := False, lead := Ld_idle\<rparr>)"
| set_idle: "\<lbrakk>lead s = Ld_idle; todo s = (c, p) # ts\<rbrakk> \<Longrightarrow>
    lead_step cfg sy s (s\<lparr>boot_sp_idle := idle_top cfg sy c, lead := Ld_intr\<rparr>)"
| set_intr: "\<lbrakk>lead s = Ld_intr; todo s = (c, p) # ts\<rbrakk> \<Longrightarrow>
    lead_step cfg sy s (s\<lparr>boot_sp_intr := intr_top cfg sy c, lead := Ld_test\<rparr>)"
| test_done: "lead s = Ld_test \<Longrightarrow>
    lead_step cfg sy s (s\<lparr>lead := (if boot_done s then Ld_release else Ld_notify)\<rparr>)"
| notify: "\<lbrakk>lead s = Ld_notify; todo s = (c, p) # ts\<rbrakk> \<Longrightarrow> lead_step cfg sy s (s\<lparr>boot_proc := p, lead := Ld_test\<rparr>)"
| release: "\<lbrakk>lead s = Ld_release; todo s = (c, p) # ts\<rbrakk> \<Longrightarrow>
    lead_step cfg sy s (s\<lparr>boot_proc := - 1, lead := Ld_next, todo := ts\<rparr>)"

definition upd_hart :: "u64 \<Rightarrow> (child \<Rightarrow> child) \<Rightarrow> wake_state \<Rightarrow> wake_state" where
  "upd_hart h f s = s\<lparr>hart_of := (hart_of s)(h := f (hart_of s h))\<rparr>"

text \<open>Hart \<open>h\<close> from its reset to the call of \<open>k_init_child\<close>.\<close>

inductive child_step :: "u64 \<Rightarrow> wake_state \<Rightarrow> wake_state \<Rightarrow> bool" for h where
  reset: "ch_pc (hart_of s h) = Ch_reset \<Longrightarrow> child_step h s (upd_hart h (ch_pc_update (\<lambda>_. Ch_wait)) (s\<lparr>boot_proc := - 1\<rparr>))"
| spin: "\<lbrakk>ch_pc (hart_of s h) = Ch_wait; boot_proc s \<noteq> h\<rbrakk> \<Longrightarrow> child_step h s s"
| called: "\<lbrakk>ch_pc (hart_of s h) = Ch_wait; boot_proc s = h\<rbrakk> \<Longrightarrow> child_step h s (upd_hart h (ch_pc_update (\<lambda>_. Ch_sp)) s)"
| load_sp: "ch_pc (hart_of s h) = Ch_sp \<Longrightarrow>
    child_step h s (upd_hart h (\<lambda>c. c\<lparr>ch_sp := boot_sp_idle s, ch_pc := Ch_scratch\<rparr>) s)"
| load_scratch: "ch_pc (hart_of s h) = Ch_scratch \<Longrightarrow>
    child_step h s (upd_hart h (\<lambda>c. c\<lparr>ch_xscratch := boot_sp_intr s, ch_pc := Ch_done\<rparr>) s)"
| set_done: "ch_pc (hart_of s h) = Ch_done \<Longrightarrow>
    child_step h s (upd_hart h (ch_pc_update (\<lambda>_. Ch_common)) (s\<lparr>boot_done := True\<rparr>))"
| common: "ch_pc (hart_of s h) = Ch_common \<Longrightarrow>
    child_step h s (upd_hart h (\<lambda>c. c\<lparr>ch_xscratch := ch_xscratch c - CPUREGOFF_ALL, ch_tp := ch_xscratch c - CPUREGOFF_ALL,
      ch_pc := Ch_init\<rparr>) s)"

text \<open>The leader and the harts of \<open>cs\<close>, interleaved, from a state where every hart is still in reset.\<close>

definition wake_step :: "kconfig \<Rightarrow> layout \<Rightarrow> (nat \<times> u64) list \<Rightarrow> wake_state \<Rightarrow> wake_state \<Rightarrow> bool" where
  "wake_step cfg sy cs s s' \<longleftrightarrow> lead_step cfg sy s s' \<or> (\<exists>h \<in> snd ` set cs. child_step h s s')"

definition wake_init :: "(nat \<times> u64) list \<Rightarrow> wake_state \<Rightarrow> bool" where
  "wake_init cs s \<longleftrightarrow> boot_proc s = - 1 \<and> lead s = Ld_next \<and> todo s = cs \<and> (\<forall>h. ch_pc (hart_of s h) = Ch_reset)"

text \<open>What a hart holds of its stacks, by how far it has come.\<close>

fun own_stacks :: "kconfig \<Rightarrow> layout \<Rightarrow> nat \<Rightarrow> child \<Rightarrow> bool" where
  "own_stacks cfg sy c ch =
     (case ch_pc ch of
        Ch_scratch \<Rightarrow> ch_sp ch = idle_top cfg sy c
      | Ch_done \<Rightarrow> ch_sp ch = idle_top cfg sy c \<and> ch_xscratch ch = intr_top cfg sy c
      | Ch_common \<Rightarrow> ch_sp ch = idle_top cfg sy c \<and> ch_xscratch ch = intr_top cfg sy c
      | Ch_init \<Rightarrow> ch_sp ch = idle_top cfg sy c \<and> ch_xscratch ch = intr_top cfg sy c - 16 \<and> ch_tp ch = intr_top cfg sy c - 16
      | _ \<Rightarrow> True)"

abbreviation early :: "child \<Rightarrow> bool" where
  "early ch \<equiv> ch_pc ch \<in> {Ch_reset, Ch_wait}"

abbreviation started :: "child \<Rightarrow> bool" where
  "started ch \<equiv> ch_pc ch \<in> {Ch_common, Ch_init}"

text \<open>The harts the leader is done with have started, those behind the first of its list wait.\<close>

definition line_inv :: "(nat \<times> u64) list \<Rightarrow> wake_state \<Rightarrow> bool" where
  "line_inv cs s \<longleftrightarrow>
     (\<exists>woken. cs = woken @ todo s \<and> (\<forall>(c, h) \<in> set woken. started (hart_of s h))) \<and>
     (\<forall>(c, h) \<in> set (tl (todo s)). early (hart_of s h))"

definition own_inv :: "kconfig \<Rightarrow> layout \<Rightarrow> (nat \<times> u64) list \<Rightarrow> wake_state \<Rightarrow> bool" where
  "own_inv cfg sy cs s \<longleftrightarrow> (\<forall>(c, h) \<in> set cs. own_stacks cfg sy c (hart_of s h))"

text \<open>The hart the leader is waking, and what the shared variables hold for it.\<close>

definition head_inv :: "kconfig \<Rightarrow> layout \<Rightarrow> nat \<Rightarrow> u64 \<Rightarrow> wake_state \<Rightarrow> bool" where
  "head_inv cfg sy c h s \<longleftrightarrow>
     (if lead s \<in> {Ld_next, Ld_idle, Ld_intr} then boot_proc s = - 1 \<and> early (hart_of s h)
      else boot_proc s \<in> {- 1, h} \<and> (boot_done s \<longleftrightarrow> started (hart_of s h)) \<and> (lead s = Ld_release \<longrightarrow> boot_done s)) \<and>
     (lead s \<in> {Ld_idle, Ld_intr} \<longrightarrow> \<not> boot_done s) \<and>
     (lead s \<notin> {Ld_next, Ld_idle} \<longrightarrow> boot_sp_idle s = idle_top cfg sy c) \<and>
     (lead s \<notin> {Ld_next, Ld_idle, Ld_intr} \<longrightarrow> boot_sp_intr s = intr_top cfg sy c)"

definition wake_inv :: "kconfig \<Rightarrow> layout \<Rightarrow> (nat \<times> u64) list \<Rightarrow> wake_state \<Rightarrow> bool" where
  "wake_inv cfg sy cs s \<longleftrightarrow> line_inv cs s \<and> own_inv cfg sy cs s \<and>
     (case todo s of [] \<Rightarrow> lead s = Ld_next \<and> boot_proc s = - 1 | (c, h) # ts \<Rightarrow> head_inv cfg sy c h s)"

text \<open>Only the hart at the head of the list is inside the handshake.\<close>

abbreviation inside :: "u64 \<Rightarrow> wake_state \<Rightarrow> bool" where
  "inside h s \<equiv> ch_pc (hart_of s h) \<in> {Ch_sp, Ch_scratch, Ch_done} \<or>
     (ch_pc (hart_of s h) = Ch_wait \<and> boot_proc s = h \<and> h \<noteq> - 1)"

text \<open>How far the hart being woken and the leader are from the end of the handshake.\<close>

fun pc_rank :: "child_pc \<Rightarrow> nat" where
  "pc_rank Ch_reset = 6"
| "pc_rank Ch_wait = 5"
| "pc_rank Ch_sp = 4"
| "pc_rank Ch_scratch = 3"
| "pc_rank Ch_done = 2"
| "pc_rank pc = 1"

fun lead_rank :: "lead_pc \<Rightarrow> nat" where
  "lead_rank Ld_next = 9"
| "lead_rank Ld_idle = 8"
| "lead_rank Ld_intr = 7"
| "lead_rank Ld_test = 4"
| "lead_rank Ld_notify = 3"
| "lead_rank Ld_release = 0"

definition wake_rank :: "u64 \<Rightarrow> wake_state \<Rightarrow> nat" where
  "wake_rank h s =
     10 * pc_rank (ch_pc (hart_of s h)) +
     (if started (hart_of s h) then (if lead s = Ld_notify then 3 else if lead s = Ld_test then 2 else 1)
      else if boot_proc s = h then 0 else lead_rank (lead s))"

text \<open>Two harts to wake.\<close>

definition example_wake :: wake_state where
  "example_wake = \<lparr>boot_proc = - 1, boot_sp_idle = 0, boot_sp_intr = 0, boot_done = False, lead = Ld_next,
     todo = [(1, 1), (2, 5)], hart_of = (\<lambda>_. \<lparr>ch_pc = Ch_reset, ch_sp = 0, ch_xscratch = 0, ch_tp = 0\<rparr>)\<rparr>"

subsection \<open>The invariant\<close>

lemma hart_of_upd: "hart_of (upd_hart h f s) g = (if g = h then f (hart_of s h) else hart_of s g)"
  by (simp add: upd_hart_def)

lemma upd_hart_simps [simp]:
  "boot_proc (upd_hart h f s) = boot_proc s" "boot_sp_idle (upd_hart h f s) = boot_sp_idle s"
  "boot_sp_intr (upd_hart h f s) = boot_sp_intr s" "boot_done (upd_hart h f s) = boot_done s"
  "lead (upd_hart h f s) = lead s" "todo (upd_hart h f s) = todo s"
  by (simp_all add: upd_hart_def)

lemma hart_unique: "distinct (map snd cs) \<Longrightarrow> (c, h) \<in> set cs \<Longrightarrow> (d, h) \<in> set cs \<Longrightarrow> d = c"
  by (fastforce simp: distinct_map inj_on_def)

lemma wake_inv_init: "wake_init cs s \<Longrightarrow> wake_inv cfg sy cs s"
  by (auto simp: wake_init_def wake_inv_def line_inv_def own_inv_def head_inv_def split: list.splits)

text \<open>A step of the leader that does not move on to the next hart only touches the shared variables.\<close>

lemma lead_keeps:
  assumes "wake_inv cfg sy cs s" "hart_of s' = hart_of s" "todo s' = todo s" "todo s = (c, h) # ts"
    and "head_inv cfg sy c h s \<Longrightarrow> head_inv cfg sy c h s'"
  shows "wake_inv cfg sy cs s'"
  using assms by (simp add: wake_inv_def line_inv_def own_inv_def)

lemma lead_release_inv:
  assumes "wake_inv cfg sy cs s" "lead s = Ld_release" "todo s = (c, p) # ts"
  shows "wake_inv cfg sy cs (s\<lparr>boot_proc := - 1, lead := Ld_next, todo := ts\<rparr>)"
proof -
  have head: "started (hart_of s p)" and early: "\<forall>(d, g) \<in> set ts. early (hart_of s g)"
    using assms by (auto simp: wake_inv_def head_inv_def line_inv_def)
  obtain woken where "cs = woken @ todo s" "\<forall>(c, h) \<in> set woken. started (hart_of s h)"
    using assms(1) unfolding wake_inv_def line_inv_def by blast
  then have "cs = (woken @ [(c, p)]) @ ts" "\<forall>(c, h) \<in> set (woken @ [(c, p)]). started (hart_of s h)"
    using head assms(3) by auto
  moreover have "\<forall>(d, g) \<in> set (tl ts). early (hart_of s g)"
    using early by (cases ts) auto
  ultimately have "line_inv cs (s\<lparr>boot_proc := - 1, lead := Ld_next, todo := ts\<rparr>)"
    unfolding line_inv_def by (intro conjI exI [of _ "woken @ [(c, p)]"]) simp_all
  then show ?thesis
    using assms(1) early by (auto simp: wake_inv_def own_inv_def head_inv_def split: list.splits)
qed

lemma lead_step_inv:
  assumes "wake_inv cfg sy cs s" "lead_step cfg sy s s'"
  shows "wake_inv cfg sy cs s'"
  using assms(2)
proof cases
  case clear_done
  then obtain c h ts where "todo s = (c, h) # ts" by (cases "todo s") auto
  with clear_done show ?thesis by (intro lead_keeps [OF assms(1)]) (auto simp: head_inv_def)
next
  case (set_idle c p ts)
  then show ?thesis by (intro lead_keeps [OF assms(1)]) (auto simp: head_inv_def)
next
  case (set_intr c p ts)
  then show ?thesis by (intro lead_keeps [OF assms(1)]) (auto simp: head_inv_def)
next
  case test_done
  then obtain c h ts where "todo s = (c, h) # ts"
    using assms(1) by (cases "todo s") (auto simp: wake_inv_def)
  with test_done show ?thesis by (intro lead_keeps [OF assms(1)]) (auto simp: head_inv_def)
next
  case (notify c p ts)
  then show ?thesis by (intro lead_keeps [OF assms(1)]) (auto simp: head_inv_def)
next
  case (release c p ts)
  then show ?thesis using lead_release_inv [OF assms(1)] by simp
qed

lemma wake_inv_head:
  assumes "wake_inv cfg sy cs s" "distinct (map snd cs)" "(c, h) \<in> set cs" "inside h s"
  obtains woken ts where "cs = woken @ (c, h) # ts" "todo s = (c, h) # ts" "\<forall>(d, g) \<in> set woken. started (hart_of s g)"
    "\<forall>(d, g) \<in> set ts. early (hart_of s g)" "head_inv cfg sy c h s"
proof -
  obtain woken where w: "cs = woken @ todo s" "\<forall>(c, h) \<in> set woken. started (hart_of s h)"
    using assms(1) unfolding wake_inv_def line_inv_def by blast
  have "(c, h) \<notin> set woken" using w(2) assms(4) by fastforce
  with w(1) assms(3) have mem: "(c, h) \<in> set (todo s)" by auto
  then obtain d g ts where t: "todo s = (d, g) # ts" by (cases "todo s") auto
  have hd: "head_inv cfg sy d g s" and tl: "\<forall>(d, g) \<in> set ts. early (hart_of s g)"
    using assms(1) t by (simp_all add: wake_inv_def line_inv_def)
  have "(c, h) = (d, g)"
  proof (rule ccontr)
    assume "(c, h) \<noteq> (d, g)"
    with mem t have "(c, h) \<in> set ts" by auto
    moreover from this have "g \<noteq> h" using assms(2) w(1) t by (auto simp: image_iff)
    moreover have "boot_proc s \<in> {- 1, g}" using hd by (auto simp: head_inv_def split: if_splits)
    ultimately show False
      using tl assms(4) by fastforce
  qed
  then show thesis
    using that [of woken ts] w t hd tl by simp
qed

lemma inside_facts:
  assumes "head_inv cfg sy c h s" "inside h s"
  shows "lead s \<in> {Ld_test, Ld_notify}" "\<not> boot_done s" "boot_sp_idle s = idle_top cfg sy c" "boot_sp_intr s = intr_top cfg sy c"
    "boot_proc s \<in> {- 1, h}"
  using assms by (cases "lead s"; auto simp: head_inv_def)+

lemma own_inv_upd:
  assumes "own_inv cfg sy cs s" "distinct (map snd cs)" "(c, h) \<in> set cs" "own_stacks cfg sy c (f (hart_of s h))"
    and "hart_of s' = (hart_of s)(h := f (hart_of s h))"
  shows "own_inv cfg sy cs s'"
  using assms(1,4,5) hart_unique [OF assms(2,3)] unfolding own_inv_def by (auto simp del: own_stacks.simps)

text \<open>A hart outside the handshake moves between states the invariant treats alike.\<close>

lemma wake_inv_outside:
  assumes "wake_inv cfg sy cs s" "distinct (map snd cs)" "(c, h) \<in> set cs" "own_stacks cfg sy c (f (hart_of s h))"
    and "b = boot_proc s \<or> b = - 1"
    and "early (hart_of s h) \<and> early (f (hart_of s h)) \<or> started (hart_of s h) \<and> started (f (hart_of s h))"
  shows "wake_inv cfg sy cs (upd_hart h f (s\<lparr>boot_proc := b\<rparr>))" (is "wake_inv cfg sy cs ?s")
proof -
  have e: "early (hart_of ?s g) \<longleftrightarrow> early (hart_of s g)" and st: "started (hart_of ?s g) \<longleftrightarrow> started (hart_of s g)" for g
    using assms(6) by (auto simp: hart_of_upd)
  have "own_inv cfg sy cs ?s"
    by (rule own_inv_upd [where s = s and f = f, OF _ assms(2-4)]) (use assms(1) in \<open>simp_all add: wake_inv_def upd_hart_def\<close>)
  moreover have "line_inv cs ?s"
    using assms(1) unfolding wake_inv_def line_inv_def e st by simp
  moreover have "head_inv cfg sy d g ?s" if "head_inv cfg sy d g s" for d g
    using that assms(5) unfolding head_inv_def e st by (auto split: if_splits)
  ultimately show ?thesis
    using assms(1,5) by (auto simp: wake_inv_def split: list.splits)
qed

lemma wake_inv_inside:
  assumes "wake_inv cfg sy cs s" "distinct (map snd cs)" "(c, h) \<in> set cs" "inside h s"
    and "own_stacks cfg sy c (f (hart_of s h))" "\<not> early (f (hart_of s h))" "d \<longleftrightarrow> started (f (hart_of s h))"
  shows "wake_inv cfg sy cs (upd_hart h f (s\<lparr>boot_done := d\<rparr>))" (is "wake_inv cfg sy cs ?s")
proof -
  obtain woken ts where w: "cs = woken @ (c, h) # ts" "todo s = (c, h) # ts" "\<forall>(d, g) \<in> set woken. started (hart_of s g)"
    "\<forall>(d, g) \<in> set ts. early (hart_of s g)" "head_inv cfg sy c h s"
    by (rule wake_inv_head [OF assms(1-4)])
  have ne: "\<forall>(e, g) \<in> set woken \<union> set ts. g \<noteq> h"
    using assms(2) w(1) by (auto simp: image_iff)
  have "own_inv cfg sy cs ?s"
    by (rule own_inv_upd [where s = s and f = f, OF _ assms(2,3,5)]) (use assms(1) in \<open>simp_all add: wake_inv_def upd_hart_def\<close>)
  moreover have "line_inv cs ?s"
    unfolding line_inv_def using w(1-4) ne
    by (intro conjI exI [of _ woken]) (auto simp: hart_of_upd)
  moreover have "head_inv cfg sy c h ?s"
    using inside_facts [OF w(5) assms(4)] assms(6,7) by (auto simp: head_inv_def hart_of_upd)
  ultimately show ?thesis
    using w(2) by (simp add: wake_inv_def)
qed

lemma child_step_inv:
  assumes "wake_inv cfg sy cs s" "child_step h s s'" "distinct (map snd cs)" "- 1 \<notin> snd ` set cs" "(c, h) \<in> set cs"
  shows "wake_inv cfg sy cs s'"
proof -
  have h: "h \<noteq> - 1" using assms(4,5) by force
  have own: "own_stacks cfg sy c (hart_of s h)"
    using assms(1,5) unfolding wake_inv_def own_inv_def by blast
  have sps: "boot_sp_idle s = idle_top cfg sy c" "boot_sp_intr s = intr_top cfg sy c" "s\<lparr>boot_done := False\<rparr> = s" if "inside h s"
  proof -
    have "head_inv cfg sy c h s" by (rule wake_inv_head [OF assms(1,3,5) that])
    from inside_facts [OF this that]
    show "boot_sp_idle s = idle_top cfg sy c" "boot_sp_intr s = intr_top cfg sy c" "s\<lparr>boot_done := False\<rparr> = s"
      by (cases s, simp)+
  qed
  note out = wake_inv_outside [OF assms(1,3,5)] and ins = wake_inv_inside [OF assms(1,3,5)]
  show ?thesis
    using assms(2)
  proof cases
    case called
    with h sps ins [of "ch_pc_update (\<lambda>_. Ch_sp)" False] show ?thesis by simp
  next
    case load_sp
    with own sps ins [of "\<lambda>c. c\<lparr>ch_sp := boot_sp_idle s, ch_pc := Ch_scratch\<rparr>" False] show ?thesis by simp
  next
    case load_scratch
    with own sps ins [of "\<lambda>c. c\<lparr>ch_xscratch := boot_sp_intr s, ch_pc := Ch_done\<rparr>" False] show ?thesis by simp
  next
    case set_done
    with own ins [of "ch_pc_update (\<lambda>_. Ch_common)" True] show ?thesis by simp
  next
    case reset
    with own out [of "ch_pc_update (\<lambda>_. Ch_wait)" "- 1"] show ?thesis by simp
  next
    case common
    with own out [of "\<lambda>c. c\<lparr>ch_xscratch := ch_xscratch c - 16, ch_tp := ch_xscratch c - 16, ch_pc := Ch_init\<rparr>" "boot_proc s"]
    show ?thesis by simp
  qed (use assms(1) in simp)
qed

lemma wake_inv_reach:
  assumes "(wake_step cfg sy cs)\<^sup>*\<^sup>* s s'" "wake_inv cfg sy cs s" "distinct (map snd cs)" "- 1 \<notin> snd ` set cs"
  shows "wake_inv cfg sy cs s'"
  using assms(1,2)
  by (induction rule: rtranclp_induct)
    (auto simp: wake_step_def intro: lead_step_inv child_step_inv [OF _ _ assms(3,4)])

text \<open>
  C35. Waking the other harts, under every interleaving of the leader with any number of harts, of
  different numbers, that reset at any time, and with accesses that take effect in program order. A
  hart that has left the handshake runs on the idle stack and the interrupt stack of its own CPU
  number, with its per-CPU area on top of the latter. At most one hart is inside the handshake. When
  the leader has served its list, every hart has started.
\<close>

theorem wake_own_stacks:
  assumes "wake_init cs s0" "(wake_step cfg sy cs)\<^sup>*\<^sup>* s0 s" "distinct (map snd cs)" "- 1 \<notin> snd ` set cs"
  shows "(\<forall>(c, h) \<in> set cs. ch_pc (hart_of s h) = Ch_init \<longrightarrow>
      ch_sp (hart_of s h) = sym_stack_idle sy + of_nat ((c + 1) * IDLE_STACK_SIZE cfg) \<and>
      ch_xscratch (hart_of s h) = sym_stack_intr sy + of_nat ((c + 1) * INTR_STACK_SIZE cfg) - 16 \<and>
      ch_tp (hart_of s h) = ch_xscratch (hart_of s h)) \<and>
    (\<forall>(c, h) \<in> set cs. \<forall>(d, g) \<in> set cs. ch_pc (hart_of s h) \<in> {Ch_sp, Ch_scratch, Ch_done} \<longrightarrow>
      ch_pc (hart_of s g) \<in> {Ch_sp, Ch_scratch, Ch_done} \<longrightarrow> g = h) \<and>
    (todo s = [] \<longrightarrow> (\<forall>(c, h) \<in> set cs. ch_pc (hart_of s h) \<in> {Ch_common, Ch_init}))"
proof -
  have inv: "wake_inv cfg sy cs s"
    by (rule wake_inv_reach [OF assms(2) wake_inv_init [OF assms(1)] assms(3,4)])
  have "g = h" if "(c, h) \<in> set cs" "(d, g) \<in> set cs" "inside h s" "inside g s" for c h d g
    using wake_inv_head [OF inv assms(3) that(1,3)] wake_inv_head [OF inv assms(3) that(2,4)]
    by (metis list.inject prod.inject)
  moreover have "\<forall>(c, h) \<in> set cs. own_stacks cfg sy c (hart_of s h)"
    using inv by (simp add: wake_inv_def own_inv_def del: own_stacks.simps)
  moreover have "todo s = [] \<longrightarrow> (\<forall>(c, h) \<in> set cs. started (hart_of s h))"
    using inv by (auto simp: wake_inv_def line_inv_def)
  ultimately show ?thesis
    by (fastforce simp: idle_top_def intr_top_def)
qed

lemma child_wake_step: "(c, h) \<in> set cs \<Longrightarrow> child_step h s s' \<Longrightarrow> wake_step cfg sy cs s s'"
  unfolding wake_step_def by force

lemma lead_wake_step: "lead_step cfg sy s s' \<Longrightarrow> wake_step cfg sy cs s s'"
  unfolding wake_step_def by simp

lemma child_moves:
  assumes "ch_pc (hart_of s h) \<in> {Ch_reset, Ch_sp, Ch_scratch, Ch_done} \<or> ch_pc (hart_of s h) = Ch_wait \<and> boot_proc s = h"
  shows "\<exists>s'. child_step h s s' \<and> todo s' = todo s \<and> pc_rank (ch_pc (hart_of s' h)) < pc_rank (ch_pc (hart_of s h))"
  using assms
proof (cases "ch_pc (hart_of s h)")
  case Ch_reset
  then show ?thesis by - (rule exI, rule conjI, rule child_step.reset, simp_all add: hart_of_upd)
next
  case Ch_wait
  with assms show ?thesis by - (rule exI, rule conjI, rule child_step.called, simp_all add: hart_of_upd)
next
  case Ch_sp
  then show ?thesis by - (rule exI, rule conjI, rule child_step.load_sp, simp_all add: hart_of_upd)
next
  case Ch_scratch
  then show ?thesis by - (rule exI, rule conjI, rule child_step.load_scratch, simp_all add: hart_of_upd)
next
  case Ch_done
  then show ?thesis by - (rule exI, rule conjI, rule child_step.set_done, simp_all add: hart_of_upd)
qed auto

lemma pc_rank_wake_rank: "pc_rank (ch_pc (hart_of s' h)) < pc_rank (ch_pc (hart_of s h)) \<Longrightarrow> wake_rank h s' < wake_rank h s"
proof -
  assume a: "pc_rank (ch_pc (hart_of s' h)) < pc_rank (ch_pc (hart_of s h))"
  have "lead_rank l < 10" for l by (cases l) simp_all
  then have "wake_rank h s' < 10 * pc_rank (ch_pc (hart_of s' h)) + 10" by (simp add: wake_rank_def)
  also have "\<dots> \<le> 10 * pc_rank (ch_pc (hart_of s h))" using a by simp
  also have "\<dots> \<le> wake_rank h s" by (simp add: wake_rank_def)
  finally show ?thesis .
qed

lemma lead_moves:
  assumes "head_inv cfg sy c h s" "todo s = (c, h) # ts" "h \<noteq> - 1"
    and "started (hart_of s h) \<or> lead s \<in> {Ld_next, Ld_idle, Ld_intr} \<or> ch_pc (hart_of s h) = Ch_wait \<and> boot_proc s \<noteq> h"
  shows "\<exists>s'. lead_step cfg sy s s' \<and> (todo s' = ts \<or> todo s' = todo s \<and> wake_rank h s' < wake_rank h s)"
proof (cases "lead s")
  case Ld_next
  with assms show ?thesis by - (rule exI, rule conjI, rule lead_step.clear_done, auto simp: wake_rank_def head_inv_def)
next
  case Ld_idle
  with assms show ?thesis by - (rule exI, rule conjI, rule lead_step.set_idle, auto simp: wake_rank_def head_inv_def)
next
  case Ld_intr
  with assms show ?thesis by - (rule exI, rule conjI, rule lead_step.set_intr, auto simp: wake_rank_def head_inv_def)
next
  case Ld_test
  with assms show ?thesis by - (rule exI, rule conjI, rule lead_step.test_done, auto simp: wake_rank_def head_inv_def)
next
  case Ld_notify
  with assms show ?thesis by - (rule exI, rule conjI, rule lead_step.notify, auto simp: wake_rank_def head_inv_def)
next
  case Ld_release
  with assms show ?thesis by - (rule exI, rule conjI, rule lead_step.release, auto)
qed

lemma wake_serves_head:
  assumes "wake_inv cfg sy cs s" "distinct (map snd cs)" "- 1 \<notin> snd ` set cs" "todo s = (c, h) # ts"
  shows "\<exists>s'. (wake_step cfg sy cs)\<^sup>*\<^sup>* s s' \<and> todo s' = ts"
  using assms(1,4)
proof (induction "wake_rank h s" arbitrary: s rule: less_induct)
  case less
  have mem: "(c, h) \<in> set cs" using less.prems by (auto simp: wake_inv_def line_inv_def)
  have head: "head_inv cfg sy c h s" using less.prems by (simp add: wake_inv_def)
  have "\<exists>s'. wake_step cfg sy cs s s' \<and> (todo s' = ts \<or> todo s' = todo s \<and> wake_rank h s' < wake_rank h s)"
  proof (cases "started (hart_of s h) \<or> lead s \<in> {Ld_next, Ld_idle, Ld_intr} \<or> ch_pc (hart_of s h) = Ch_wait \<and> boot_proc s \<noteq> h")
    case True
    have "h \<noteq> - 1" using mem assms(3) by force
    from lead_moves [OF head less.prems(2) this True] show ?thesis by (blast intro: lead_wake_step)
  next
    case False
    then have "ch_pc (hart_of s h) \<in> {Ch_reset, Ch_sp, Ch_scratch, Ch_done} \<or> ch_pc (hart_of s h) = Ch_wait \<and> boot_proc s = h"
      by (cases "ch_pc (hart_of s h)") auto
    from child_moves [OF this] show ?thesis by (blast intro: child_wake_step [OF mem] pc_rank_wake_rank)
  qed
  then obtain s1 where s1: "wake_step cfg sy cs s s1" "todo s1 = ts \<or> todo s1 = todo s \<and> wake_rank h s1 < wake_rank h s"
    by blast
  moreover have "wake_inv cfg sy cs s1"
    using wake_inv_reach [OF _ less.prems(1) assms(2,3)] s1(1) by blast
  ultimately show ?case
    using less.hyps [of s1] less.prems(2) by (metis converse_rtranclp_into_rtranclp rtranclp.rtrancl_refl)
qed

lemma wake_can_complete:
  assumes "wake_init cs s0" "(wake_step cfg sy cs)\<^sup>*\<^sup>* s0 s" "distinct (map snd cs)" "- 1 \<notin> snd ` set cs"
  shows "\<exists>s'. (wake_step cfg sy cs)\<^sup>*\<^sup>* s s' \<and> todo s' = [] \<and> (\<forall>(c, h) \<in> set cs. ch_pc (hart_of s' h) \<in> {Ch_common, Ch_init})"
proof -
  have inv: "wake_inv cfg sy cs s"
    by (rule wake_inv_reach [OF assms(2) wake_inv_init [OF assms(1)] assms(3,4)])
  have "\<exists>s'. (wake_step cfg sy cs)\<^sup>*\<^sup>* s s' \<and> todo s' = []" if "wake_inv cfg sy cs s" for s
    using that
  proof (induction "todo s" arbitrary: s)
    case (Cons e ts)
    obtain c h where "e = (c, h)" by (cases e)
    with Cons.hyps(2) obtain s1 where s1: "(wake_step cfg sy cs)\<^sup>*\<^sup>* s s1" "todo s1 = ts"
      using wake_serves_head [OF Cons.prems assms(3,4)] by metis
    moreover have "wake_inv cfg sy cs s1" by (rule wake_inv_reach [OF s1(1) Cons.prems assms(3,4)])
    ultimately show ?case using Cons.hyps(1) [of s1] by (meson rtranclp_trans)
  qed auto
  then obtain s' where s': "(wake_step cfg sy cs)\<^sup>*\<^sup>* s s'" "todo s' = []" using inv by blast
  moreover have "wake_inv cfg sy cs s'" by (rule wake_inv_reach [OF s'(1) inv assms(3,4)])
  ultimately show ?thesis by (auto simp: wake_inv_def line_inv_def)
qed

text \<open>
  C36. The handshake never gets stuck: from every state the leader and the harts can reach, also one where a
  hart has just reset and wiped the notification, they can go on until the leader has served its list.
\<close>

theorem wake_completes:
  assumes "wake_init cs s0" "(wake_step cfg sy cs)\<^sup>*\<^sup>* s0 s" "distinct (map snd cs)" "- 1 \<notin> snd ` set cs"
  shows "\<exists>s'. (wake_step cfg sy cs)\<^sup>*\<^sup>* s s' \<and> todo s' = [] \<and> (\<forall>(c, h) \<in> set cs. ch_pc (hart_of s' h) \<in> {Ch_common, Ch_init})"
  by (rule wake_can_complete [OF assms])

lemma example_wake_init: "wake_init [(1, 1), (2, 5)] example_wake" "distinct (map snd [(1 :: nat, 1 :: u64), (2, 5)])"
  "- 1 \<notin> snd ` set [(1 :: nat, 1 :: u64), (2, 5)]"
  by (simp_all add: wake_init_def example_wake_def)

theorem wake_completes_witness:
  "\<exists>s. (wake_step riscv_qemu_virt_64 example_layout [(1, 1), (2, 5)])\<^sup>*\<^sup>* example_wake s \<and> todo s = [] \<and>
    ch_pc (hart_of s 5) \<in> {Ch_common, Ch_init}"
  using wake_completes [OF example_wake_init(1) rtranclp.rtrancl_refl example_wake_init(2,3)] by auto

theorem wake_own_stacks_witness:
  "\<exists>s. (wake_step riscv_qemu_virt_64 example_layout [(1, 1), (2, 5)])\<^sup>*\<^sup>* example_wake s \<and>
    ch_pc (hart_of s 5) = Ch_init \<and> ch_sp (hart_of s 5) = sym_stack_idle example_layout + 12288"
proof -
  let ?step = "wake_step riscv_qemu_virt_64 example_layout [(1, 1), (2, 5)]"
  obtain s where s: "?step\<^sup>*\<^sup>* example_wake s" "ch_pc (hart_of s 5) \<in> {Ch_common, Ch_init}"
    using wake_can_complete [OF example_wake_init(1) rtranclp.rtrancl_refl example_wake_init(2,3)] by auto
  have "\<exists>s'. ?step\<^sup>*\<^sup>* example_wake s' \<and> ch_pc (hart_of s' 5) = Ch_init"
  proof (cases "ch_pc (hart_of s 5) = Ch_init")
    case False
    with s(2) have "ch_pc (hart_of s 5) = Ch_common" by simp
    then obtain s' where "child_step 5 s s'" "ch_pc (hart_of s' 5) = Ch_init"
      using child_step.common [of s 5] by (auto simp: hart_of_upd)
    moreover from this(1) have "?step s s'" by (intro child_wake_step [of 2 5]) simp_all
    ultimately show ?thesis
      using s(1) by (meson rtranclp.rtrancl_into_rtrancl)
  qed (use s in blast)
  then obtain s' where s': "?step\<^sup>*\<^sup>* example_wake s'" "ch_pc (hart_of s' 5) = Ch_init" by blast
  moreover have "ch_sp (hart_of s' 5) = sym_stack_idle example_layout + 12288"
    using wake_own_stacks [OF example_wake_init(1) s'(1) example_wake_init(2,3)] s'(2) by (simp add: riscv_qemu_virt_64_def)
  ultimately show ?thesis by blast
qed

end
