(* ===== verification/Boot.thy ===== *)
theory Boot
  imports Memory Wake Proc Device File Intc
begin

section \<open>System start, the idle thread and the RISC-V CPU driver\<close>

text \<open>
  The rest of \<^verbatim>\<open>sys/init.c\<close>: clearing and copying the sections of the image, the process, the
  order in which \<open>k_init_system\<close> starts the subsystems, and the shutdown; \<open>k_thread_idle_main\<close> of
  \<^verbatim>\<open>sys/thread.c\<close>; and the cache and interrupt operations of \<^verbatim>\<open>driver/cpu/riscv.c\<close>.  The symbols
  the linker script defines are the record \<open>sections\<close>.  The C objects of the other theories are not
  part of the memory these functions clear and copy; they have their initial values.
\<close>

subsection \<open>Sections of the image\<close>

record csection =
  cs_start :: u64
  cs_end :: u64
  cs_load :: u64

record sections =
  sec_preinit :: csection
  sec_init :: csection
  sec_fini :: csection
  sec_data :: csection
  sec_sdata :: csection
  sec_tdata :: csection
  bss_start :: u64
  bss_end :: u64
  sbss_start :: u64
  sbss_end :: u64

text \<open>The options \<open>CONFIG_CLEAR_BSS\<close>, \<open>CONFIG_XIP\<close>, \<open>CONFIG_GPIO\<close>, \<open>CONFIG_PWR_OFF_AFTER_EXIT\<close> and \<open>CONFIG_CACHE\<close>.\<close>

record boot_config =
  bc_clear_bss :: bool
  bc_xip :: bool
  bc_gpio :: bool
  bc_power_off :: bool
  bc_cache :: bool

definition clear_bss :: "boot_config \<Rightarrow> sections \<Rightarrow> memory \<Rightarrow> memory" where
  "clear_bss bc sec m =
     (if bc_clear_bss bc
      then let m = snd (k_memset m (bss_start sec) 0 (bss_end sec - bss_start sec))
           in snd (k_memset m (sbss_start sec) 0 (sbss_end sec - sbss_start sec))
      else m)"

definition copy_section :: "csection \<Rightarrow> memory \<Rightarrow> memory" where
  "copy_section cs m = snd (k_memcpy m (cs_start cs) (cs_load cs) (cs_end cs - cs_start cs))"

definition copy_data :: "boot_config \<Rightarrow> sections \<Rightarrow> memory \<Rightarrow> memory" where
  "copy_data bc sec m =
     (if bc_xip bc
      then let m = copy_section (sec_preinit sec) m;
               m = copy_section (sec_init sec) m;
               m = copy_section (sec_fini sec) m;
               m = copy_section (sec_data sec) m;
               m = copy_section (sec_sdata sec) m
           in copy_section (sec_tdata sec) m
      else m)"

subsection \<open>The process and the system\<close>

text \<open>A panic loops for ever.  \<open>init_proc\<close> writes through the pointer it got without testing it.\<close>

definition k_init_panic_internal :: "'a option" where
  "k_init_panic_internal = None"

definition init_proc ::
    "kconfig \<Rightarrow> boot_config \<Rightarrow> 'h kernel \<Rightarrow> 'f fstate \<Rightarrow> (int \<times> 'h kernel \<times> 'f fstate) option" where
  "init_proc cfg bc k fs =
     (let (created, k) = k_proc_create k
      in if \<not> created then None
      else
        let k = k\<lparr>k_pi := (k_pi k)\<lparr>pid := MAIN_PID cfg\<rparr>\<rparr>;
            (r, fs) = k_file_stdio_init cfg (bc_gpio bc) fs
        in if r \<noteq> 0 then Some (r, k, fs) else Some (0, k, fs))"

definition fini_proc :: int where
  "fini_proc = 0"

definition fini_drivers :: int where
  "fini_drivers = 0"

record ('h, 'd, 'f) system =
  sys_ram :: memory
  sys_mem :: mem_state
  sys_dev :: "'d dstate"
  sys_kernel :: "'h kernel"
  sys_files :: "'f fstate"

definition k_init_system ::
    "kconfig \<Rightarrow> boot_config \<Rightarrow> sections \<Rightarrow> u64 \<Rightarrow> int \<Rightarrow> 'd drv_ops \<Rightarrow> ('d dstate \<Rightarrow> (int \<times> 'd dstate) option) list \<Rightarrow>
     ('h, 'd, 'f) system \<Rightarrow> ('h, 'd, 'f) system option" where
  "k_init_system cfg bc sec area hart ops calls s =
     (let s = s\<lparr>sys_ram := clear_bss bc sec (sys_ram s)\<rparr>;
          s = s\<lparr>sys_ram := copy_data bc sec (sys_ram s)\<rparr>
      in do {
        (r, ms) \<leftarrow> k_mem_init cfg hart area (sys_mem s);
        if r \<noteq> 0 then k_init_panic_internal
        else do {
          (r, d) \<leftarrow> init_drivers ops calls (sys_dev s);
          if r \<noteq> 0 then k_init_panic_internal
          else do {
            (r, k, fs) \<leftarrow> init_proc cfg bc (sys_kernel s) (sys_files s);
            if r \<noteq> 0 then k_init_panic_internal
            else Some (s\<lparr>sys_mem := ms, sys_dev := d, sys_kernel := k, sys_files := fs\<rparr>)
          }
        }
      })"

definition k_fini_system :: "boot_config \<Rightarrow> 'h k_reset_driver_ops option \<Rightarrow> 'h kernel \<Rightarrow> 'h kernel" where
  "k_fini_system bc rst k = (if bc_power_off bc then snd (k_fini_power_off rst k) else k)"

subsection \<open>The idle thread\<close>

text \<open>
  The control points of \<open>k_thread_idle_main\<close> on CPU \<open>c\<close>.  \<open>id_ti\<close> is its local variable.  Interrupts
  and the other harts change the kernel at any time, which is the step \<open>idle_other\<close>; the context
  switch returns when the idle thread is current again.
\<close>

datatype idle_pc = Idle_wakeup | Idle_loop | Idle_poll | Idle_wait | Idle_switch | Idle_resume | Idle_stop | Idle_halt

record 'h idle =
  id_pc :: idle_pc
  id_ti :: "tptr option"
  id_csr :: csr
  id_k :: "'h kernel"

inductive idle_step ::
    "boot_config \<Rightarrow> 'h k_reset_driver_ops option \<Rightarrow> 'h k_cpu_driver_ops \<Rightarrow> 'h handler_call \<Rightarrow> hstore \<Rightarrow> int \<Rightarrow> cptr \<Rightarrow> bool \<Rightarrow>
     'h idle \<Rightarrow> 'h idle \<Rightarrow> bool" for bc rst ops call hs hart c is_leader where
  idle_wakeup: "\<lbrakk>id_pc s = Idle_wakeup; k_cpu_on_wakeup ops call hs hart (id_k s) = Some (r, k)\<rbrakk> \<Longrightarrow>
    idle_step bc rst ops call hs hart c is_leader s
      (s\<lparr>id_k := k, id_csr := k_intr_enable_local (k_intr_disable_local (id_csr s)), id_pc := Idle_loop\<rparr>)"
| idle_again: "\<lbrakk>id_pc s = Idle_loop; k_cpu_get_running (id_k s) c\<rbrakk> \<Longrightarrow>
    idle_step bc rst ops call hs hart c is_leader s (s\<lparr>id_ti := k_cpu_get_thread_task (id_k s) c, id_pc := Idle_poll\<rparr>)"
| idle_end: "\<lbrakk>id_pc s = Idle_loop; \<not> k_cpu_get_running (id_k s) c\<rbrakk> \<Longrightarrow>
    idle_step bc rst ops call hs hart c is_leader s (s\<lparr>id_pc := Idle_stop\<rparr>)"
| idle_no_task: "\<lbrakk>id_pc s = Idle_poll; k_cpu_get_running (id_k s) c; id_ti s = None\<rbrakk> \<Longrightarrow>
    idle_step bc rst ops call hs hart c is_leader s (s\<lparr>id_pc := Idle_wait\<rparr>)"
| idle_task: "\<lbrakk>id_pc s = Idle_poll; \<not> (k_cpu_get_running (id_k s) c \<and> id_ti s = None)\<rbrakk> \<Longrightarrow>
    idle_step bc rst ops call hs hart c is_leader s (s\<lparr>id_pc := Idle_switch\<rparr>)"
| idle_woken: "id_pc s = Idle_wait \<Longrightarrow>
    idle_step bc rst ops call hs hart c is_leader s (s\<lparr>id_ti := k_cpu_get_thread_task (id_k s) c, id_pc := Idle_poll\<rparr>)"
| idle_switch: "\<lbrakk>id_pc s = Idle_switch; k_sys_context_switch hart (id_k s) = Some (v, k)\<rbrakk> \<Longrightarrow>
    idle_step bc rst ops call hs hart c is_leader s (s\<lparr>id_k := k, id_pc := Idle_resume\<rparr>)"
| idle_resume: "\<lbrakk>id_pc s = Idle_resume; k_cpu_get_thread (id_k s) c = k_cpu_get_thread_idle (id_k s) c\<rbrakk> \<Longrightarrow>
    idle_step bc rst ops call hs hart c is_leader s (s\<lparr>id_pc := Idle_loop\<rparr>)"
| idle_stop: "\<lbrakk>id_pc s = Idle_stop; k_cpu_on_sleep ops call hs hart (id_k s) = Some (r, k)\<rbrakk> \<Longrightarrow>
    idle_step bc rst ops call hs hart c is_leader s
      (s\<lparr>id_csr := k_intr_disable_local (id_csr s), id_k := (if is_leader then k_fini_system bc rst k else k), id_pc := Idle_halt\<rparr>)"
| idle_other: "idle_step bc rst ops call hs hart c is_leader s (s\<lparr>id_k := k\<rparr>)"

subsection \<open>Operations of the CPU driver\<close>

datatype cbo_op = Cbo_clean | Cbo_inval | Cbo_flush

text \<open>The parameter \<open>cbo\<close> is the effect of a cache-block instruction on the block that holds an address.\<close>

partial_function (option) cbo_loop :: "(u64 \<Rightarrow> 'h \<Rightarrow> 'h) \<Rightarrow> u64 \<Rightarrow> u64 \<Rightarrow> u64 \<Rightarrow> u64 \<Rightarrow> 'h \<Rightarrow> 'h option" where
  "cbo_loop cbo p sz line i h = (if i < sz then cbo_loop cbo p sz line (i + line) (cbo (p + i) h) else Some h)"

definition k_cpu_cache_get_line_size_d :: "k_cpu_device \<Rightarrow> int" where
  "k_cpu_cache_get_line_size_d cpu = line_size_d cpu"

definition cbo_range ::
    "boot_config \<Rightarrow> (u64 \<Rightarrow> 'h \<Rightarrow> 'h) \<Rightarrow> k_cpu_device \<Rightarrow> u64 \<Rightarrow> u64 \<Rightarrow> 'h \<Rightarrow> (int \<times> 'h) option" where
  "cbo_range bc cbo cpu start sz h =
     (if bc_cache bc
      then let sz_line = k_cpu_cache_get_line_size_d cpu
           in if sz_line \<le> 0 then Some (- EINVAL, h)
              else do { h \<leftarrow> cbo_loop cbo start sz (of_int sz_line) 0 h; Some (0, h) }
      else Some (0, h))"

definition cpu_riscv_clean_range ::
    "boot_config \<Rightarrow> (cbo_op \<Rightarrow> u64 \<Rightarrow> 'h \<Rightarrow> 'h) \<Rightarrow> k_cpu_device \<Rightarrow> u64 \<Rightarrow> u64 \<Rightarrow> 'h \<Rightarrow> (int \<times> 'h) option" where
  "cpu_riscv_clean_range bc cbo cpu start sz h = cbo_range bc (cbo Cbo_clean) cpu start sz h"

definition cpu_riscv_inv_range ::
    "boot_config \<Rightarrow> (cbo_op \<Rightarrow> u64 \<Rightarrow> 'h \<Rightarrow> 'h) \<Rightarrow> k_cpu_device \<Rightarrow> u64 \<Rightarrow> u64 \<Rightarrow> 'h \<Rightarrow> (int \<times> 'h) option" where
  "cpu_riscv_inv_range bc cbo cpu start sz h = cbo_range bc (cbo Cbo_inval) cpu start sz h"

definition cpu_riscv_flush_range ::
    "boot_config \<Rightarrow> (cbo_op \<Rightarrow> u64 \<Rightarrow> 'h \<Rightarrow> 'h) \<Rightarrow> k_cpu_device \<Rightarrow> u64 \<Rightarrow> u64 \<Rightarrow> 'h \<Rightarrow> (int \<times> 'h) option" where
  "cpu_riscv_flush_range bc cbo cpu start sz h = cbo_range bc (cbo Cbo_flush) cpu start sz h"

definition cpu_riscv_sleep :: "k_cpu_device \<Rightarrow> int" where
  "cpu_riscv_sleep cpu = 0"

definition cpu_riscv_remove :: int where
  "cpu_riscv_remove = - ENOTSUP"

text \<open>With the interrupt controllers configured, \<open>raise\<close> is \<open>k_intc_raise_ipi\<close>; otherwise there is none.\<close>

definition cpu_riscv_raise_ipi ::
    "(k_cpu_device \<Rightarrow> k_cpu_device \<Rightarrow> 'h \<Rightarrow> int \<times> 'h) option \<Rightarrow> k_cpu_device \<Rightarrow> k_cpu_device \<Rightarrow> 'h \<Rightarrow> int \<times> 'h" where
  "cpu_riscv_raise_ipi raise cpu dest h =
     (case raise of
        None \<Rightarrow> (- ENOTSUP, h)
      | Some f \<Rightarrow> let (r, h) = f cpu dest h in if r \<noteq> 0 then (r, h) else (0, h))"

subsection \<open>Reference definitions\<close>

text \<open>The sections \<open>copy_data\<close> fills, and the addresses a section or a load image covers.\<close>

definition copied :: "sections \<Rightarrow> csection list" where
  "copied sec = [sec_preinit sec, sec_init sec, sec_fini sec, sec_data sec, sec_sdata sec, sec_tdata sec]"

definition region :: "u64 \<Rightarrow> u64 \<Rightarrow> u64 set" where
  "region s len = {a. unat (a - s) < unat len}"

abbreviation target :: "csection \<Rightarrow> u64 set" where
  "target cs \<equiv> region (cs_start cs) (cs_end cs - cs_start cs)"

abbreviation load_image :: "csection \<Rightarrow> u64 set" where
  "load_image cs \<equiv> region (cs_load cs) (cs_end cs - cs_start cs)"

definition bss :: "sections \<Rightarrow> u64 set" where
  "bss sec = region (bss_start sec) (bss_end sec - bss_start sec) \<union> region (sbss_start sec) (sbss_end sec - sbss_start sec)"

text \<open>
  What the linker script provides: the sections lie apart from each other, from the bss, and from the
  images they are loaded from.
\<close>

definition laid_out :: "sections \<Rightarrow> bool" where
  "laid_out sec \<longleftrightarrow>
     (\<forall>i < 6. \<forall>j < 6. i \<noteq> j \<longrightarrow> target (copied sec ! i) \<inter> target (copied sec ! j) = {}) \<and>
     (\<forall>cs \<in> set (copied sec). \<forall>ds \<in> set (copied sec). load_image cs \<inter> target ds = {}) \<and>
     (\<forall>cs \<in> set (copied sec). (target cs \<union> load_image cs) \<inter> bss sec = {})"

fun copy_all :: "csection list \<Rightarrow> memory \<Rightarrow> memory" where
  "copy_all [] m = m"
| "copy_all (cs # css) m = copy_all css (copy_section cs m)"

definition example_sections :: sections where
  "example_sections =
     (let none = \<lparr>cs_start = 0, cs_end = 0, cs_load = 0\<rparr> in
      \<lparr>sec_preinit = none, sec_init = none, sec_fini = none,
       sec_data = \<lparr>cs_start = 0x80000000, cs_end = 0x80000004, cs_load = 0x20000000\<rparr>, sec_sdata = none, sec_tdata = none,
       bss_start = 0x80000100, bss_end = 0x80000108, sbss_start = 0, sbss_end = 0\<rparr>)"

definition example_boot :: boot_config where
  "example_boot = \<lparr>bc_clear_bss = True, bc_xip = True, bc_gpio = False, bc_power_off = False, bc_cache = True\<rparr>"

definition example_system :: "(unit, nat, int list) system" where
  "example_system =
     \<lparr>sys_ram = ucast, sys_mem = mem_static riscv_qemu_virt_64, sys_dev = wit_state,
      sys_kernel = example_kernel\<lparr>k_pi := (k_pi example_kernel)\<lparr>pi_avail := False\<rparr>\<rparr>,
      sys_files = echo_files\<lparr>fdset := replicate 64 None\<rparr>\<rparr>"

text \<open>The addresses the loop of a range operation visits.\<close>

definition cache_lines :: "u64 \<Rightarrow> u64 \<Rightarrow> nat \<Rightarrow> u64 list" where
  "cache_lines start sz l = map (\<lambda>k. start + of_nat (k * l)) [0..<(unat sz + l - 1) div l]"

text \<open>
  The idle thread waits and switches with interrupts enabled, and the shutdown of the system is
  reached with interrupts disabled.
\<close>

definition idle_main_inv :: "'h idle \<Rightarrow> bool" where
  "idle_main_inv s \<longleftrightarrow>
     (id_pc s \<in> {Idle_loop, Idle_poll, Idle_wait, Idle_switch, Idle_resume, Idle_stop} \<longrightarrow> intr_enabled (id_csr s)) \<and>
     (id_pc s = Idle_halt \<longrightarrow> \<not> intr_enabled (id_csr s))"

subsection \<open>Start, cache ranges and the idle thread\<close>

lemma copy_section_spec:
  assumes "load_image cs \<inter> target cs = {}"
  shows "copy_section cs m = (\<lambda>a. if a \<in> target cs then m (cs_load cs + (a - cs_start cs)) else m a)"
proof -
  have "unat (cs_end cs - cs_start cs) \<le> unat (cs_start cs - cs_load cs)"
  proof (rule ccontr)
    assume "\<not> ?thesis"
    then have "cs_start cs \<in> load_image cs" "cs_start cs \<in> target cs" by (auto simp: region_def)
    with assms show False by blast
  qed
  from k_memcpy_spec [OF this] show ?thesis by (simp add: copy_section_def region_def)
qed

lemma clear_bss_spec: "clear_bss bc sec m = (\<lambda>a. if bc_clear_bss bc \<and> a \<in> bss sec then 0 else m a)"
  by (auto simp: clear_bss_def k_memset_spec region_def bss_def fun_eq_iff)

lemma copy_data_all: "bc_xip bc \<Longrightarrow> copy_data bc sec m = copy_all (copied sec) m"
  by (simp add: copy_data_def copied_def)

lemma copy_all_outside:
  assumes "\<forall>cs \<in> set css. load_image cs \<inter> target cs = {}" "\<forall>cs \<in> set css. a \<notin> target cs"
  shows "copy_all css m a = m a"
  using assms by (induction css m rule: copy_all.induct) (auto simp: copy_section_spec)

lemma copy_all_inside:
  assumes "\<forall>cs \<in> set css. \<forall>ds \<in> set css. load_image cs \<inter> target ds = {}"
    and "\<forall>i < length css. \<forall>j < length css. i \<noteq> j \<longrightarrow> target (css ! i) \<inter> target (css ! j) = {}"
    and "i < length css" "a \<in> target (css ! i)"
  shows "copy_all css m a = m (cs_load (css ! i) + (a - cs_start (css ! i)))"
  using assms
proof (induction css arbitrary: m i)
  case (Cons cs css)
  have img: "\<forall>cs \<in> set css. \<forall>ds \<in> set css. load_image cs \<inter> target ds = {}" using Cons.prems(1) by auto
  have dis: "\<forall>i < length css. \<forall>j < length css. i \<noteq> j \<longrightarrow> target (css ! i) \<inter> target (css ! j) = {}"
    using Cons.prems(2) by (metis Suc_less_eq length_Cons nth_Cons_Suc old.nat.inject)
  have self: "load_image cs \<inter> target cs = {}" using Cons.prems(1) by simp
  show ?case
  proof (cases i)
    case 0
    have "\<forall>ds \<in> set css. a \<notin> target ds"
    proof
      fix ds assume "ds \<in> set css"
      then obtain j where "j < length css" "ds = css ! j" by (auto simp: in_set_conv_nth)
      then show "a \<notin> target ds"
        using Cons.prems(2) [rule_format, of 0 "Suc j"] Cons.prems(4) 0 by auto
    qed
    then show ?thesis
      using 0 Cons.prems(4) img by (simp add: copy_all_outside copy_section_spec [OF self])
  next
    case (Suc j)
    let ?cs = "css ! j"
    have j: "j < length css" "a \<in> target ?cs" using Suc Cons.prems(3,4) by auto
    have "cs_load ?cs + (a - cs_start ?cs) \<in> load_image ?cs" using j(2) by (simp add: region_def)
    then have "cs_load ?cs + (a - cs_start ?cs) \<notin> target cs" using Cons.prems(1) j(1) by auto
    then show ?thesis
      using Cons.IH [OF img dis j] Suc by (simp add: copy_section_spec [OF self])
  qed
qed simp

text \<open>
  C37. Memory after the start code, in every configuration.  With \<open>CONFIG_CLEAR_BSS\<close> every byte of the
  bss is zero, without it the bss stays as it was.  With \<open>CONFIG_XIP\<close> every byte of a section that runs
  from RAM is the byte of its load image, without it nothing is copied.  All other bytes stay.
  For \<open>CONFIG_XIP\<close> the linker script is relied on to place the sections apart from each other, from the bss
  and from the load images.
\<close>

theorem boot_sections_ready:
  assumes "bc_xip bc \<longrightarrow> laid_out sec"
  shows "(\<forall>a \<in> bss sec. copy_data bc sec (clear_bss bc sec m) a = (if bc_clear_bss bc then 0 else m a)) \<and>
    (bc_xip bc \<longrightarrow> (\<forall>cs \<in> set (copied sec). \<forall>a \<in> target cs.
      copy_data bc sec (clear_bss bc sec m) a = m (cs_load cs + (a - cs_start cs)))) \<and>
    (\<forall>a. a \<notin> bss sec \<and> (bc_xip bc \<longrightarrow> (\<forall>cs \<in> set (copied sec). a \<notin> target cs)) \<longrightarrow>
      copy_data bc sec (clear_bss bc sec m) a = m a)"
proof (cases "bc_xip bc")
  case False
  then show ?thesis by (simp add: copy_data_def clear_bss_spec)
next
  case True
  have img: "\<forall>cs \<in> set (copied sec). \<forall>ds \<in> set (copied sec). load_image cs \<inter> target ds = {}"
    and apart: "\<forall>cs \<in> set (copied sec). (target cs \<union> load_image cs) \<inter> bss sec = {}"
    using assms True unfolding laid_out_def by blast+
  have dis: "\<forall>i < length (copied sec). \<forall>j < length (copied sec). i \<noteq> j \<longrightarrow> target (copied sec ! i) \<inter> target (copied sec ! j) = {}"
    using assms True by (simp add: laid_out_def copied_def)
  have out: "copy_data bc sec m' a = m' a" if "\<forall>cs \<in> set (copied sec). a \<notin> target cs" for m' a
    using copy_all_outside [OF _ that] img by (simp add: copy_data_all [OF True])
  have "copy_data bc sec (clear_bss bc sec m) a = m (cs_load cs + (a - cs_start cs))" if cs: "cs \<in> set (copied sec)" "a \<in> target cs" for cs a
  proof -
    obtain i where i: "i < length (copied sec)" "cs = copied sec ! i" using cs(1) by (auto simp: in_set_conv_nth)
    have "cs_load cs + (a - cs_start cs) \<in> load_image cs" using cs(2) by (simp add: region_def)
    then have "cs_load cs + (a - cs_start cs) \<notin> bss sec" using apart cs(1) by blast
    then show ?thesis
      using copy_all_inside [OF img dis i(1), of a] i(2) cs(2) by (simp add: copy_data_all [OF True] clear_bss_spec)
  qed
  moreover have "copy_data bc sec (clear_bss bc sec m) a = (if bc_clear_bss bc then 0 else m a)" if "a \<in> bss sec" for a
  proof -
    have "\<forall>cs \<in> set (copied sec). a \<notin> target cs" using that apart by blast
    from out [OF this] show ?thesis using that by (simp add: clear_bss_spec)
  qed
  moreover have "copy_data bc sec (clear_bss bc sec m) a = m a" if "a \<notin> bss sec" "\<forall>cs \<in> set (copied sec). a \<notin> target cs" for a
    using out [OF that(2)] that(1) by (simp add: clear_bss_spec)
  ultimately show ?thesis using True by blast
qed

lemma region_apart:
  assumes "unat s + unat n \<le> unat t" "unat t + unat k \<le> 2 ^ 64"
  shows "region s n \<inter> region t k = {}"
proof -
  have "False" if "unat (a - s) < unat n" "unat (a - t) < unat k" for a
  proof -
    have "unat a = unat t + unat (a - t)"
      using that(2) assms(2) unat_add_lem [of t "a - t"] by simp
    moreover have "unat a = unat s + unat (a - s)"
      using that(1) assms unat_add_lem [of s "a - s"] by simp
    ultimately show False using that assms by linarith
  qed
  then show ?thesis by (auto simp: region_def)
qed

lemma region_0 [simp]: "region s 0 = {}"
  by (simp add: region_def)

lemma example_laid_out: "laid_out example_sections"
proof -
  have "region 0x20000000 4 \<inter> region 0x80000000 4 = {}" "region 0x20000000 4 \<inter> region 0x80000100 8 = {}"
    "region 0x80000000 4 \<inter> region 0x80000100 8 = {}"
    by (rule region_apart; simp)+
  then show ?thesis
    by (auto simp: laid_out_def bss_def example_sections_def copied_def Let_def less_Suc_eq numeral_eq_Suc)
qed

theorem boot_sections_ready_witness:
  "copy_data example_boot example_sections (clear_bss example_boot example_sections ucast) 0x80000003 = 3 \<and>
   copy_data example_boot example_sections (clear_bss example_boot example_sections ucast) 0x80000101 = 0"
proof -
  let ?m = "copy_data example_boot example_sections (clear_bss example_boot example_sections ucast)"
  have bc: "bc_clear_bss example_boot" "bc_xip example_boot" by (simp_all add: example_boot_def)
  have "bc_xip example_boot \<longrightarrow> laid_out example_sections" using example_laid_out ..
  note ready = boot_sections_ready [OF this, where m = ucast]
  have "sec_data example_sections \<in> set (copied example_sections)" "0x80000003 \<in> target (sec_data example_sections)"
    by (simp_all add: copied_def example_sections_def Let_def region_def)
  with ready bc have "?m 0x80000003 = ucast (cs_load (sec_data example_sections) + (0x80000003 - cs_start (sec_data example_sections)))"
    by blast
  moreover have "?m 0x80000101 = 0"
    using ready bc by (simp add: bss_def example_sections_def Let_def region_def)
  ultimately show ?thesis by (simp add: example_sections_def Let_def)
qed

lemma k_mem_init_no_brk:
  assumes "BRK_SIZE cfg = 0"
  shows "\<exists>ms. k_mem_init cfg hart area (mem_static cfg) = Some (- ENOMEM, ms)"
  by (simp add: k_mem_init_def k_mem_alloc_pages_def k_mem_node_lock_def k_mem_node_alloc_pages_nolock_def mem_static_def assms)

text \<open>
  C38. The start of the system.  The C objects have their static values (no page used, no process), the
  configuration is valid (the heap is whole pages and ends below the end of the address space, the area of
  \<open>brk\<close> is part of it), the initcalls succeed, every device of the finite tree has a driver, and the
  \<open>add\<close> operations of the drivers change only hardware and mapped registers and never refuse.  Then \<open>k_init_system\<close> returns when the area of \<open>brk\<close> is not empty, else it
  panics.  When it returns, the sections are in place, the page allocator holds its invariant, the pages
  of the area of \<open>brk\<close> at the start of the heap are in use and no other page is, every
  device of the tree is up, the process exists with the configured number, and the three standard
  descriptors are open as far as the table of descriptors has room for them.
\<close>

theorem k_init_system_boots:
  assumes cfg: "valid_config cfg" "unat area + HEAP_SIZE cfg < 2 ^ 64"
    and s: "sys_mem s = mem_static cfg" "\<not> pi_avail (k_pi (sys_kernel s))" "length (fdset (sys_files s)) = MAX_FD cfg"
    and drv: "calm ops" "willing ops" "run_initcalls calls 0 ((sys_dev s)\<lparr>probe_all_enabled := False\<rparr>) = Some (0, d1)"
      "rooted ds t (d1\<lparr>probe_all_enabled := True\<rparr>)" "\<forall>d \<in> set (tree_devs t). served ds d1 d"
  shows "if BRK_SIZE cfg = 0 then k_init_system cfg bc sec area hart ops calls s = None
    else \<exists>s'. k_init_system cfg bc sec area hart ops calls s = Some s' \<and>
      sys_ram s' = copy_data bc sec (clear_bss bc sec (sys_ram s)) \<and>
      mem_inv (sys_mem s') \<and> brk_top (sys_mem s') = area \<and> brk_cur (sys_mem s') = area \<and>
      length (stat_page (node_head (sys_mem s'))) = HEAP_SIZE cfg div 4096 \<and>
      (\<forall>i < HEAP_SIZE cfg div 4096. stat_page (node_head (sys_mem s')) ! i \<noteq> 0 \<longleftrightarrow> i * 4096 < BRK_SIZE cfg) \<and>
      (\<forall>d \<in> set (tree_devs t). up (sys_dev s') d) \<and>
      k_proc_get_pid (sys_kernel s') = Some (MAIN_PID cfg) \<and>
      (\<forall>fd \<in> {0, 1, 2}. fd < MAX_FD cfg \<longrightarrow> k_file_get_desc cfg (int fd) (sys_files s') = Some fd)"
proof (cases "BRK_SIZE cfg = 0")
  case True
  then show ?thesis using k_mem_init_no_brk [OF True, of hart area]
    by (auto simp: k_init_system_def Let_def s(1) k_init_panic_internal_def)
next
  case False
  let ?n = "(BRK_SIZE cfg + 4095) div 4096"
  obtain ms v where ms: "k_mem_init cfg hart area (mem_static cfg) = Some (0, ms)" "mem_inv ms" "brk_top ms = area" "brk_cur ms = area"
      "v \<noteq> 0" "stat_page (node_head ms) = replicate ?n v @ replicate (HEAP_SIZE cfg div 4096 - ?n) 0"
    using k_mem_init_spec [OF cfg(1) _ cfg(2), of hart] False unfolding Let_def by blast
  have n: "?n \<le> HEAP_SIZE cfg div 4096" using cfg(1) by (auto simp: valid_config_def)
  have pages: "length (stat_page (node_head ms)) = HEAP_SIZE cfg div 4096"
    "\<forall>i < HEAP_SIZE cfg div 4096. stat_page (node_head ms) ! i \<noteq> 0 \<longleftrightarrow> i * 4096 < BRK_SIZE cfg"
    using n ms(5) by (auto simp: ms(6) nth_append)
  have "\<forall>d \<in> set (tree_devs t). served ds (d1\<lparr>probe_all_enabled := True\<rparr>) d"
    using drv(5) by (simp add: served_def)
  from probe_until_done [OF drv(1,2,4) this] obtain d2
    where d2: "init_drivers ops calls (sys_dev s) = Some (0, d2)" "\<forall>d \<in> set (tree_devs t). up d2 d"
    using drv(3) unfolding init_drivers_def by auto
  define k where "k = (sys_kernel s)\<lparr>k_pi := (k_pi (sys_kernel s))\<lparr>pi_avail := True, pid := MAIN_PID cfg\<rparr>\<rparr>"
  define fs where "fs = snd (k_file_stdio_init cfg (bc_gpio bc) (sys_files s))"
  have p: "init_proc cfg bc (sys_kernel s) (sys_files s) = Some (0, k, fs)"
    using s(2) by (simp add: init_proc_def k_proc_create_def k_def fs_def k_file_stdio_init_def Let_def)
  have "k_proc_get_pid k = Some (MAIN_PID cfg)"
    by (simp add: k_def k_proc_get_pid_def k_proc_get_current_def)
  moreover have "\<forall>fd \<in> {0, 1, 2}. fd < MAX_FD cfg \<longrightarrow> k_file_get_desc cfg (int fd) fs = Some fd"
    using s(3) by (auto simp: fs_def k_file_stdio_init_def k_file_set_desc_def k_file_get_desc_def Let_def)
  ultimately show ?thesis
    using False ms(1-4) pages d2 p s(1) by (simp add: k_init_system_def Let_def)
qed

theorem k_init_system_boots_witness:
  "\<exists>s'. k_init_system riscv_qemu_virt_64 example_boot example_sections 0x80100000 0 wit_ops [] example_system = Some s' \<and>
    mem_inv (sys_mem s') \<and> up (sys_dev s') 3 \<and> k_proc_get_pid (sys_kernel s') = Some 1 \<and> k_file_get_desc riscv_qemu_virt_64 2 (sys_files s') = Some 2"
proof -
  have cfg: "0 < BRK_SIZE riscv_qemu_virt_64" "unat (0x80100000 :: u64) + HEAP_SIZE riscv_qemu_virt_64 < 2 ^ 64"
    "3 \<le> MAX_FD riscv_qemu_virt_64" "MAIN_PID riscv_qemu_virt_64 = 1"
    by (simp_all add: riscv_qemu_virt_64_def)
  have s: "sys_mem example_system = mem_static riscv_qemu_virt_64" "\<not> pi_avail (k_pi (sys_kernel example_system))"
    "length (fdset (sys_files example_system)) = MAX_FD riscv_qemu_virt_64" "sys_dev example_system = wit_state"
    by (simp_all add: example_system_def riscv_qemu_virt_64_def)
  have sv: "\<forall>d \<in> set (tree_devs wit_tree). served [0, 1, 3, 4, 5] (wit_state\<lparr>probe_all_enabled := False\<rparr>) d"
    using wit_rep(3) by (simp add: served_def)
  have ini: "run_initcalls [] 0 ((sys_dev example_system)\<lparr>probe_all_enabled := False\<rparr>) = Some (0, wit_state\<lparr>probe_all_enabled := False\<rparr>)"
    by (simp add: s(4))
  have root: "rooted [0, 1, 3, 4, 5] wit_tree (wit_state\<lparr>probe_all_enabled := False\<rparr>\<lparr>probe_all_enabled := True\<rparr>)"
    using wit_rooted by simp
  obtain s' where s': "k_init_system riscv_qemu_virt_64 example_boot example_sections 0x80100000 0 wit_ops [] example_system = Some s'"
    "mem_inv (sys_mem s')" "\<forall>d \<in> set (tree_devs wit_tree). up (sys_dev s') d" "k_proc_get_pid (sys_kernel s') = Some 1"
    "k_file_get_desc riscv_qemu_virt_64 2 (sys_files s') = Some 2"
    using k_init_system_boots [OF valid_config_riscv_qemu_virt_64 cfg(2) s(1-3) wit_calm ini root sv, of example_boot example_sections 0] cfg(1,3,4)
    by auto
  moreover have "3 \<in> set (tree_devs wit_tree)" by (simp add: wit_tree_def)
  ultimately show ?thesis by blast
qed

lemma upt_from: "i < n \<Longrightarrow> [i..<n] = i # [Suc i..<n]"
  by (rule upt_conv_Cons)

lemma cbo_loop_lines:
  assumes "0 < l" "unat sz + l \<le> 2 ^ 64" "k \<le> (unat sz + l - 1) div l"
  shows "cbo_loop cbo p sz (of_nat l) (of_nat (k * l)) h =
    Some (fold cbo (map (\<lambda>k. p + of_nat (k * l)) [k..<(unat sz + l - 1) div l]) h)"
  using assms(3)
proof (induction "(unat sz + l - 1) div l - k" arbitrary: k h)
  case 0
  let ?n = "(unat sz + l - 1) div l"
  from 0 have k: "k = ?n" by simp
  have ub: "?n * l \<le> unat sz + l - 1" by simp
  then have small: "?n * l < 2 ^ 64" using assms(1,2) by linarith
  have "unat sz + l - 1 < ?n * l + l" using dividend_less_div_times [OF assms(1), of "unat sz + l - 1"] by simp
  then have "unat sz \<le> ?n * l" using assms(1) by linarith
  moreover have "unat (of_nat (?n * l) :: u64) = ?n * l" using small by (simp add: unat_of_nat take_bit_nat_eq_self_iff del: of_nat_mult)
  ultimately have "\<not> (of_nat (k * l) :: u64) < sz" by (simp add: word_less_nat_alt k del: of_nat_mult)
  then show ?case by (simp add: cbo_loop.simps k del: of_nat_mult)
next
  case (Suc x)
  let ?n = "(unat sz + l - 1) div l"
  have k: "Suc k \<le> ?n" "k < ?n" using Suc.hyps(2) by linarith+
  have "Suc k * l \<le> unat sz + l - 1" using k(1) by (metis div_times_less_eq_dividend mult_le_mono1 order_trans)
  then have lt: "k * l < unat sz" using assms(1) by simp
  have small: "unat sz < 2 ^ 64" using unsigned_less [of sz] by simp
  have "unat (of_nat (k * l) :: u64) = k * l"
    using lt small by (simp add: unat_of_nat take_bit_nat_eq_self_iff del: of_nat_mult)
  then have "(of_nat (k * l) :: u64) < sz" using lt by (simp add: word_less_nat_alt del: of_nat_mult)
  moreover have "(of_nat (k * l) :: u64) + of_nat l = of_nat (Suc k * l)" by (simp add: algebra_simps)
  moreover have "x = ?n - Suc k" using Suc.hyps(2) by linarith
  ultimately show ?case
    using Suc.hyps(1) [of "Suc k" "cbo (p + of_nat (k * l)) h"] k
    by (subst cbo_loop.simps) (simp add: upt_from del: of_nat_mult mult_Suc)
qed

lemma cbo_range_lines:
  assumes "bc_cache bc" "line_size_d cpu = int l" "0 < l" "unat sz + l \<le> 2 ^ 64"
  shows "cbo_range bc cbo cpu start sz h = Some (0, fold cbo (cache_lines start sz l) h)"
  using cbo_loop_lines [OF assms(3,4), of 0 cbo start h] assms(1-3)
  by (simp add: cbo_range_def k_cpu_cache_get_line_size_d_def cache_lines_def)

lemma cache_lines_cover:
  assumes "0 < l" "unat start mod l = 0" "unat start + unat sz \<le> 2 ^ 64" "unat (a - start) < unat sz"
  shows "\<exists>x \<in> set (cache_lines start sz l). unat x div l = unat a div l"
proof -
  let ?o = "unat (a - start)"
  let ?k = "?o div l"
  have a: "unat a = unat start + ?o"
    using assms(3,4) unat_add_lem [of start "a - start"] by simp
  have small: "?o < 2 ^ 64" using unsigned_less [of "a - start"] by simp
  have "?k * l \<le> ?o" by simp
  with small have "?k * l < 2 ^ 64" by (rule order.strict_trans1 [rotated])
  then have "unat (of_nat (?k * l) :: u64) = ?k * l"
    by (subst unat_of_nat) (rule mod_less, simp)
  moreover have "unat start + ?k * l < 2 ^ 64"
    using assms(3,4) \<open>?k * l \<le> ?o\<close> by linarith
  ultimately have x: "unat (start + of_nat (?k * l)) = unat start + ?k * l"
    using unat_add_lem [of start "of_nat (?k * l)"] by (simp del: of_nat_mult)
  obtain q where q: "unat start = q * l" using assms(2) by (metis dvd_div_mult_self mod_0_imp_dvd)
  have "unat (start + of_nat (?k * l)) div l = unat a div l"
    unfolding x a q using assms(1) by simp
  moreover have "?k < (unat sz + l - 1) div l"
  proof -
    have "?o + l \<le> unat sz + l - 1" using assms(4) by linarith
    then have "(?o + l) div l \<le> (unat sz + l - 1) div l" by (rule div_le_mono)
    moreover have "(?o + l) div l = ?k + 1" using assms(1) by (intro div_add_self2) simp
    ultimately show ?thesis by simp
  qed
  ultimately show ?thesis
    by (auto simp: cache_lines_def simp del: of_nat_mult)
qed

text \<open>
  Cleaning, invalidating and flushing a range, as long as the offset of the loop does not wrap.
  Without \<open>CONFIG_CACHE\<close> the operations return 0 and execute no cache-block instruction; without a line
  size they return \<open>-EINVAL\<close>; else they return 0 and execute one cache-block instruction of
  their own kind per line size from the start, in order.  When the range starts at a line boundary
  and ends within the address space, no line of a byte of the range is left out.
\<close>

theorem cpu_riscv_cache_ranges:
  assumes "unat sz + nat (line_size_d cpu) \<le> 2 ^ 64"
  shows "let l = nat (line_size_d cpu);
      run = (\<lambda>op. if \<not> bc_cache bc then (0, h) else if l = 0 then (- EINVAL, h) else (0, fold (cbo op) (cache_lines start sz l) h))
    in cpu_riscv_clean_range bc cbo cpu start sz h = Some (run Cbo_clean) \<and>
      cpu_riscv_inv_range bc cbo cpu start sz h = Some (run Cbo_inval) \<and>
      cpu_riscv_flush_range bc cbo cpu start sz h = Some (run Cbo_flush) \<and>
      (0 < l \<and> unat start mod l = 0 \<and> unat start + unat sz \<le> 2 ^ 64 \<longrightarrow>
        (\<forall>a. unat (a - start) < unat sz \<longrightarrow> (\<exists>x \<in> set (cache_lines start sz l). unat x div l = unat a div l)))"
proof -
  let ?l = "nat (line_size_d cpu)"
  have "cbo_range bc f cpu start sz h = Some (if \<not> bc_cache bc then (0, h) else if ?l = 0 then (- EINVAL, h)
      else (0, fold f (cache_lines start sz ?l) h))" for f
    using cbo_range_lines [of bc cpu ?l sz f start h] assms
    by (auto simp: cbo_range_def k_cpu_cache_get_line_size_d_def)
  then show ?thesis
    using cache_lines_cover [of ?l start sz]
    by (simp add: cpu_riscv_clean_range_def cpu_riscv_inv_range_def cpu_riscv_flush_range_def Let_def)
qed

theorem cpu_riscv_cache_ranges_witness:
  "cpu_riscv_flush_range example_boot (\<lambda>_ a h. h @ [a]) (example_cpu 0\<lparr>line_size_d := 64\<rparr>) 0x80000000 65 [] =
     Some (0, [0x80000000, 0x80000040])"
proof -
  have "cpu_riscv_flush_range example_boot (\<lambda>_ a h. h @ [a]) (example_cpu 0\<lparr>line_size_d := 64\<rparr>) 0x80000000 65 [] =
      Some (0, fold (\<lambda>a h. h @ [a]) (cache_lines 0x80000000 65 64) [])"
    using cpu_riscv_cache_ranges [of 65 "example_cpu 0\<lparr>line_size_d := 64\<rparr>" example_boot "[]" "\<lambda>_ a h. h @ [a]" "0x80000000"]
    by (simp add: example_boot_def Let_def)
  then show ?thesis by (simp add: cache_lines_def upt_rec)
qed

text \<open>From an address inside a line the last line of the range can be left out.\<close>

lemma cache_range_misses_line:
  "unat (0x80000040 - 0x8000003c :: u64) < unat (8 :: u64) \<and>
   \<not> (\<exists>x \<in> set (cache_lines 0x8000003c 8 64). unat x div 64 = unat (0x80000040 :: u64) div 64)"
  by (simp add: cache_lines_def upt_rec)

lemma idle_step_inv:
  assumes "idle_step bc rst ops call hs hart c is_leader s s'" "idle_main_inv s"
  shows "idle_main_inv s'"
  using assms k_intr_save_restore by cases (auto simp: idle_main_inv_def)

text \<open>A CPU with a task switches to it, at the latest after one look at the task.\<close>

lemma idle_takes_task:
  assumes "id_pc s = Idle_loop \<or> id_pc s = Idle_wait" "k_cpu_get_running (id_k s) c" "k_cpu_get_thread_task (id_k s) c = Some t"
  shows "\<exists>s1 s2. idle_step bc rst ops call hs hart c is_leader s s1 \<and> idle_step bc rst ops call hs hart c is_leader s1 s2 \<and>
    id_pc s2 = Idle_switch \<and> id_k s2 = id_k s"
proof -
  let ?s1 = "s\<lparr>id_ti := Some t, id_pc := Idle_poll\<rparr>"
  have "idle_step bc rst ops call hs hart c is_leader s ?s1"
    using assms idle_again [of s c bc rst ops call hs hart is_leader] idle_woken [of s bc rst ops call hs hart c is_leader] by auto
  moreover have "idle_step bc rst ops call hs hart c is_leader ?s1 (?s1\<lparr>id_pc := Idle_switch\<rparr>)"
    by (rule idle_task) simp_all
  ultimately show ?thesis by force
qed

end
