(* ===== verification/Board.thy ===== *)
theory Board
  imports Device Event Intc Clk Uart Gpio Drivers
begin

section \<open>Boards\<close>

text \<open>
  The descriptions of the four boards, \<^verbatim>\<open>board/riscv/*/board.c\<close>, and the start of a board: its
  initialisation function adds each device to the root bus, and probing brings the devices up.  A board
  is the list of its devices in the order in which they are added, each with the \<^verbatim>\<open>add_device\<close>
  function it is added by; a device is the object \<open>i + 1\<close> of the store when it is the \<open>i\<close>-th of the list.
  A word of the configuration is a number or the address of a string; where the strings are is the
  parameter \<open>strtab\<close>.  \<open>board_typed\<close> is a type system for descriptions: every device has a driver, the
  values a driver needs are there and of the right sort, and every reference is to a device of the class
  the reader of the reference takes it for.
\<close>

subsection \<open>Descriptions\<close>

datatype prop_val = Num u64 | Uptr string

type_synonym conf_prop = "string \<times> prop_val list"

record board_dev =
  bd_name :: string
  bd_vendor :: string
  bd_type :: string
  bd_conf :: "conf_prop list"

datatype dev_kind = K_cpu | K_intc | K_clk | K_timer | K_reset | K_uart | K_gpio

type_synonym board = "(dev_kind \<times> board_dev) list"

abbreviation (input) RV_IX_SIX :: u64 where "RV_IX_SIX \<equiv> 3"
abbreviation (input) RV_IX_TIX :: u64 where "RV_IX_TIX \<equiv> 7"
abbreviation (input) RV_IX_EIX :: u64 where "RV_IX_EIX \<equiv> 11"
abbreviation (input) KHZ :: u64 where "KHZ \<equiv> 1000"
abbreviation (input) MHZ :: u64 where "MHZ \<equiv> 1000000"
abbreviation (input) GHZ :: u64 where "GHZ \<equiv> 1000000000"

text \<open>The numbered names of the macros, for one digit.\<close>

definition numbered :: "string \<Rightarrow> nat \<Rightarrow> string" where
  "numbered s n = s @ [char_of (48 + n)]"

definition CPU_DEVICE :: "nat \<Rightarrow> board_dev" where
  "CPU_DEVICE n = \<lparr>bd_name = numbered ''cpu'' n, bd_vendor = ''none'', bd_type = ''cpu_riscv'',
     bd_conf = [(''hartid'', [Num (of_nat n)])]\<rparr>"

definition INTC_DEVICE :: "nat \<Rightarrow> board_dev" where
  "INTC_DEVICE n = \<lparr>bd_name = numbered ''rvintc'' n, bd_vendor = ''riscv'', bd_type = ''priv1_10'',
     bd_conf = [(''cpu'', [Uptr (numbered ''cpu'' n)])]\<rparr>"

text \<open>The lines of a table \<open>interrupts\<close>: interrupt \<open>ix\<close> of each of the first \<open>n\<close> controllers.\<close>

definition rvintc_lines :: "nat \<Rightarrow> u64 \<Rightarrow> prop_val list" where
  "rvintc_lines n ix = concat (map (\<lambda>i. [Uptr (numbered ''rvintc'' i), Num ix]) [0..<n])"

definition clint :: "nat \<Rightarrow> board_dev" where
  "clint n = \<lparr>bd_name = ''clint'', bd_vendor = ''sifive'', bd_type = ''clint0'',
     bd_conf = [(''reg'', [Num 0x2000000]), (''reg-size'', [Num 0x1000]),
       (''interrupts'', rvintc_lines n RV_IX_SIX), (''ipi'', [Num 1])]\<rparr>"

definition plic :: "nat \<Rightarrow> board_dev" where
  "plic n = \<lparr>bd_name = ''plic'', bd_vendor = ''sifive'', bd_type = ''plic0'',
     bd_conf = [(''reg'', [Num 0xc000000]), (''reg-size'', [Num 0x2000000]),
       (''interrupts'', rvintc_lines n RV_IX_EIX)]\<rparr>"

definition clint_timer :: "nat \<Rightarrow> string \<Rightarrow> board_dev" where
  "clint_timer n clk = \<lparr>bd_name = ''clint_timer'', bd_vendor = ''sifive'', bd_type = ''clint0_timer'',
     bd_conf = [(''reg'', [Num 0x2004000]), (''reg-size'', [Num 0xc000]),
       (''interrupts'', rvintc_lines n RV_IX_TIX), (''clocks'', [Uptr clk, Num 0]), (''system'', [Num 1])]\<rparr>"

definition fixed_clk :: "string \<Rightarrow> u64 \<Rightarrow> board_dev" where
  "fixed_clk name f = \<lparr>bd_name = name, bd_vendor = ''none'', bd_type = ''clk_fixed'',
     bd_conf = [(''frequency'', [Num f])]\<rparr>"

definition qemu_virt_reset0 :: board_dev where
  "qemu_virt_reset0 = \<lparr>bd_name = ''reset0'', bd_vendor = ''sifive'', bd_type = ''qemu_test'',
     bd_conf = [(''reg'', [Num 0x00100000]), (''reg-size'', [Num 0x1000]), (''system'', [Num 1])]\<rparr>"

definition qemu_virt_uart0 :: board_dev where
  "qemu_virt_uart0 = \<lparr>bd_name = ''uart0'', bd_vendor = ''ns'', bd_type = ''ns16550'',
     bd_conf = [(''reg'', [Num 0x10000000]), (''reg-size'', [Num 0x100]), (''reg-width'', [Num 1]),
       (''clocks'', [Uptr ''rtcclk'', Num 0]), (''interrupts'', [Uptr ''plic'', Num 10])]\<rparr>"

definition hifive1_uart :: "string \<Rightarrow> u64 \<Rightarrow> board_dev" where
  "hifive1_uart name reg = \<lparr>bd_name = name, bd_vendor = ''sifive'', bd_type = ''uart0'',
     bd_conf = [(''reg'', [Num reg]), (''reg-size'', [Num 0x1000]),
       (''clocks'', [Uptr ''hfclk'', Num 0]), (''baud'', [Num 115200])]\<rparr>"

definition unleashed_prci :: board_dev where
  "unleashed_prci = \<lparr>bd_name = ''prci'', bd_vendor = ''sifive'', bd_type = ''prci0'',
     bd_conf = [(''reg'', [Num 0x10000000]), (''reg-size'', [Num 0x1000]), (''clocks'', [Uptr ''hfclk'', Num 0]),
       (''frequency'', [Num (600 * MHZ), Num 0, Num (1 * GHZ), Num (125 * MHZ)])]\<rparr>"

definition unleashed_uart0 :: board_dev where
  "unleashed_uart0 = \<lparr>bd_name = ''uart0'', bd_vendor = ''sifive'', bd_type = ''uart0'',
     bd_conf = [(''reg'', [Num 0x10010000]), (''reg-size'', [Num 0x1000]), (''clocks'', [Uptr ''prci'', Num 1]),
       (''interrupts'', [Uptr ''plic'', Num 4]), (''baud'', [Num 115200])]\<rparr>"

definition unleashed_uart1 :: board_dev where
  "unleashed_uart1 = \<lparr>bd_name = ''uart1'', bd_vendor = ''sifive'', bd_type = ''uart0'',
     bd_conf = [(''reg'', [Num 0x10011000]), (''reg-size'', [Num 0x1000]), (''clocks'', [Uptr ''prci'', Num 1]),
       (''baud'', [Num 115200])]\<rparr>"

definition ns31_uart0 :: board_dev where
  "ns31_uart0 = \<lparr>bd_name = ''uart0'', bd_vendor = ''xilinx'', bd_type = ''uart_lite'',
     bd_conf = [(''reg'', [Num 0xe4006000]), (''reg-size'', [Num 0x1000]),
       (''interrupts'', [Uptr ''plic'', Num 9]), (''baud'', [Num 9600])]\<rparr>"

definition ns31_gpio0 :: board_dev where
  "ns31_gpio0 = \<lparr>bd_name = ''gpio0'', bd_vendor = ''xilinx'', bd_type = ''gpio_v2'',
     bd_conf = [(''reg'', [Num 0xe4001000]), (''reg-size'', [Num 0x1000]),
       (''interrupts'', [Uptr ''plic'', Num 1])]\<rparr>"

text \<open>The devices in the order in which the initialisation functions add them.\<close>

definition cores :: "nat \<Rightarrow> board" where
  "cores n = concat (map (\<lambda>i. [(K_cpu, CPU_DEVICE i), (K_intc, INTC_DEVICE i)]) [0..<n])"

definition qemu_virt :: board where
  "qemu_virt = cores 4 @ [(K_intc, plic 4), (K_intc, clint 4), (K_clk, fixed_clk ''rtcclk'' (10 * MHZ)),
     (K_timer, clint_timer 4 ''rtcclk''), (K_reset, qemu_virt_reset0), (K_uart, qemu_virt_uart0)]"

definition sifive_hifive1 :: board where
  "sifive_hifive1 = cores 1 @ [(K_intc, clint 1), (K_clk, fixed_clk ''lfclk'' (32 * KHZ)),
     (K_clk, fixed_clk ''hfclk'' (16 * MHZ)), (K_timer, clint_timer 1 ''lfclk''),
     (K_uart, hifive1_uart ''uart0'' 0x10013000), (K_uart, hifive1_uart ''uart1'' 0x10023000)]"

definition sifive_hifive_unleashed :: board where
  "sifive_hifive_unleashed = cores 5 @ [(K_intc, clint 5), (K_intc, plic 5), (K_clk, fixed_clk ''hfclk'' 33333333),
     (K_clk, fixed_clk ''rtcclk'' (1 * MHZ)), (K_clk, unleashed_prci), (K_timer, clint_timer 5 ''rtcclk''),
     (K_uart, unleashed_uart0), (K_uart, unleashed_uart1)]"

definition nsitexe_ns31_arty :: board where
  "nsitexe_ns31_arty = cores 1 @ [(K_intc, clint 1), (K_intc, plic 1), (K_clk, fixed_clk ''clk'' (25 * MHZ)),
     (K_timer, clint_timer 1 ''clk''), (K_uart, ns31_uart0), (K_gpio, ns31_gpio0)]"

subsection \<open>Initialisation functions\<close>

definition k_cpu_add_device :: "'d drv_ops \<Rightarrow> devptr \<Rightarrow> busptr option \<Rightarrow> 'd dstate \<Rightarrow> (int \<times> 'd dstate) option" where
  "k_cpu_add_device ops d parent s = do {
     (r, s) \<leftarrow> k_device_add ops (Some d) parent s;
     Some (if IS_ERROR r then r else 0, s)
   }"

definition k_cpu_remove :: "devptr option \<Rightarrow> int" where
  "k_cpu_remove cpu = k_device_remove cpu"

text \<open>The devices, and the statics of the classes: the controller for interrupts between CPUs and the default devices.\<close>

record ('d, 'h) board_state =
  bs_dev :: "'d dstate"
  bs_ipi :: "devptr option"
  bs_timer :: "devptr option"
  bs_reset :: "devptr option"
  bs_gpio :: "devptr option"
  bs_console :: "'h console"

definition add_device ::
    "'d drv_ops \<Rightarrow> (devptr \<Rightarrow> 'h k_uart_device) \<Rightarrow> dev_kind \<Rightarrow> devptr \<Rightarrow> ('d, 'h) board_state \<Rightarrow> ('d, 'h) board_state option" where
  "add_device ops uarts k d st =
     (case k of
        K_cpu \<Rightarrow> do {
          (_, s) \<leftarrow> k_cpu_add_device ops d (Some bus_root) (bs_dev st); Some (st\<lparr>bs_dev := s\<rparr>) }
      | K_intc \<Rightarrow> do {
          (_, s, x) \<leftarrow> k_intc_add_device ops d (Some bus_root) (bs_dev st, bs_ipi st); Some (st\<lparr>bs_dev := s, bs_ipi := x\<rparr>) }
      | K_clk \<Rightarrow> do {
          (_, s) \<leftarrow> k_clk_add_device ops d (Some bus_root) (bs_dev st); Some (st\<lparr>bs_dev := s\<rparr>) }
      | K_timer \<Rightarrow> do {
          (_, s, x) \<leftarrow> k_timer_add_device ops d (Some bus_root) (bs_dev st, bs_timer st); Some (st\<lparr>bs_dev := s, bs_timer := x\<rparr>) }
      | K_reset \<Rightarrow> do {
          (_, s, x) \<leftarrow> k_reset_add_device ops d (Some bus_root) (bs_dev st, bs_reset st); Some (st\<lparr>bs_dev := s, bs_reset := x\<rparr>) }
      | K_uart \<Rightarrow> do {
          (_, s, x) \<leftarrow> k_uart_add_device ops d (uarts d) (Some bus_root) True (bs_dev st) (bs_console st);
          Some (st\<lparr>bs_dev := s, bs_console := x\<rparr>) }
      | K_gpio \<Rightarrow> do {
          (_, s, x) \<leftarrow> k_gpio_add_device ops d (Some bus_root) (bs_dev st, bs_gpio st); Some (st\<lparr>bs_dev := s, bs_gpio := x\<rparr>) })"

fun add_devices ::
    "'d drv_ops \<Rightarrow> (devptr \<Rightarrow> 'h k_uart_device) \<Rightarrow> dev_kind list \<Rightarrow> devptr \<Rightarrow> ('d, 'h) board_state \<Rightarrow> ('d, 'h) board_state option" where
  "add_devices ops uarts [] d st = Some st"
| "add_devices ops uarts (k # ks) d st = do { st \<leftarrow> add_device ops uarts k d st; add_devices ops uarts ks (Suc d) st }"

definition set_console :: "(devptr \<Rightarrow> 'h k_uart_device) \<Rightarrow> devptr \<Rightarrow> ('d, 'h) board_state \<Rightarrow> ('d, 'h) board_state" where
  "set_console uarts d st = st\<lparr>bs_console := snd (k_uart_set_default_console (Some (uarts d)) (bs_console st))\<rparr>"

text \<open>The index of a device of a board, by its name as \<open>k_bus_find_device\<close> compares names.\<close>

definition board_find :: "board \<Rightarrow> string \<Rightarrow> nat option" where
  "board_find b n = find_index (\<lambda>x. k_strcasecmp n (bd_name (snd x)) = 0) b"

definition board_qemu_virt_init ::
    "'d drv_ops \<Rightarrow> (devptr \<Rightarrow> 'h k_uart_device) \<Rightarrow> ('d, 'h) board_state \<Rightarrow> (int \<times> ('d, 'h) board_state) option" where
  "board_qemu_virt_init ops uarts st = do {
     st \<leftarrow> add_devices ops uarts (map fst qemu_virt) 1 st;
     Some (0, st)
   }"

definition board_hifive1_init ::
    "'d drv_ops \<Rightarrow> (devptr \<Rightarrow> 'h k_uart_device) \<Rightarrow> ('d, 'h) board_state \<Rightarrow> (int \<times> ('d, 'h) board_state) option" where
  "board_hifive1_init ops uarts st = do {
     st \<leftarrow> add_devices ops uarts (map fst sifive_hifive1) 1 st;
     uart0 \<leftarrow> board_find sifive_hifive1 ''uart0'';
     Some (0, set_console uarts (Suc uart0) st)
   }"

definition board_hifive_unleashed_init ::
    "'d drv_ops \<Rightarrow> (devptr \<Rightarrow> 'h k_uart_device) \<Rightarrow> ('d, 'h) board_state \<Rightarrow> (int \<times> ('d, 'h) board_state) option" where
  "board_hifive_unleashed_init ops uarts st = do {
     st \<leftarrow> add_devices ops uarts (map fst sifive_hifive_unleashed) 1 st;
     uart0 \<leftarrow> board_find sifive_hifive_unleashed ''uart0'';
     Some (0, set_console uarts (Suc uart0) st)
   }"

definition board_ns31_arty_init ::
    "'d drv_ops \<Rightarrow> (devptr \<Rightarrow> 'h k_uart_device) \<Rightarrow> ('d, 'h) board_state \<Rightarrow> (int \<times> ('d, 'h) board_state) option" where
  "board_ns31_arty_init ops uarts st = do {
     st \<leftarrow> add_devices ops uarts (map fst nsitexe_ns31_arty) 1 st;
     uart0 \<leftarrow> board_find nsitexe_ns31_arty ''uart0'';
     Some (0, set_console uarts (Suc uart0) st)
   }"

subsection \<open>The device objects\<close>

fun prop_word :: "(string \<Rightarrow> u64) \<Rightarrow> prop_val \<Rightarrow> u64" where
  "prop_word strtab (Num v) = v"
| "prop_word strtab (Uptr n) = strtab n"

text \<open>An entry: the name, the number of arguments and the array, whose rest is zero.\<close>

definition PROP_entry :: "(string \<Rightarrow> u64) \<Rightarrow> conf_prop \<Rightarrow> k_device_config" where
  "PROP_entry strtab p = \<lparr>cf_name = fst p, cf_count = int (length (snd p)),
     cf_val = map (prop_word strtab) (snd p) @ replicate (32 - length (snd p)) 0\<rparr>"

definition board_device :: "(string \<Rightarrow> u64) \<Rightarrow> board_dev \<Rightarrow> k_device" where
  "board_device strtab x = \<lparr>dev_name = Some (bd_name x), dev_vendor = bd_vendor x, dev_type = bd_type x,
     dev_conf = Some (map (PROP_entry strtab) (bd_conf x)), dev_drv = None, bus_parent = None, bus_child = None, dev_next = None,
     io_addr = 0, io_size = 0, dev_virt = 0, dev_probed = False, dev_failed = False\<rparr>"

subsection \<open>Types of descriptions\<close>

text \<open>The class of a device and the values it needs, as the drivers in \<^verbatim>\<open>driver/\<close> register and read them.\<close>

definition dev_class :: "board_dev \<Rightarrow> dev_kind option" where
  "dev_class x = map_of
     [((''none'', ''cpu_riscv''), K_cpu), ((''riscv'', ''priv1_10''), K_intc), ((''sifive'', ''clint0''), K_intc),
      ((''sifive'', ''plic0''), K_intc), ((''none'', ''clk_fixed''), K_clk), ((''sifive'', ''prci0''), K_clk),
      ((''sifive'', ''clint0_timer''), K_timer), ((''nsitexe'', ''icu_timer''), K_timer), ((''sifive'', ''qemu_test''), K_reset),
      ((''ns'', ''ns16550''), K_uart), ((''sifive'', ''uart0''), K_uart), ((''xilinx'', ''uart_lite''), K_uart),
      ((''xilinx'', ''gpio_v2''), K_gpio)] (bd_vendor x, bd_type x)"

definition required :: "board_dev \<Rightarrow> string list" where
  "required x =
     (if bd_type x = ''cpu_riscv'' then [''hartid''] else if bd_type x = ''priv1_10'' then [''cpu'']
      else if bd_type x = ''clk_fixed'' then [''frequency'']
      else [''reg'', ''reg-size''] @
        (if bd_type x \<in> {''clint0'', ''plic0'', ''clint0_timer''} then [''interrupts''] else []) @
        (if bd_type x \<in> {''clint0_timer'', ''icu_timer'', ''ns16550'', ''uart0'', ''prci0''} then [''clocks''] else []))"

definition refers :: "board \<Rightarrow> dev_kind \<Rightarrow> string \<Rightarrow> bool" where
  "refers b k n = (case board_find b n of None \<Rightarrow> False | Some j \<Rightarrow> dev_class (snd (b ! j)) = Some k)"

fun pairs_typed :: "board \<Rightarrow> dev_kind \<Rightarrow> prop_val list \<Rightarrow> bool" where
  "pairs_typed b k [] = True"
| "pairs_typed b k (Uptr n # Num v # vs) = (refers b k n \<and> pairs_typed b k vs)"
| "pairs_typed b k vs = False"

fun cpu_typed :: "board \<Rightarrow> prop_val list \<Rightarrow> bool" where
  "cpu_typed b [Uptr n] = refers b K_cpu n"
| "cpu_typed b vs = False"

fun number :: "prop_val \<Rightarrow> bool" where
  "number (Num v) = True"
| "number (Uptr n) = False"

definition prop_typed :: "board \<Rightarrow> conf_prop \<Rightarrow> bool" where
  "prop_typed b p \<longleftrightarrow> snd p \<noteq> [] \<and> length (snd p) \<le> 32 \<and>
     (if fst p = ''cpu'' then cpu_typed b (snd p)
      else if fst p = ''interrupts'' then pairs_typed b K_intc (snd p)
      else if fst p = ''clocks'' then pairs_typed b K_clk (snd p)
      else list_all number (snd p))"

definition conf_find :: "board_dev \<Rightarrow> string \<Rightarrow> conf_prop option" where
  "conf_find x key = find (\<lambda>p. k_strcasecmp key (fst p) = 0) (bd_conf x)"

definition dev_typed :: "board \<Rightarrow> dev_kind \<times> board_dev \<Rightarrow> bool" where
  "dev_typed b kx \<longleftrightarrow> dev_class (snd kx) = Some (fst kx) \<and>
     list_all (\<lambda>key. map_option fst (conf_find (snd kx) key) = Some key) (required (snd kx)) \<and>
     list_all (\<lambda>key. case conf_find (snd kx) key of None \<Rightarrow> True | Some p \<Rightarrow> fst p = key) [''cpu'', ''interrupts'', ''clocks''] \<and>
     list_all (\<lambda>p. conf_find (snd kx) (fst p) = Some p \<and> prop_typed b p) (bd_conf (snd kx))"

definition board_typed :: "board \<Rightarrow> bool" where
  "board_typed b \<longleftrightarrow> list_all (dev_typed b) b \<and> map (\<lambda>x. board_find b (bd_name (snd x))) b = map Some [0..<length b]"

text \<open>The strings a device refers to, and that every device refers to devices added before it only.\<close>

definition refs :: "board_dev \<Rightarrow> string list" where
  "refs x = concat (map (\<lambda>p. concat (map (\<lambda>v. case v of Uptr n \<Rightarrow> [n] | Num _ \<Rightarrow> []) (snd p))) (bd_conf x))"

definition board_ordered :: "board \<Rightarrow> bool" where
  "board_ordered b \<longleftrightarrow> list_all (\<lambda>i. list_all (\<lambda>n. case board_find b n of None \<Rightarrow> False | Some j \<Rightarrow> j < i) (refs (snd (b ! i)))) [0..<length b]"

subsection \<open>Reference definitions\<close>

text \<open>
  A driver that waits: in states where \<open>okay\<close> holds its \<open>add\<close> succeeds once the devices \<open>deps d\<close> are
  probed, and until then it succeeds or asks to be called again.  Drivers of buses succeed.
\<close>

definition patient :: "'h drv_ops \<Rightarrow> ('h dstate \<Rightarrow> bool) \<Rightarrow> devptr set \<Rightarrow> (devptr \<Rightarrow> devptr set) \<Rightarrow> bool" where
  "patient ops okay D deps \<longleftrightarrow>
     (\<forall>p f d s. op_dev_add ops p = Some f \<longrightarrow> d \<in> D \<longrightarrow> okay s \<longrightarrow>
        fst (f d s) \<in> {0, - EAGAIN} \<and> ((\<forall>e \<in> deps d. dev_probed (devs s e)) \<longrightarrow> fst (f d s) = 0)) \<and>
     (\<forall>p f b s. op_bus_add ops p = Some f \<longrightarrow> fst (f b s) = 0)"

definition ready :: "drvptr list \<Rightarrow> (devptr \<Rightarrow> devptr set) \<Rightarrow> 'h dstate \<Rightarrow> devptr \<Rightarrow> bool" where
  "ready ds deps s d \<longleftrightarrow> served ds s d \<and> (\<forall>e \<in> deps d. dev_probed (devs s e))"

definition kept :: "drvptr list \<Rightarrow> ('h dstate \<Rightarrow> bool) \<Rightarrow> bool" where
  "kept ds okay \<longleftrightarrow> (\<forall>s s'. keeps ds s s' \<longrightarrow> okay s \<longrightarrow> okay s')"

text \<open>What probing a list of devices does when their drivers wait.\<close>

definition pass_result ::
    "drvptr list \<Rightarrow> (devptr \<Rightarrow> devptr set) \<Rightarrow> 'h dstate \<Rightarrow> devptr set \<Rightarrow> int \<Rightarrow> (int \<times> 'h dstate) option \<Rightarrow> bool" where
  "pass_result ds deps s us r0 res \<longleftrightarrow>
     (\<exists>r s'. res = Some (r, s') \<and> keeps ds s s' \<and> r \<in> {0, - EAGAIN} \<and> (r = 0 \<longrightarrow> r0 = 0 \<and> (\<forall>d \<in> us. up s' d)) \<and>
       (\<forall>d \<in> us. ready ds deps s d \<longrightarrow> up s' d) \<and>
       (r0 = 0 \<and> (\<forall>d \<in> us. ready ds deps s d) \<longrightarrow> r = 0))"

text \<open>The devices of a board are on the root bus, in order, with their names and configurations.\<close>

definition on_board :: "(string \<Rightarrow> u64) \<Rightarrow> board \<Rightarrow> 'h dstate \<Rightarrow> bool" where
  "on_board strtab b s \<longleftrightarrow> dev_chain s (dev_child (buses s bus_root)) (map Suc [0..<length b]) \<and>
     dev_conf (devs s dev_root) = None \<and>
     (\<forall>i < length b. dev_name (devs s (Suc i)) = Some (bd_name (snd (b ! i))) \<and> bus_child (devs s (Suc i)) = None \<and>
        dev_conf (devs s (Suc i)) = Some (map (PROP_entry strtab) (bd_conf (snd (b ! i)))))"

text \<open>The devices a device refers to.\<close>

definition board_deps :: "board \<Rightarrow> devptr \<Rightarrow> devptr set" where
  "board_deps b d = (if d = 0 then {} else {Suc j |j n. n \<in> set (refs (snd (b ! (d - 1)))) \<and> board_find b n = Some j})"

text \<open>The class of the devices a table of references is about.\<close>

definition ref_class :: "string \<Rightarrow> dev_kind option" where
  "ref_class key = (if key = ''cpu'' then Some K_cpu else if key = ''interrupts'' then Some K_intc
     else if key = ''clocks'' then Some K_clk else None)"

definition linked :: "(string \<Rightarrow> u64) \<Rightarrow> board \<Rightarrow> nat \<Rightarrow> 'h dstate \<Rightarrow> 'h dstate \<Rightarrow> bool" where
  "linked strtab b m s0 s \<longleftrightarrow> dev_chain s (dev_child (buses s bus_root)) (map Suc [0..<m]) \<and> \<not> probe_all_enabled s \<and>
     drvs s = drvs s0 \<and> devs s dev_root = devs s0 dev_root \<and>
     (\<forall>i < length b. \<exists>p n. devs s (Suc i) = (board_device strtab (snd (b ! i)))\<lparr>bus_parent := p, dev_next := n\<rparr>) \<and>
     (\<forall>i < length b. m \<le> i \<longrightarrow> devs s (Suc i) = board_device strtab (snd (b ! i)))"

definition board_inits ::
    "(board \<times> ('d drv_ops \<Rightarrow> (devptr \<Rightarrow> 'h k_uart_device) \<Rightarrow> ('d, 'h) board_state \<Rightarrow> (int \<times> ('d, 'h) board_state) option)) list" where
  "board_inits = [(qemu_virt, board_qemu_virt_init), (sifive_hifive1, board_hifive1_init),
     (sifive_hifive_unleashed, board_hifive_unleashed_init), (nsitexe_ns31_arty, board_ns31_arty_init)]"

text \<open>An initialisation function as an initcall, which sees the devices only.\<close>

definition board_call ::
    "(('d, 'h) board_state \<Rightarrow> (int \<times> ('d, 'h) board_state) option) \<Rightarrow> ('d, 'h) board_state \<Rightarrow> 'd dstate \<Rightarrow> (int \<times> 'd dstate) option" where
  "board_call init st s = map_option (\<lambda>(r, st). (r, bs_dev st)) (init (st\<lparr>bs_dev := s\<rparr>))"

text \<open>
  The state a board starts from: the root device with its bus, which is empty, the drivers of the list
  \<open>ds\<close>, one for each device, and the static objects of the board.
\<close>

definition board_fresh :: "(string \<Rightarrow> u64) \<Rightarrow> board \<Rightarrow> drvptr list \<Rightarrow> 'd dstate \<Rightarrow> bool" where
  "board_fresh strtab b ds s \<longleftrightarrow> drv_chain (drvs s) (Some drv_head) ds \<and> attachable (drvs s) ds (devs s dev_root) \<and>
     bus_child (devs s dev_root) = Some bus_root \<and> dev_conf (devs s dev_root) = None \<and> dev_child (buses s bus_root) = None \<and>
     (\<forall>i < length b. devs s (Suc i) = board_device strtab (snd (b ! i)) \<and> attachable (drvs s) ds (board_device strtab (snd (b ! i))))"

text \<open>
  A driver whose \<open>add\<close> looks up every device its configuration refers to, as the drivers of the
  repository start, and passes on the result of the first that fails.
\<close>

fun first_error :: "(int \<times> 'x) option list \<Rightarrow> int" where
  "first_error [] = 0"
| "first_error (x # xs) = (case x of Some (r, _) \<Rightarrow> if r \<noteq> 0 then r else first_error xs | None \<Rightarrow> - EINVAL)"

definition ref_count :: "k_device \<Rightarrow> string \<Rightarrow> nat" where
  "ref_count dev key = (case k_device_get_conf_length (Some dev) (Some key) of (_, Some n) \<Rightarrow> nat n div 2 | _ \<Rightarrow> 0)"

definition resolve :: "(u64 \<Rightarrow> string) \<Rightarrow> devptr \<Rightarrow> 'd dstate \<Rightarrow> int" where
  "resolve cstr d s = (let dev = devs s d; r = first_error
       (map (\<lambda>j. conf_ref cstr ''interrupts'' s dev (int j)) [0..<ref_count dev ''interrupts''] @
        map (\<lambda>j. conf_ref cstr ''clocks'' s dev (int j)) [0..<ref_count dev ''clocks''])
     in if r \<noteq> 0 then r
        else if device_find_conf (Some dev) (Some ''cpu'') < 0 then 0
        else first_error [k_cpu_get_cpu_from_config cstr s dev 0])"

definition resolving_ops :: "(u64 \<Rightarrow> string) \<Rightarrow> 'd drv_ops" where
  "resolving_ops cstr = \<lparr>op_dev_add = (\<lambda>p. if p \<le> 1 then None else Some (\<lambda>d s. (resolve cstr d s, s))),
     op_bus_add = (\<lambda>_. None), op_dev_mmap = (\<lambda>_. None), op_bus_mmap = (\<lambda>_. None)\<rparr>"

definition wit_strtab :: "string \<Rightarrow> u64" where
  "wit_strtab n = (if n = ''cpu0'' then 1 else if n = ''rvintc0'' then 2 else if n = ''lfclk'' then 3 else 4)"

definition wit_cstr :: "u64 \<Rightarrow> string" where
  "wit_cstr a = (if a = 1 then ''cpu0'' else if a = 2 then ''rvintc0'' else if a = 3 then ''lfclk'' else ''hfclk'')"

definition wit_drivers :: "(string \<times> string) list" where
  "wit_drivers = [(''none'', ''none''), (''none'', ''dev_root''), (''none'', ''cpu_riscv''), (''riscv'', ''priv1_10''),
     (''sifive'', ''clint0''), (''none'', ''clk_fixed''), (''sifive'', ''clint0_timer''), (''sifive'', ''uart0'')]"

definition wit_board_dev :: "nat dstate" where
  "wit_board_dev = \<lparr>devs = (\<lambda>d. if d = 0 then wit_device ''root'' ''dev_root'' (Some 0) None
       else board_device wit_strtab (snd (sifive_hifive1 ! (d - 1)))),
     buses = (\<lambda>_. wit_bus ''bus_root'' None),
     drvs = (\<lambda>p. \<lparr>drv_vendor = Some (fst (wit_drivers ! p)), drv_type = Some (snd (wit_drivers ! p)),
       drv_next = (if p < 7 then Some (Suc p) else None)\<rparr>),
     probe_all_enabled = False, dhw = 0\<rparr>"

definition wit_board :: "'h console \<Rightarrow> (nat, 'h) board_state" where
  "wit_board c = \<lparr>bs_dev = wit_board_dev, bs_ipi = None, bs_timer = None, bs_reset = None, bs_gpio = None, bs_console = c\<rparr>"

subsection \<open>Drivers that wait for other devices\<close>

lemma keptD: "kept ds okay \<Longrightarrow> keeps ds s s' \<Longrightarrow> okay s \<Longrightarrow> okay s'"
  unfolding kept_def by blast

lemma keeps_probed: "keeps ds s s' \<Longrightarrow> dev_probed (devs s e) \<Longrightarrow> dev_probed (devs s' e)"
  by (simp add: keeps_def dev_keep_def)

lemma keeps_ready: "keeps ds s s' \<Longrightarrow> ready ds deps s d \<Longrightarrow> ready ds deps s' d"
  unfolding ready_def using keeps_served keeps_probed by metis

lemma device_call_add_patient:
  assumes "patient ops okay D deps" "d \<in> D" "okay s" "device_call_add ops d drv s = (r, s')"
  shows "r \<in> {0, - EAGAIN}" and "\<forall>e \<in> deps d. dev_probed (devs s e) \<Longrightarrow> r = 0"
proof -
  have "r \<in> {0, - EAGAIN} \<and> ((\<forall>e \<in> deps d. dev_probed (devs s e)) \<longrightarrow> r = 0)"
  proof (cases "op_dev_add ops drv")
    case (Some f)
    then have "fst (f d s) \<in> {0, - EAGAIN} \<and> ((\<forall>e \<in> deps d. dev_probed (devs s e)) \<longrightarrow> fst (f d s) = 0)"
      using assms(1-3) unfolding patient_def by blast
    then show ?thesis using assms(4) Some by (auto simp: device_call_add_def split: prod.splits if_splits)
  qed (use assms(4) in \<open>simp add: device_call_add_def\<close>)
  then show "r \<in> {0, - EAGAIN}" and "\<forall>e \<in> deps d. dev_probed (devs s e) \<Longrightarrow> r = 0" by blast+
qed

lemma device_prepare_patient:
  assumes "calm ops" "drv_chain (drvs s) (Some drv_head) ds" "patient ops okay D deps" "d \<in> D" "okay s"
    and stable: "kept ds okay"
  obtains r s' where "device_prepare ops d s = Some (r, s')" "keeps ds s s'" "r \<in> {0, - EAGAIN}" "r = 0 \<longrightarrow> up s' d"
    "ready ds deps s d \<longrightarrow> r = 0"
proof -
  obtain s1 where s1: "(if dev_drv (devs s d) = None then map_option snd (device_attach_driver d s) else Some s) = Some s1"
      "keeps ds s s1" "served ds s d \<Longrightarrow> dev_drv (devs s1 d) \<noteq> None"
    using device_attach_spec [OF assms(2), of d] by blast
  show thesis
  proof (cases "dev_drv (devs s1 d)")
    case None
    then show thesis using that [of "- EAGAIN" s1] s1 by (auto simp: device_prepare_def ready_def)
  next
    case (Some drv)
    show thesis
    proof (cases "dev_probed (devs s1 d)")
      case True
      then show thesis using that [of 0 s1] s1 Some by (auto simp: device_prepare_def up_def)
    next
      case False
      obtain r s2 where 2: "device_call_add ops d drv s1 = (r, s2)" by fastforce
      note c = device_call_add_spec [OF assms(1) Some 2]
      note w = device_call_add_patient [OF assms(3,4) keptD [OF stable s1(2) assms(5)] 2]
      have "ready ds deps s d \<longrightarrow> r = 0" using w(2) keeps_probed [OF s1(2)] unfolding ready_def by blast
      then show thesis
        using that [of r s2] s1 Some False c(1-3) w(1) 2 keeps_trans [OF s1(2) c(1)]
        by (auto simp: device_prepare_def up_def)
    qed
  qed
qed

lemma bus_prepare_patient:
  assumes "calm ops" "drv_chain (drvs s) (Some drv_head) ds" "patient ops okay D deps"
  obtains s' where "bus_prepare ops b s = Some (0, s')" "keeps ds s s'"
proof -
  obtain s1 where s1: "(if bus_drv (buses s b) = None then map_option snd (bus_attach_driver b s) else Some s) = Some s1"
      "keeps ds s s1"
    using bus_attach_spec [OF assms(2), of b] by blast
  show thesis
  proof (cases "bus_drv (buses s1 b)")
    case None
    then show thesis using that [of s1] s1 by (auto simp: bus_prepare_def)
  next
    case (Some drv)
    obtain r s2 where 2: "bus_call_add ops b drv s1 = (r, s2)" by fastforce
    have "fst (f b s1) = 0" if "op_bus_add ops drv = Some f" for f using assms(3) that unfolding patient_def by blast
    then have r: "r = 0" using 2 by (auto simp: bus_call_add_def split: option.splits prod.splits if_splits)
    show thesis
      using that [of s1] that [of s2] s1 Some 2 r keeps_trans [OF s1(2) bus_call_add_spec(1) [OF assms(1) 2]]
      by (cases "bus_probed (buses s1 b)") (auto simp: bus_prepare_def)
  qed
qed

lemma pass_list:
  assumes "calm ops" "patient ops okay D deps" "set es \<subseteq> D" "okay s" "r0 \<in> {0, - EAGAIN}"
    and stable: "kept ds okay"
    and "rep_list s p (map Leaf es)" "drv_chain (drvs s) (Some drv_head) ds"
  shows "pass_result ds deps s (set es) r0 (probe ops (P_loop p r0) s)"
  using assms(3-5,7,8)
proof (induction es arbitrary: s p r0)
  case Nil
  then show ?case by (simp add: probe.simps [of _ "P_loop _ _"] pass_result_def)
next
  case (Cons d es)
  have rep: "p = Some d" "bus_child (devs s d) = None" "rep_list s (dev_next (devs s d)) (map Leaf es)"
    using Cons.prems(4) by simp_all
  have dD: "d \<in> D" using Cons.prems(1) by simp
  obtain q s1 where q: "device_prepare ops d s = Some (q, s1)" "keeps ds s s1" "q \<in> {0, - EAGAIN}" "q = 0 \<longrightarrow> up s1 d"
      "ready ds deps s d \<longrightarrow> q = 0"
    by (rule device_prepare_patient [OF assms(1) Cons.prems(5) assms(2) dD Cons.prems(2) stable])
  have "bus_child (devs s1 d) = None" "dev_next (devs s1 d) = dev_next (devs s d)"
    using q(2) rep(2) by (simp_all add: keeps_def dev_keep_def)
  then have eq: "probe ops (P_loop p r0) s = probe ops (P_loop (dev_next (devs s d)) (if q = - EAGAIN then - EAGAIN else r0)) s1"
    using q(1,3) rep(1) by (auto simp: probe.simps [of _ "P_loop (Some _) _"] probe.simps [of _ "P_device _"] IS_ERROR_def)
  have "pass_result ds deps s1 (set es) (if q = - EAGAIN then - EAGAIN else r0) (probe ops (P_loop p r0) s)"
    unfolding eq
  proof (rule Cons.IH)
    show "rep_list s1 (dev_next (devs s d)) (map Leaf es)" using keeps_rep(2) [OF q(2)] rep(3) by simp
    show "drv_chain (drvs s1) (Some drv_head) ds" using q(2) Cons.prems(5) by (simp add: keeps_def)
    show "okay s1" using keptD [OF stable q(2) Cons.prems(2)] .
  qed (use Cons.prems(1,3) in auto)
  then obtain r s2 where r: "probe ops (P_loop p r0) s = Some (r, s2)" "keeps ds s1 s2" "r \<in> {0, - EAGAIN}"
      "r = 0 \<longrightarrow> (if q = - EAGAIN then - EAGAIN else r0) = 0 \<and> (\<forall>d \<in> set es. up s2 d)"
      "\<forall>d \<in> set es. ready ds deps s1 d \<longrightarrow> up s2 d"
      "(if q = - EAGAIN then - EAGAIN else r0) = 0 \<and> (\<forall>d \<in> set es. ready ds deps s1 d) \<longrightarrow> r = 0"
    unfolding pass_result_def by blast
  have "r = 0 \<longrightarrow> r0 = 0 \<and> (\<forall>d \<in> set (d # es). up s2 d)"
  proof
    assume "r = 0"
    then have "q = 0" "r0 = 0" "\<forall>d \<in> set es. up s2 d" using r(4) q(3) by (auto split: if_splits)
    then show "r0 = 0 \<and> (\<forall>d \<in> set (d # es). up s2 d)" using q(4) keeps_up [OF r(2)] by simp
  qed
  moreover have "\<forall>x \<in> set (d # es). ready ds deps s x \<longrightarrow> up s2 x"
    using r(5) q(4,5) keeps_up [OF r(2)] keeps_ready [OF q(2)] by simp
  moreover have "r0 = 0 \<and> (\<forall>x \<in> set (d # es). ready ds deps s x) \<longrightarrow> r = 0"
  proof
    assume *: "r0 = 0 \<and> (\<forall>x \<in> set (d # es). ready ds deps s x)"
    then have "q = 0" "\<forall>x \<in> set es. ready ds deps s1 x" using q(5) keeps_ready [OF q(2)] by simp_all
    then show "r = 0" using r(6) * by simp
  qed
  ultimately show ?case
    unfolding pass_result_def using r(1,3) keeps_trans [OF q(2) r(2)] by blast
qed

text \<open>One pass over a root device whose bus holds the devices.\<close>

lemma pass_root:
  assumes "calm ops" "patient ops okay (insert dev_root (set es)) deps" "okay s"
    and stable: "kept ds okay"
    and "rooted ds (Node dev_root b (map Leaf es)) s" "deps dev_root = {}" "served ds s dev_root"
  shows "pass_result ds deps s (insert dev_root (set es)) 0 (k_device_probe_all ops s)"
proof -
  have ro: "bus_child (devs s dev_root) = Some b" "rep_list s (dev_child (buses s b)) (map Leaf es)"
      "drv_chain (drvs s) (Some drv_head) ds" "probe_all_enabled s"
    using assms(5) by (simp_all add: rooted_def)
  obtain r s1 where p0: "device_prepare ops dev_root s = Some (r, s1)" "keeps ds s s1" "r \<in> {0, - EAGAIN}" "r = 0 \<longrightarrow> up s1 dev_root"
      "ready ds deps s dev_root \<longrightarrow> r = 0"
    by (rule device_prepare_patient [OF assms(1) ro(3) assms(2) insertI1 assms(3) stable])
  then have p: "device_prepare ops dev_root s = Some (0, s1)" "keeps ds s s1" "up s1 dev_root" using assms(6,7) by (auto simp: ready_def)
  have c1: "drv_chain (drvs s1) (Some drv_head) ds" using p(2) ro(3) by (simp add: keeps_def)
  obtain s2 where b: "bus_prepare ops b s1 = Some (0, s2)" "keeps ds s1 s2"
    by (rule bus_prepare_patient [OF assms(1) c1 assms(2), of b])
  have k: "keeps ds s s2" using keeps_trans [OF p(2) b(2)] .
  have bc: "bus_child (devs s1 dev_root) = Some b" using p(2) ro(1) by (simp add: keeps_def dev_keep_def)
  have "pass_result ds deps s2 (set es) 0 (probe ops (P_loop (dev_child (buses s2 b)) 0) s2)"
  proof (rule pass_list [OF assms(1,2) _ keptD [OF stable k assms(3)] _ stable])
    show "rep_list s2 (dev_child (buses s2 b)) (map Leaf es)"
      using keeps_rep(2) [OF k] ro(2) k by (simp add: keeps_def)
    show "drv_chain (drvs s2) (Some drv_head) ds" using b(2) c1 by (simp add: keeps_def)
  qed auto
  moreover have "k_device_probe_all ops s = probe ops (P_loop (dev_child (buses s2 b)) 0) s2"
    using p b(1) bc ro(4)
    by (simp add: k_device_probe_all_def device_probe_def probe.simps [of _ "P_device _"] probe.simps [of _ "P_bus _"] up_def)
  ultimately obtain q s3 where q: "k_device_probe_all ops s = Some (q, s3)" "keeps ds s2 s3" "q \<in> {0, - EAGAIN}"
      "q = 0 \<longrightarrow> (\<forall>d \<in> set es. up s3 d)"
      "\<forall>d \<in> set es. ready ds deps s2 d \<longrightarrow> up s3 d"
      "(\<forall>d \<in> set es. ready ds deps s2 d) \<longrightarrow> q = 0"
    unfolding pass_result_def by auto
  have up: "up s3 dev_root" using keeps_up [OF q(2) keeps_up [OF b(2) p(3)]] .
  show ?thesis
    unfolding pass_result_def
  proof (intro exI conjI)
    show "keeps ds s s3" using keeps_trans [OF k q(2)] .
    show "\<forall>d \<in> insert dev_root (set es). ready ds deps s d \<longrightarrow> up s3 d"
      using q(5) keeps_ready [OF k] up by blast
  qed (use q keeps_ready [OF k] up in blast)+
qed

text \<open>When the devices wait for each other in no cycle, the loop of \<open>init_drivers\<close> ends with every device up.\<close>

lemma patient_progress:
  assumes "finite D" "\<forall>d \<in> D. deps d \<subseteq> D \<and> (\<forall>e \<in> deps d. rank e < (rank d :: nat))" "\<exists>d \<in> D. \<not> up s d"
  shows "\<exists>d \<in> D. \<not> up s d \<and> (\<forall>e \<in> deps d. dev_probed (devs s e))"
proof -
  obtain d where "d \<in> D" "\<not> up s d" and min: "\<And>e. e \<in> D \<Longrightarrow> \<not> up s e \<Longrightarrow> rank d \<le> rank e"
    using assms(3) ex_has_least_nat [of "\<lambda>d. d \<in> D \<and> \<not> up s d" _ rank] by blast
  moreover have "dev_probed (devs s e)" if "e \<in> deps d" for e
    using that assms(2) \<open>d \<in> D\<close> min [of e] by (force simp: up_def)
  ultimately show ?thesis by blast
qed

lemma patient_start:
  assumes "calm ops" "patient ops okay (insert dev_root (set es)) deps" "okay s"
    and stable: "kept ds okay"
    and "rooted ds (Node dev_root b (map Leaf es)) s" "deps dev_root = {}"
    and "\<forall>d \<in> insert dev_root (set es). served ds s d"
    and "\<forall>d \<in> insert dev_root (set es). deps d \<subseteq> insert dev_root (set es) \<and> (\<forall>e \<in> deps d. rank e < (rank d :: nat))"
  shows "\<exists>s'. probe_until ops res s = Some (res, s') \<and> keeps ds s s' \<and> (\<forall>d \<in> insert dev_root (set es). up s' d)"
  using assms(3,5,7)
proof (induction "card {d \<in> insert dev_root (set es). \<not> up s d}" arbitrary: s rule: less_induct)
  case less
  let ?D = "insert dev_root (set es)"
  obtain r s' where r: "k_device_probe_all ops s = Some (r, s')" "keeps ds s s'" "r \<in> {0, - EAGAIN}"
      "r = 0 \<longrightarrow> (\<forall>d \<in> ?D. up s' d)"
      "\<forall>d \<in> ?D. ready ds deps s d \<longrightarrow> up s' d"
      "(\<forall>d \<in> ?D. ready ds deps s d) \<longrightarrow> r = 0"
    using pass_root [OF assms(1,2) less.prems(1) stable less.prems(2) assms(6)] less.prems(3)
    unfolding pass_result_def by blast
  show ?case
  proof (cases "r = 0")
    case True
    then show ?thesis using r(1,2,4) by (simp add: probe_until.simps IS_ERROR_def)
  next
    case False
    then have eq: "probe_until ops res s = probe_until ops res s'"
      using r(1,3) by (subst probe_until.simps) (auto simp: IS_ERROR_def)
    have "\<exists>d \<in> ?D. \<not> up s d"
      using False r(6) less.prems(3) assms(8) unfolding ready_def up_def by blast
    then obtain d where d: "d \<in> ?D" "\<not> up s d" "up s' d"
      using patient_progress [OF _ assms(8), of s] r(5) less.prems(3) unfolding ready_def by blast
    have "{d \<in> ?D. \<not> up s' d} \<subset> {d \<in> ?D. \<not> up s d}" using d keeps_up [OF r(2)] by blast
    then have "card {d \<in> ?D. \<not> up s' d} < card {d \<in> ?D. \<not> up s d}" by (intro psubset_card_mono) auto
    then have "\<exists>s''. probe_until ops res s' = Some (res, s'') \<and> keeps ds s' s'' \<and> (\<forall>d \<in> ?D. up s'' d)"
      using less.prems by (intro less.hyps)
        (simp_all add: keptD [OF stable r(2)] rooted_keeps [OF r(2)] keeps_served [OF r(2)])
    then show ?thesis unfolding eq using keeps_trans [OF r(2)] by blast
  qed
qed

subsection \<open>Boards in the store\<close>

lemma find_in_flat:
  assumes "dev_chain s p ds" "length ds = length b"
    and "\<forall>i < length b. dev_name (devs s (ds ! i)) = Some (bd_name (snd (b ! i))) \<and> bus_child (devs s (ds ! i)) = None"
  shows "find_in s n p = Some (case board_find b n of None \<Rightarrow> (- ENODEV, None)
    | Some j \<Rightarrow> if dev_probed (devs s (ds ! j)) then (0, Some (ds ! j)) else (- EAGAIN, None))"
  using assms
proof (induction ds arbitrary: b p)
  case Nil
  then show ?case by (simp add: find_in.simps board_find_def)
next
  case (Cons d ds)
  then obtain x b' where b: "b = x # b'" by (cases b) auto
  have IH: "find_in s n (dev_next (devs s d)) = Some (case board_find b' n of None \<Rightarrow> (- ENODEV, None)
      | Some j \<Rightarrow> if dev_probed (devs s (ds ! j)) then (0, Some (ds ! j)) else (- EAGAIN, None))"
    using Cons.prems b by (intro Cons.IH) (auto dest: spec [of _ "Suc _"])
  have "p = Some d" "dev_name (devs s d) = Some (bd_name (snd x))" "bus_child (devs s d) = None"
    using Cons.prems b by (auto dest: spec [of _ 0])
  then show ?case using IH by (subst find_in.simps) (auto simp: b board_find_def split: option.splits)
qed

lemma find_device_board:
  assumes "on_board strtab b s"
  shows "k_bus_find_device s (Some bus_root) (Some n) = Some (case board_find b n of None \<Rightarrow> (- ENODEV, None)
    | Some j \<Rightarrow> if dev_probed (devs s (Suc j)) then (0, Some (Suc j)) else (- EAGAIN, None))"
proof -
  have len: "j < length b" if "board_find b n = Some j" for j
    using that find_index_Some [of _ b j] by (auto simp: board_find_def)
  show ?thesis
    using find_in_flat [of s "dev_child (buses s bus_root)" "map Suc [0..<length b]" b n] assms
    by (auto simp: on_board_def k_bus_find_device_def len split: option.splits)
qed

lemma PROP_entry_sel [simp]:
  "cf_name (PROP_entry strtab p) = fst p" "cf_count (PROP_entry strtab p) = int (length (snd p))"
  "cf_val (PROP_entry strtab p) = map (prop_word strtab) (snd p) @ replicate (32 - length (snd p)) 0"
  by (simp_all add: PROP_entry_def)

lemma find_conf_entry:
  assumes "find (\<lambda>p. k_strcasecmp key (fst p) = 0) cs = Some p"
  shows "\<exists>j < length cs. find_conf_loop key (map (PROP_entry strtab) cs) i = i + int j \<and> cs ! j = p"
  using assms
proof (induction cs arbitrary: i)
  case (Cons c cs)
  show ?case
  proof (cases "k_strcasecmp key (fst c) = 0")
    case True
    then show ?thesis using Cons.prems by (intro exI [of _ 0]) auto
  next
    case False
    with Cons.prems have "find (\<lambda>p. k_strcasecmp key (fst p) = 0) cs = Some p" by simp
    from Cons.IH [OF this, of "i + 1"] obtain j where
      "j < length cs" "find_conf_loop key (map (PROP_entry strtab) cs) (i + 1) = i + 1 + int j" "cs ! j = p" by blast
    then show ?thesis using False by (intro exI [of _ "Suc j"]) auto
  qed
qed simp

lemma read_conf_board:
  assumes "dev_conf d = Some (map (PROP_entry strtab) (bd_conf x))" "conf_find x key = Some (key', vs)" "j < length vs"
  shows "read_conf (Some d) (Some key) (int j) = Some (0, Some (prop_word strtab (vs ! j)))"
proof -
  obtain i where "i < length (bd_conf x)" "find_conf_loop key (map (PROP_entry strtab) (bd_conf x)) 0 = int i" "bd_conf x ! i = (key', vs)"
    using find_conf_entry [of key "bd_conf x" "(key', vs)" strtab 0] assms(2) unfolding conf_find_def by auto
  then show ?thesis
    using assms(1,3) by (simp add: read_conf_def device_find_conf_def conf_entry_def Let_def nth_append)
qed

lemma conf_length_board:
  assumes "dev_conf d = Some (map (PROP_entry strtab) (bd_conf x))" "conf_find x key = Some (key', vs)"
  shows "k_device_get_conf_length (Some d) (Some key) = (0, Some (int (length vs)))" "0 \<le> device_find_conf (Some d) (Some key)"
proof -
  obtain i where "i < length (bd_conf x)" "find_conf_loop key (map (PROP_entry strtab) (bd_conf x)) 0 = int i" "bd_conf x ! i = (key', vs)"
    using find_conf_entry [of key "bd_conf x" "(key', vs)" strtab 0] assms(2) unfolding conf_find_def by auto
  then show "k_device_get_conf_length (Some d) (Some key) = (0, Some (int (length vs)))" "0 \<le> device_find_conf (Some d) (Some key)"
    using assms(1) by (simp_all add: k_device_get_conf_length_def device_find_conf_def conf_entry_def Let_def)
qed

lemma pairs_typed_nth:
  assumes "pairs_typed b k vs" "2 * j < length vs"
  shows "\<exists>n v i. vs ! (2 * j) = Uptr n \<and> Suc (2 * j) < length vs \<and> vs ! Suc (2 * j) = Num v \<and>
    board_find b n = Some i \<and> dev_class (snd (b ! i)) = Some k"
  using assms
proof (induction b k vs arbitrary: j rule: pairs_typed.induct)
  case (2 b k n v vs)
  show ?case
  proof (cases j)
    case 0
    then show ?thesis using 2 by (auto simp: refers_def split: option.splits)
  next
    case (Suc m)
    then show ?thesis using 2 by auto
  qed
qed simp_all

lemma conf_ref_board:
  assumes "on_board strtab b s" "i < length b" "conf_find (snd (b ! i)) key = Some (key, vs)" "pairs_typed b k vs"
    and "2 * j < length vs" "\<And>n. n \<in> set (refs (snd (b ! i))) \<Longrightarrow> cstr (strtab n) = n"
  shows "\<exists>t v. dev_class (snd (b ! t)) = Some k \<and> Suc t \<in> board_deps b (Suc i) \<and>
    conf_ref cstr key s (devs s (Suc i)) (int j) =
      Some (if dev_probed (devs s (Suc t)) then (0, Some (Suc t, v)) else (- EAGAIN, None))"
proof -
  obtain n v t where t: "vs ! (2 * j) = Uptr n" "Suc (2 * j) < length vs" "vs ! Suc (2 * j) = Num v"
      "board_find b n = Some t" "dev_class (snd (b ! t)) = Some k"
    using pairs_typed_nth [OF assms(4,5)] by blast
  have "(key, vs) \<in> set (bd_conf (snd (b ! i)))" using assms(3) by (auto simp: conf_find_def find_Some_iff)
  moreover have "Uptr n \<in> set vs" using t(1) assms(5) nth_mem by force
  ultimately have n: "n \<in> set (refs (snd (b ! i)))" unfolding refs_def by force
  have d: "dev_conf (devs s (Suc i)) = Some (map (PROP_entry strtab) (bd_conf (snd (b ! i))))"
    using assms(1,2) by (simp add: on_board_def)
  have "read_conf (Some (devs s (Suc i))) (Some key) (int j * 2) = Some (0, Some (strtab n))"
    "read_conf (Some (devs s (Suc i))) (Some key) (int j * 2 + 1) = Some (0, Some v)"
    using read_conf_board [OF d assms(3,5)] read_conf_board [OF d assms(3) t(2)] t by (simp_all add: algebra_simps)
  then have "conf_ref cstr key s (devs s (Suc i)) (int j) =
      Some (if dev_probed (devs s (Suc t)) then (0, Some (Suc t, ucast v)) else (- EAGAIN, None))"
    using assms(6) [OF n] t(4)
    by (simp add: conf_ref_def k_device_read_conf_str_def k_device_read_conf_u32_def find_device_board [OF assms(1)])
  then show ?thesis using t(4,5) n by (auto simp: board_deps_def)
qed

lemma cpu_ref_board:
  assumes "on_board strtab b s" "i < length b" "conf_find (snd (b ! i)) ''cpu'' = Some (''cpu'', [Uptr n])" "refers b K_cpu n"
    and "\<And>n. n \<in> set (refs (snd (b ! i))) \<Longrightarrow> cstr (strtab n) = n"
  shows "\<exists>t. dev_class (snd (b ! t)) = Some K_cpu \<and> Suc t \<in> board_deps b (Suc i) \<and>
    k_cpu_get_cpu_from_config cstr s (devs s (Suc i)) 0 =
      Some (if dev_probed (devs s (Suc t)) then (0, Some (Suc t)) else (- EAGAIN, None))"
proof -
  obtain t where t: "board_find b n = Some t" "dev_class (snd (b ! t)) = Some K_cpu"
    using assms(4) by (auto simp: refers_def split: option.splits)
  have "(''cpu'', [Uptr n]) \<in> set (bd_conf (snd (b ! i)))" using assms(3) by (auto simp: conf_find_def find_Some_iff)
  then have n: "n \<in> set (refs (snd (b ! i)))" unfolding refs_def by force
  have d: "dev_conf (devs s (Suc i)) = Some (map (PROP_entry strtab) (bd_conf (snd (b ! i))))"
    using assms(1,2) by (simp add: on_board_def)
  have "read_conf (Some (devs s (Suc i))) (Some ''cpu'') 0 = Some (0, Some (strtab n))"
    using read_conf_board [OF d assms(3), of 0] by simp
  then have "k_cpu_get_cpu_from_config cstr s (devs s (Suc i)) 0 =
      Some (if dev_probed (devs s (Suc t)) then (0, Some (Suc t)) else (- EAGAIN, None))"
    using assms(5) [OF n] t(1)
    by (simp add: k_cpu_get_cpu_from_config_def k_device_read_conf_str_def find_device_board [OF assms(1)])
  then show ?thesis using t n by (auto simp: board_deps_def)
qed

lemma board_typed_dev:
  assumes "board_typed b" "i < length b"
  shows "dev_class (snd (b ! i)) = Some (fst (b ! i))"
    and "key \<in> set (required (snd (b ! i))) \<Longrightarrow> \<exists>vs. conf_find (snd (b ! i)) key = Some (key, vs)"
    and "p \<in> set (bd_conf (snd (b ! i))) \<Longrightarrow> conf_find (snd (b ! i)) (fst p) = Some p \<and> prop_typed b p"
    and "key \<in> {''cpu'', ''interrupts'', ''clocks''} \<Longrightarrow> conf_find (snd (b ! i)) key = Some (key', vs) \<Longrightarrow> key' = key"
proof -
  have "dev_typed b (b ! i)" using assms by (simp add: board_typed_def list_all_length)
  then show "dev_class (snd (b ! i)) = Some (fst (b ! i))"
    and "key \<in> set (required (snd (b ! i))) \<Longrightarrow> \<exists>vs. conf_find (snd (b ! i)) key = Some (key, vs)"
    and "p \<in> set (bd_conf (snd (b ! i))) \<Longrightarrow> conf_find (snd (b ! i)) (fst p) = Some p \<and> prop_typed b p"
    and "key \<in> {''cpu'', ''interrupts'', ''clocks''} \<Longrightarrow> conf_find (snd (b ! i)) key = Some (key', vs) \<Longrightarrow> key' = key"
    by (auto simp: dev_typed_def list_all_iff)
qed

lemma typed_conf_ref:
  assumes "board_typed b" "on_board strtab b s" "i < length b" "\<forall>n \<in> set (refs (snd (b ! i))). cstr (strtab n) = n"
    and "conf_find (snd (b ! i)) key = Some (key, vs)"
  shows "ref_class key = None \<Longrightarrow> j < length vs \<Longrightarrow>
      \<exists>v. vs ! j = Num v \<and> read_conf (Some (devs s (Suc i))) (Some key) (int j) = Some (0, Some v)"
    and "ref_class key = Some k \<Longrightarrow> k \<noteq> K_cpu \<Longrightarrow> 2 * j < length vs \<Longrightarrow>
      \<exists>t v. dev_class (snd (b ! t)) = Some k \<and> Suc t \<in> board_deps b (Suc i) \<and>
        conf_ref cstr key s (devs s (Suc i)) (int j) =
          Some (if dev_probed (devs s (Suc t)) then (0, Some (Suc t, v)) else (- EAGAIN, None))"
    and "key = ''cpu'' \<Longrightarrow>
      \<exists>t. dev_class (snd (b ! t)) = Some K_cpu \<and> Suc t \<in> board_deps b (Suc i) \<and>
        k_cpu_get_cpu_from_config cstr s (devs s (Suc i)) 0 =
          Some (if dev_probed (devs s (Suc t)) then (0, Some (Suc t)) else (- EAGAIN, None))"
proof -
  have "(key, vs) \<in> set (bd_conf (snd (b ! i)))" using assms(5) by (auto simp: conf_find_def find_Some_iff)
  then have ty: "prop_typed b (key, vs)" using board_typed_dev(3) [OF assms(1,3)] by blast
  have d: "dev_conf (devs s (Suc i)) = Some (map (PROP_entry strtab) (bd_conf (snd (b ! i))))"
    using assms(2,3) by (simp add: on_board_def)
  show "\<exists>v. vs ! j = Num v \<and> read_conf (Some (devs s (Suc i))) (Some key) (int j) = Some (0, Some v)"
    if "ref_class key = None" "j < length vs"
  proof -
    have "number (vs ! j)" using ty that by (auto simp: prop_typed_def ref_class_def list_all_length split: if_splits)
    then obtain v where "vs ! j = Num v" by (cases "vs ! j") auto
    then show ?thesis using read_conf_board [OF d assms(5) that(2)] by simp
  qed
  show "\<exists>t v. dev_class (snd (b ! t)) = Some k \<and> Suc t \<in> board_deps b (Suc i) \<and>
      conf_ref cstr key s (devs s (Suc i)) (int j) =
        Some (if dev_probed (devs s (Suc t)) then (0, Some (Suc t, v)) else (- EAGAIN, None))"
    if "ref_class key = Some k" "k \<noteq> K_cpu" "2 * j < length vs"
  proof -
    have "pairs_typed b k vs" using ty that by (auto simp: prop_typed_def ref_class_def split: if_splits)
    then show ?thesis using conf_ref_board [OF assms(2,3,5)] that(3) assms(4) by blast
  qed
  show "\<exists>t. dev_class (snd (b ! t)) = Some K_cpu \<and> Suc t \<in> board_deps b (Suc i) \<and>
      k_cpu_get_cpu_from_config cstr s (devs s (Suc i)) 0 =
        Some (if dev_probed (devs s (Suc t)) then (0, Some (Suc t)) else (- EAGAIN, None))"
    if cpu: "key = ''cpu''"
  proof -
    obtain n where "vs = [Uptr n]" "refers b K_cpu n"
      using ty cpu by (auto simp: prop_typed_def elim: cpu_typed.elims)
    then show ?thesis using cpu_ref_board [OF assms(2,3)] assms(4,5) cpu by blast
  qed
qed

subsection \<open>Adding the devices of a board\<close>

lemma board_device_sel [simp]:
  "dev_name (board_device strtab x) = Some (bd_name x)" "dev_vendor (board_device strtab x) = bd_vendor x"
  "dev_type (board_device strtab x) = bd_type x" "dev_conf (board_device strtab x) = Some (map (PROP_entry strtab) (bd_conf x))"
  "bus_parent (board_device strtab x) = None" "bus_child (board_device strtab x) = None"
  "dev_next (board_device strtab x) = None" "dev_drv (board_device strtab x) = None"
  by (simp_all add: board_device_def)

lemma board_device_unlinked [simp]: "\<exists>p n. board_device strtab x = (board_device strtab x)\<lparr>bus_parent := p, dev_next := n\<rparr>"
  by (intro exI [of _ None]) (simp add: board_device_def)

lemma linked_step:
  assumes "linked strtab b m s0 s" "m < length b"
  shows "\<exists>s'. k_device_add ops (Some (Suc m)) (Some bus_root) s = Some (0, s') \<and> linked strtab b (Suc m) s0 s'"
proof -
  let ?ds = "map Suc [0..<m]"
  have new: "devs s (Suc m) = board_device strtab (snd (b ! m))" using assms by (simp add: linked_def)
  obtain s' where s': "k_device_add ops (Some (Suc m)) (Some bus_root) s = Some (0, s')"
      "dev_chain s' (dev_child (buses s' bus_root)) (?ds @ [Suc m])"
      "\<forall>e. e \<notin> set ?ds \<and> e \<noteq> Suc m \<longrightarrow> devs s' e = devs s e"
      "\<forall>e. \<exists>p n. devs s' e = (devs s e)\<lparr>bus_parent := p, dev_next := n\<rparr>" "drvs s' = drvs s" "\<not> probe_all_enabled s'"
    using k_device_add_appends [of s bus_root ?ds "Suc m" ops] assms new by (auto simp: linked_def distinct_map)
  have "\<exists>p n. devs s' (Suc i) = (board_device strtab (snd (b ! i)))\<lparr>bus_parent := p, dev_next := n\<rparr>" if "i < length b" for i
  proof -
    obtain p n where "devs s (Suc i) = (board_device strtab (snd (b ! i)))\<lparr>bus_parent := p, dev_next := n\<rparr>"
      using assms(1) \<open>i < length b\<close> unfolding linked_def by blast
    then show ?thesis using spec [OF s'(4), of "Suc i"] by (elim exE) (simp, blast)
  qed
  moreover have "devs s' (Suc i) = board_device strtab (snd (b ! i))" if "i < length b" "Suc m \<le> i" for i
    using that s'(3) assms by (auto simp: linked_def)
  ultimately show ?thesis using s' assms(1) by (auto simp: linked_def)
qed

lemma read_conf_total:
  assumes "dev_conf d = Some (map (PROP_entry strtab) cs)"
  shows "\<exists>r v. read_conf (Some d) (Some key) 0 = Some (r, v) \<and> (r = 0 \<longrightarrow> v \<noteq> None)"
proof -
  have "find_conf_loop key (map (PROP_entry strtab) cs) i = - 1 \<or>
      (\<exists>j < length cs. find_conf_loop key (map (PROP_entry strtab) cs) i = i + int j)" for i
  proof (induction cs arbitrary: i)
    case (Cons c cs)
    then show ?case by (cases "k_strcasecmp key (fst c) = 0") (force, use Cons.IH [of "i + 1"] in force)
  qed simp
  from this [of 0] show ?thesis
    using assms by (auto simp: read_conf_def device_find_conf_def conf_entry_def Let_def)
qed

lemma add_device_eq:
  assumes "k_device_add ops (Some d) (Some bus_root) (bs_dev st) = Some (0, s')"
    and "dev_conf (devs s' d) = Some (map (PROP_entry strtab) cs)"
  shows "\<exists>st'. add_device ops uarts k d st = Some st' \<and> bs_dev st' = s'"
proof -
  obtain r v r' v' where "read_conf (Some (devs s' d)) (Some ''ipi'') 0 = Some (r, v)"
      "read_conf (Some (devs s' d)) (Some ''system'') 0 = Some (r', v')"
    using read_conf_total [OF assms(2)] by blast
  then show ?thesis
    using assms(1)
    by (cases k) (simp_all add: add_device_def k_cpu_add_device_def k_intc_add_device_def k_clk_add_device_def
      k_timer_add_device_def k_reset_add_device_def add_system_device_def k_uart_add_device_def k_gpio_add_device_def
      IS_ERROR_def k_device_read_conf_u32_def Let_def split: prod.splits)
qed

lemma add_devices_linked:
  assumes "linked strtab b m s0 (bs_dev st)" "m \<le> length b"
  shows "\<exists>st'. add_devices ops uarts (map fst (drop m b)) (Suc m) st = Some st' \<and> linked strtab b (length b) s0 (bs_dev st')"
  using assms
proof (induction "length b - m" arbitrary: m st)
  case 0
  then show ?case by simp
next
  case (Suc l)
  then have m: "m < length b" by simp
  obtain s' where s': "k_device_add ops (Some (Suc m)) (Some bus_root) (bs_dev st) = Some (0, s')" "linked strtab b (Suc m) s0 s'"
    using linked_step [OF Suc.prems(1) m] by blast
  have "dev_conf (devs s' (Suc m)) = Some (map (PROP_entry strtab) (bd_conf (snd (b ! m))))"
    using s'(2) m unfolding linked_def by (metis (no_types, lifting) board_device_sel(4) k_device.select_convs(4) k_device.surjective k_device.update_convs(6,8))
  then obtain st' where "add_device ops uarts (fst (b ! m)) (Suc m) st = Some st'" "bs_dev st' = s'"
    using add_device_eq [OF s'(1)] by blast
  moreover have "drop m b = b ! m # drop (Suc m) b" using m by (rule Cons_nth_drop_Suc [symmetric])
  ultimately show ?case using Suc.hyps(1) [of "Suc m" st'] Suc.hyps(2) s'(2) m by simp
qed

subsection \<open>Start of a board\<close>

lemma linked_on_board:
  assumes "linked strtab b (length b) s0 s" "dev_conf (devs s0 dev_root) = None"
  shows "on_board strtab b (s\<lparr>probe_all_enabled := True\<rparr>)"
proof -
  have "dev_name (devs s (Suc i)) = Some (bd_name (snd (b ! i))) \<and> bus_child (devs s (Suc i)) = None \<and>
      dev_conf (devs s (Suc i)) = Some (map (PROP_entry strtab) (bd_conf (snd (b ! i))))" if "i < length b" for i
  proof -
    obtain p n where "devs s (Suc i) = (board_device strtab (snd (b ! i)))\<lparr>bus_parent := p, dev_next := n\<rparr>"
      using assms(1) \<open>i < length b\<close> unfolding linked_def by blast
    then show ?thesis by simp
  qed
  moreover have "dev_chain (s\<lparr>probe_all_enabled := True\<rparr>) (dev_child (buses s bus_root)) (map Suc [0..<length b])"
    by (rule dev_chain_frame [of s]) (use assms in \<open>simp_all add: linked_def\<close>)
  ultimately show ?thesis using assms by (simp add: on_board_def linked_def)
qed

lemma on_board_kept: "kept ds (on_board strtab b)"
proof -
  have "on_board strtab b s'" if k: "keeps ds s s'" and "on_board strtab b s" for s s' :: "'h dstate"
  proof -
    have "dev_chain s' (dev_child (buses s bus_root)) (map Suc [0..<length b])"
      using dev_chain_frame [of s _ _ s'] that by (simp add: on_board_def keeps_def dev_keep_def)
    then show ?thesis using that by (simp add: on_board_def keeps_def dev_keep_def)
  qed
  then show ?thesis unfolding kept_def by blast
qed

lemma chain_leaves:
  assumes "dev_chain s p es" "\<And>e. e \<in> set es \<Longrightarrow> bus_child (devs s e) = None"
  shows "rep_list s p (map Leaf es)"
  using assms by (induction es arbitrary: p) auto

lemma board_find_less: "board_find b n = Some j \<Longrightarrow> j < length b"
  using find_index_Some [of _ b j] by (auto simp: board_find_def)

lemma board_deps_ordered:
  assumes "board_ordered b" "d \<in> insert dev_root (set (map Suc [0..<length b]))"
  shows "board_deps b d \<subseteq> insert dev_root (set (map Suc [0..<length b])) \<and> (\<forall>e \<in> board_deps b d. e < d)"
  using assms board_find_less [of b]
  by (fastforce simp: board_deps_def board_ordered_def list_all_iff split: option.splits)

lemma linked_served:
  assumes "linked strtab b (length b) s0 s" "board_fresh strtab b ds s0" "d \<le> length b"
  shows "served ds (s\<lparr>probe_all_enabled := True\<rparr>) d"
proof (cases d)
  case 0
  then show ?thesis using assms by (simp add: served_def linked_def board_fresh_def)
next
  case (Suc i)
  then have i: "i < length b" using assms(3) by simp
  then obtain p n where "devs s d = (board_device strtab (snd (b ! i)))\<lparr>bus_parent := p, dev_next := n\<rparr>"
    using assms(1) Suc unfolding linked_def by blast
  moreover have "attachable (drvs s0) ds (board_device strtab (snd (b ! i)))" using assms(2) i unfolding board_fresh_def by blast
  moreover have "drvs s = drvs s0" using assms(1) by (simp add: linked_def)
  ultimately show ?thesis by (simp add: served_def attachable_def)
qed

lemma on_board_leaves:
  assumes "on_board strtab b s"
  shows "rep_list s (dev_child (buses s bus_root)) (map Leaf (map Suc [0..<length b]))"
proof (rule chain_leaves)
  show "dev_chain s (dev_child (buses s bus_root)) (map Suc [0..<length b])" using assms by (simp add: on_board_def)
next
  fix e assume "e \<in> set (map Suc [0..<length b])"
  then obtain i where "e = Suc i" "i < length b" by (metis atLeastLessThan_iff imageE set_map set_upt)
  then show "bus_child (devs s e) = None" using assms by (simp add: on_board_def)
qed

lemma board_devs: "insert dev_root (set (map Suc [0..<n])) = {..n}"
  by (simp add: image_Suc_atLeastLessThan atLeast0AtMost [symmetric] atLeastLessThanSuc_atLeastAtMost) (auto simp: Suc_le_eq)

lemma board_up:
  assumes "board_ordered b" "linked strtab b (length b) s0 s" "board_fresh strtab b ds s0"
    and "calm ops" "patient ops (on_board strtab b) {..length b} (board_deps b)"
  shows "\<exists>s'. probe_until ops 0 (s\<lparr>probe_all_enabled := True\<rparr>) = Some (0, s') \<and> (\<forall>d \<le> length b. up s' d)"
proof -
  let ?s = "s\<lparr>probe_all_enabled := True\<rparr>" and ?es = "map Suc [0..<length b]"
  have ob: "on_board strtab b ?s" using linked_on_board [OF assms(2)] assms(3) by (simp add: board_fresh_def)
  have "bus_child (devs s dev_root) = Some bus_root" "drv_chain (drvs s) (Some drv_head) ds"
    using assms(2,3) by (simp_all add: linked_def board_fresh_def)
  then have ro: "rooted ds (Node dev_root bus_root (map Leaf ?es)) ?s"
    using on_board_leaves [OF ob] by (simp add: rooted_def)
  have "\<exists>s'. probe_until ops 0 ?s = Some (0, s') \<and> keeps ds ?s s' \<and> (\<forall>d \<in> insert dev_root (set ?es). up s' d)"
  proof (rule patient_start [where rank = "\<lambda>d. d", OF assms(4) _ ob on_board_kept ro])
    show "patient ops (on_board strtab b) (insert dev_root (set ?es)) (board_deps b)" using assms(5) by (simp only: board_devs)
    show "\<forall>d \<in> insert dev_root (set ?es). served ds ?s d"
      unfolding board_devs using linked_served [OF assms(2,3)] by blast
    show "\<forall>d \<in> insert dev_root (set ?es). board_deps b d \<subseteq> insert dev_root (set ?es) \<and> (\<forall>e \<in> board_deps b d. e < d)"
      using board_deps_ordered [OF assms(1)] by blast
  qed (simp add: board_deps_def)
  then show ?thesis unfolding board_devs by auto
qed

lemma board_start_gen:
  assumes "board_ordered b" "board_fresh strtab b ds (bs_dev st)"
    and "calm ops" "patient ops (on_board strtab b) {..length b} (board_deps b)"
    and "\<And>st st'. add_devices ops uarts (map fst b) 1 st = Some st' \<Longrightarrow> \<exists>c. init st = Some (0, st'\<lparr>bs_console := c\<rparr>)"
  shows "\<exists>s'. init_drivers ops [board_call init st] (bs_dev st) = Some (0, s') \<and> (\<forall>d \<le> length b. up s' d)"
proof -
  let ?s0 = "(bs_dev st)\<lparr>probe_all_enabled := False\<rparr>"
  let ?st = "st\<lparr>bs_dev := ?s0\<rparr>"
  have fr: "board_fresh strtab b ds ?s0" using assms(2) by (simp add: board_fresh_def)
  then have "linked strtab b 0 ?s0 (bs_dev ?st)"
    by (simp add: linked_def board_fresh_def)
  then obtain st' where st': "add_devices ops uarts (map fst b) 1 ?st = Some st'" "linked strtab b (length b) ?s0 (bs_dev st')"
    using add_devices_linked [of strtab b 0 ?s0 ?st ops uarts] by auto
  then obtain c where "init ?st = Some (0, st'\<lparr>bs_console := c\<rparr>)" using assms(5) by blast
  then have "run_initcalls [board_call init st] 0 ?s0 = Some (0, bs_dev st')" by (simp add: board_call_def)
  then show ?thesis
    using board_up [OF assms(1) st'(2) fr assms(3,4)] by (simp add: init_drivers_def)
qed

subsection \<open>Drivers that resolve their references\<close>

lemma first_error_waits:
  assumes "\<forall>x \<in> set xs. \<exists>t \<in> D. \<exists>y. x = Some (if P t then (0, y) else (- EAGAIN, None))"
  shows "first_error xs \<in> {0, - EAGAIN} \<and> ((\<forall>t \<in> D. P t) \<longrightarrow> first_error xs = 0)"
  using assms
proof (induction xs)
  case (Cons x xs)
  then obtain t y where "t \<in> D" "x = Some (if P t then (0, y) else (- EAGAIN, None))" by auto
  then show ?case using Cons by (cases "P t") auto
qed simp

lemma find_conf_none:
  assumes "dev_conf d = Some (map (PROP_entry strtab) (bd_conf x))" "conf_find x key = None"
  shows "device_find_conf (Some d) (Some key) = - 1"
proof -
  have "find (\<lambda>p. k_strcasecmp key (fst p) = 0) cs = None \<Longrightarrow> find_conf_loop key (map (PROP_entry strtab) cs) i = - 1" for cs i
    by (induction cs arbitrary: i) (auto split: if_splits)
  then show ?thesis using assms by (simp add: device_find_conf_def conf_find_def)
qed

lemma resolve_table:
  assumes "board_typed b" "on_board strtab b s" "i < length b" "\<forall>n \<in> set (refs (snd (b ! i))). cstr (strtab n) = n"
    and "key \<in> {''interrupts'', ''clocks''}" "j < ref_count (devs s (Suc i)) key"
  shows "\<exists>t \<in> board_deps b (Suc i). \<exists>v. conf_ref cstr key s (devs s (Suc i)) (int j) =
    Some (if dev_probed (devs s t) then (0, Some (t, v)) else (- EAGAIN, None))"
proof -
  have d: "dev_conf (devs s (Suc i)) = Some (map (PROP_entry strtab) (bd_conf (snd (b ! i))))"
    using assms(2,3) by (simp add: on_board_def)
  show ?thesis
  proof (cases "conf_find (snd (b ! i)) key")
    case None
    then show ?thesis
      using assms(6) find_conf_none [OF d] by (simp add: ref_count_def k_device_get_conf_length_def)
  next
    case (Some p)
    then have p: "conf_find (snd (b ! i)) key = Some (key, snd p)"
      using board_typed_dev(4) [OF assms(1,3), of key "fst p" "snd p"] assms(5) by (cases p) auto
    have "2 * j < length (snd p)" using assms(6) by (simp add: ref_count_def conf_length_board(1) [OF d p])
    moreover have "ref_class key = Some (if key = ''interrupts'' then K_intc else K_clk)"
      using assms(5) by (auto simp: ref_class_def)
    ultimately obtain t v where "Suc t \<in> board_deps b (Suc i)" "conf_ref cstr key s (devs s (Suc i)) (int j) =
        Some (if dev_probed (devs s (Suc t)) then (0, Some (Suc t, v)) else (- EAGAIN, None))"
      using typed_conf_ref(2) [OF assms(1-4) p, of "if key = ''interrupts'' then K_intc else K_clk" j] by (auto split: if_splits)
    then show ?thesis by blast
  qed
qed

lemma resolve_cpu:
  assumes "board_typed b" "on_board strtab b s" "i < length b" "\<forall>n \<in> set (refs (snd (b ! i))). cstr (strtab n) = n"
    and "0 \<le> device_find_conf (Some (devs s (Suc i))) (Some ''cpu'')"
  shows "\<exists>t \<in> board_deps b (Suc i). k_cpu_get_cpu_from_config cstr s (devs s (Suc i)) 0 =
    Some (if dev_probed (devs s t) then (0, Some t) else (- EAGAIN, None))"
proof -
  have d: "dev_conf (devs s (Suc i)) = Some (map (PROP_entry strtab) (bd_conf (snd (b ! i))))"
    using assms(2,3) by (simp add: on_board_def)
  obtain p where "conf_find (snd (b ! i)) ''cpu'' = Some p"
    using assms(5) find_conf_none [OF d, of "''cpu''"] by fastforce
  then have p: "conf_find (snd (b ! i)) ''cpu'' = Some (''cpu'', snd p)"
    using board_typed_dev(4) [OF assms(1,3), of "''cpu''" "fst p" "snd p"] by (cases p) auto
  show ?thesis using typed_conf_ref(3) [OF assms(1-4) p] by blast
qed

lemma resolving_patient:
  assumes "board_typed b" "\<forall>i < length b. \<forall>n \<in> set (refs (snd (b ! i))). cstr (strtab n) = n"
  shows "patient (resolving_ops cstr :: 'd drv_ops) (on_board strtab b) {..length b} (board_deps b)"
proof -
  have "resolve cstr d s \<in> {0, - EAGAIN} \<and> ((\<forall>e \<in> board_deps b d. dev_probed (devs s e)) \<longrightarrow> resolve cstr d s = 0)"
    if d: "d \<le> length b" and s: "on_board strtab b s" for d and s :: "'d dstate"
  proof (cases d)
    case 0
    then show ?thesis
      using s by (simp add: on_board_def resolve_def ref_count_def k_device_get_conf_length_def device_find_conf_def)
  next
    case (Suc i)
    let ?dev = "devs s d"
    let ?xs = "map (\<lambda>j. conf_ref cstr ''interrupts'' s ?dev (int j)) [0..<ref_count ?dev ''interrupts''] @
        map (\<lambda>j. conf_ref cstr ''clocks'' s ?dev (int j)) [0..<ref_count ?dev ''clocks'']"
    have i: "i < length b" "\<forall>n \<in> set (refs (snd (b ! i))). cstr (strtab n) = n" using d Suc assms(2) by (simp_all add: Suc_le_eq)
    have "\<forall>x \<in> set ?xs. \<exists>t \<in> board_deps b d. \<exists>y. x = Some (if dev_probed (devs s t) then (0, y) else (- EAGAIN, None))"
      using resolve_table [OF assms(1) s i] Suc by fastforce
    note 1 = first_error_waits [OF this]
    have 2: "first_error [k_cpu_get_cpu_from_config cstr s ?dev 0] \<in> {0, - EAGAIN} \<and>
        ((\<forall>e \<in> board_deps b d. dev_probed (devs s e)) \<longrightarrow> first_error [k_cpu_get_cpu_from_config cstr s ?dev 0] = 0)"
      if "\<not> device_find_conf (Some ?dev) (Some ''cpu'') < 0"
      by (rule first_error_waits) (use resolve_cpu [OF assms(1) s i] that Suc in auto)
    show ?thesis
      unfolding resolve_def Let_def using 1 2
      by (cases "device_find_conf (Some ?dev) (Some ''cpu'') < 0"; cases "first_error ?xs = 0") (simp_all del: first_error.simps)
  qed
  then show ?thesis unfolding patient_def resolving_ops_def by (auto split: if_splits)
qed

lemma boards_typed:
  "board_typed qemu_virt" "board_typed sifive_hifive1" "board_typed sifive_hifive_unleashed" "board_typed nsitexe_ns31_arty"
  by code_simp+

lemma boards_ordered:
  "board_ordered qemu_virt" "board_ordered sifive_hifive1" "board_ordered sifive_hifive_unleashed" "board_ordered nsitexe_ns31_arty"
  by code_simp+

subsection \<open>Types and start of the boards\<close>


lemma hifive1_console: "board_find sifive_hifive1 ''uart0'' = Some 6"
  by code_simp

lemma unleashed_console: "board_find sifive_hifive_unleashed ''uart0'' = Some 16"
  by code_simp

lemma ns31_console: "board_find nsitexe_ns31_arty ''uart0'' = Some 6"
  by code_simp


lemma wit_fresh: "board_fresh wit_strtab sifive_hifive1 [0..<8] wit_board_dev"
proof -
  have "list_all (\<lambda>i. attachable (drvs wit_board_dev) [0..<8] (board_device wit_strtab (snd (sifive_hifive1 ! i)))) [0..<length sifive_hifive1]"
    by code_simp
  moreover have "attachable (drvs wit_board_dev) [0..<8] (devs wit_board_dev dev_root)" by code_simp
  ultimately show ?thesis
    by (simp add: board_fresh_def list_all_length) (simp add: wit_board_dev_def wit_device_def wit_bus_def upt_rec)
qed

lemma wit_strings: "list_all (\<lambda>x. list_all (\<lambda>n. wit_cstr (wit_strtab n) = n) (refs (snd x))) sifive_hifive1"
  by code_simp



end
