(* ===== verification/Spec2Isabelle.thy ===== *)
theory Spec2Isabelle
  imports Mmap Proc Clock Vsprintf Device File Uart Gpio Drivers Syscall Boot Board
begin

text \<open>
  \<^bold>\<open>Verification of the bare-metal runtime.\<close>

  The program under \<^verbatim>\<open>src/\<close> is a runtime for RISC-V machines without an operating system: start code, a
  small kernel with threads on several harts, system calls in the manner of Linux, a tree of devices with
  their drivers, and console output.  This library models the 64-bit machine-mode build.  Every
  definition keeps the name of the C function, structure or assembly label it translates.

  \<^bold>\<open>Conventions.\<close>  Machine integers are words of their width and wrap around; \<open>int\<close> results are integers,
  errors negative ones as in the code.  A pointer that may be NULL is an \<open>option\<close>, a pointer into memory a
  \<open>u64\<close>, a pointer to an object the index of the object in its store.  A function with the result type
  \<open>option\<close> is \<open>None\<close> where the C code has no defined result (an index outside of an array, a NULL
  pointer that is used) and where it does not return (a lock that is taken, a register that never changes, a panic);
  loops that may run for ever are \<open>partial_function (option)\<close>, all other loops are total
  functions.  No function has fuel.  The configuration (\<^verbatim>\<open>CONFIG_*\<close>) is the record
  \<open>kconfig\<close>, in the start code also \<open>boot_config\<close>.  Hardware is a type parameter \<open>'h\<close> with the register
  accesses as functions on it; what a driver relies on of the hardware is a named predicate (\<open>tx_status\<close>,
  \<open>tx_data\<close>, \<open>pll_reg\<close>, \<open>gpio_reg\<close>) that a witness instantiates.

  \<^bold>\<open>Base.\<close>
  \<^item> \<open>Kbase\<close>: word types, error numbers, macros of \<^verbatim>\<open>bmetal.h\<close>, the configuration, shared lemmas on words and lists.
  \<^item> \<open>Kstring\<close>: \<^verbatim>\<open>sys/sys/string.c\<close> over byte memory.  The unrolled loops of \<open>k_memset\<close> and \<open>k_memcpy\<close> equal the plain
    byte loops; the comparison functions order strings.
  \<^item> \<open>Lock\<close>: \<^verbatim>\<open>atomic.h\<close>, \<^verbatim>\<open>sys/lock.c\<close>.  The operations in sequence, with the locale \<open>mutex\<close> that their clients use, and
    as atomic steps of many harts, with mutual exclusion and progress.
  \<^item> \<open>Event\<close>: \<^verbatim>\<open>sys/event.c\<close>, handlers as a linked list in a store; adding, removing and calling refine operations on lists.

  \<^bold>\<open>Memory.\<close>
  \<^item> \<open>Memory\<close>: \<^verbatim>\<open>sys/memory.c\<close>, the page allocator.  The invariant \<open>mem_inv\<close> counts the used pages; allocation is
    characterised for every length, with the page it does not look at and the length that wraps.
  \<^item> \<open>Mmap\<close>: \<open>brk\<close>, \<open>mmap\<close>, \<open>munmap\<close>, \<open>madvise\<close>, \<open>mprotect\<close> of \<^verbatim>\<open>sys/syscall.c\<close> on the allocator and byte memory.

  \<^bold>\<open>Processor, threads, traps.\<close>
  \<^item> \<open>Arch\<close>: \<^verbatim>\<open>arch/riscv/cpu.c\<close>, \<^verbatim>\<open>intr.c\<close>, \<^verbatim>\<open>thread.c\<close>: frames, argument access, dispatch of interrupts and exceptions.
    The bits of the machine-level interrupts in \<open>mip\<close> are read-only, so \<open>csrc_mip\<close> clears only the others.
  \<^item> \<open>Cpu\<close>: \<^verbatim>\<open>driver/cpu/cpu.c\<close>, \<^verbatim>\<open>sys/smp.c\<close>: the record \<open>kernel\<close> of CPUs, threads and process, and the operations on CPUs.
  \<^item> \<open>Thread\<close>: \<^verbatim>\<open>sys/thread.c\<close> and the thread setup of \<^verbatim>\<open>sys/init.c\<close>.  The invariant \<open>thread_inv\<close> (running threads are the tasks of the CPUs,
    ids are unique) is kept by creation, clone, stop and destruction on every path.
  \<^item> \<open>Futex\<close>: waking as a function; waiting and waking of many CPUs as the step relation \<open>fx_step\<close>, with the
    interrupt that cannot be sent as a step of its own.
  \<^item> \<open>Args\<close>: the communication area, the argument vector, the start and end of leader and children.
  \<^item> \<open>Proc\<close>: clone, exit and the other calls on threads; \<^verbatim>\<open>sys/fini.c\<close>.
  \<^item> \<open>Trap\<close>: \<^verbatim>\<open>isr.S\<close>, \<^verbatim>\<open>switch.S\<close> instruction by instruction on a machine with registers and memory; they refine \<open>trap_spec\<close>.
    The C functions a trap calls are a parameter that keeps to the calling convention (\<open>c_abi\<close>).
  \<^item> \<open>Syscall\<close>: the table of system calls and the wrappers; the parameter of \<open>Trap\<close> is there the kernel of \<open>Proc\<close> and \<open>Futex\<close>.
  \<^item> \<open>Wake\<close>: the handshake of \<^verbatim>\<open>driver/cpu/riscv.c\<close> with \<^verbatim>\<open>start.S\<close>, as interleaved steps of the leader and the harts, which may
    reset at any time.  Accesses take effect in program order.  The assembly has no fence between the load
    of \<open>k_boot_proc\<close> and the loads of the stack pointers, so this is more than the memory model of RISC-V gives.
  \<^item> \<open>Clock\<close>: \<^verbatim>\<open>sys/clock.c\<close>, the clock calls, the CLINT timer.

  \<^bold>\<open>Output and files.\<close>
  \<^item> \<open>Vsprintf\<close>: \<^verbatim>\<open>sys/vsprintf.c\<close>; \<open>vformat\<close> gives the whole text, the output functions write what fits of it.
  \<^item> \<open>Printk\<close>: \<^verbatim>\<open>sys/printk.c\<close>, the console under its lock with interrupts off.
  \<^item> \<open>File\<close>: \<^verbatim>\<open>sys/file.c\<close> and the file calls.  The message on an invalid descriptor is left out.

  \<^bold>\<open>Devices.\<close>
  \<^item> \<open>Device\<close>: \<^verbatim>\<open>driver/device.c\<close>, \<^verbatim>\<open>driver/io.c\<close> and the loop that starts the drivers.  The operations of the drivers are the
    parameter \<open>drv_ops\<close>; the contract \<open>calm\<close> limits what they change.
  \<^item> \<open>Regs\<close>: register access and polling.
  \<^item> \<open>Uart\<close>, \<open>Intc\<close>, \<open>Clk\<close>, \<open>Gpio\<close>: the generic part and the drivers of each class.  Interrupt controllers share the
    locale \<open>handler_lines\<close>, interpreted on the controller of a hart and on the PLIC; clocks share the locale
    \<open>clk_provider\<close>, interpreted on fixed clocks and on the PRCI, with the client \<open>clk_attach\<close>.
  \<^item> \<open>Drivers\<close>: the \<open>add\<close> and \<open>remove\<close> operations, timers and reset.
  \<^item> \<open>Board\<close>: the four boards.  \<open>board_typed\<close> is a type system for their descriptions, sound for the functions that read them;
    drivers that wait for each other (\<open>patient\<close>) all come up.
  \<^item> \<open>Boot\<close>: sections of the image, the process, the order of the start, the idle thread, cache maintenance.

  \<^bold>\<open>How the parts interact.\<close>  The start code fills the sections (\<open>clear_bss\<close>, \<open>copy_data\<close>), \<open>k_init_system\<close> starts the
  allocator, the drivers (\<open>init_drivers\<close>, over the devices a board adds) and the process; \<open>init_args\<close> and
  \<open>init_main_thread\<close> prepare the program, \<open>cpu_riscv_wakeup\<close> brings up the other harts, which run the idle thread.  A trap
  saves the frame, and its C function is a system call, an interrupt (\<open>k_arch_riscv_interrupt\<close>, which calls the controller
  of the hart, which calls the PLIC, which calls the driver) or an exception.  Properties across components are
  stated where the last of them is defined: from \<open>write\<close> to the UART in \<open>Uart\<close>, from the trap to the handler
  of a source in \<open>Intc\<close>, from the \<open>ecall\<close> to the new thread in \<open>Syscall\<close>, from reset to a running system in
  \<open>Boot\<close>, and from the description of a board to its started devices in \<open>Board\<close>.

  \<^bold>\<open>What is shown.\<close>  Functional specifications of the operations on all branches; invariants of allocator and threads;
  mutual exclusion, no lost wake-up and own stacks for all interleavings; refinement of the trap
  code and of the handler lists; termination and success of the start; and, where the code
  falls short of what it means to do, theorems that say exactly how (pages handed out twice, the
  rounding of released lengths, dropped entries of the argument vector, lost digits, handlers that are lost).

  \<^bold>\<open>Not modelled.\<close>  Conversions of floating-point numbers in \<^verbatim>\<open>vsprintf.c\<close> (they are compiled in; there is no theory of IEEE
  numbers to state them with); log output; fences and weak memory; the newlib variant and the 32-bit build; the
  host tool \<^verbatim>\<open>tool/add_auxdata.c\<close>; headers of constants; tests and benchmarks; the build system.
\<close>

end
